(* ===== verification/Prelude.thy ===== *)
theory Prelude
  imports Main "HOL-Library.Word" "HOL-Library.Monad_Syntax"
begin

text \<open>
  Shared vocabulary of the development: the machine integers of the C sources as words of
  their width, byte strings, little-endian encoding of integers, and the generic lemmas on
  words, lists and options that the component theories use. Nothing here models a function
  of the kernel; the definitions that do start in the theory Phys_Memory.
\<close>

unbundle bit_operations_syntax

section \<open>Machine integers\<close>

type_synonym u8 = "8 word"
type_synonym u16 = "16 word"
type_synonym u32 = "32 word"
type_synonym u64 = "64 word"

text \<open>
  A \<open>const char *\<close> that a function only reads up to its terminating NUL is the list of the
  bytes before the NUL. \<open>chars\<close> turns a string literal of the sources into that list.
\<close>

type_synonym bytes = "u8 list"

definition chars :: "string \<Rightarrow> bytes" where
  "chars s = map of_char s"

named_theorems widths \<open>ranges of the machine integers as natural numbers\<close>

lemma unat_u8_bound [widths]: "unat (x :: u8) < 256"
  using unsigned_less [of x] by simp

lemma unat_u16_bound [widths]: "unat (x :: u16) < 65536"
  using unsigned_less [of x] by simp

lemma unat_u32_bound [widths]: "unat (x :: u32) < 4294967296"
  using unsigned_less [of x] by simp

lemma unat_u64_bound [widths]: "unat (x :: u64) < 18446744073709551616"
  using unsigned_less [of x] by simp

lemma unat_of_nat_u8 [simp]: "unat (of_nat n :: u8) = n mod 256"
  by (simp add: unat_of_nat)

lemma unat_of_nat_u64_small: "n < 18446744073709551616 \<Longrightarrow> unat (of_nat n :: u64) = n"
  by (simp add: unat_of_nat)

lemma unat_add_u64_small:
  "unat (a :: u64) + unat b < 18446744073709551616 \<Longrightarrow> unat (a + b) = unat a + unat b"
  by (simp add: unat_word_ariths)

lemma unat_add_of_nat_u64:
  "unat (a :: u64) + n < 18446744073709551616 \<Longrightarrow> unat (a + of_nat n) = unat a + n"
  by (simp add: unat_word_ariths unat_of_nat mod_simps)

lemma uint_inject [simp]: "uint (x :: 'a::len word) = uint y \<longleftrightarrow> x = y"
  by (metis word_uint_eq_iff)

lemma unat_inject [simp]: "unat (x :: 'a::len word) = unat y \<longleftrightarrow> x = y"
  by (metis word_unat_eq_iff)

lemma length_chars [simp]: "length (chars s) = length s"
  by (simp add: chars_def)

lemma chars_append: "chars (s @ t) = chars s @ chars t"
  by (simp add: chars_def)

section \<open>Address ranges\<close>

text \<open>
  The \<open>n\<close> bytes from address \<open>a\<close>, with the wrap-around of 64-bit pointer arithmetic: \<open>x\<close>
  is in the range when its offset from \<open>a\<close>, modulo \<open>2 ^ 64\<close>, is below \<open>n\<close>.
\<close>

definition in_range :: "u64 \<Rightarrow> nat \<Rightarrow> u64 \<Rightarrow> bool" where
  "in_range a n x \<longleftrightarrow> unat (x - a) < n"

lemma unat_sub_u64:
  "unat ((x :: u64) - a) =
     (if unat a \<le> unat x then unat x - unat a else unat x + 18446744073709551616 - unat a)"
  by (simp add: unat_sub_if_size word_size)

lemma in_range_nat:
  "unat a + n \<le> 18446744073709551616 \<Longrightarrow>
     in_range a n x \<longleftrightarrow> unat a \<le> unat x \<and> unat x < unat a + n"
  using unat_u64_bound [of x] by (auto simp: in_range_def unat_sub_u64)

lemma in_range_0 [simp]: "\<not> in_range a 0 x"
  by (simp add: in_range_def)

lemma in_range_offset [simp]:
  "n \<le> 18446744073709551616 \<Longrightarrow> i < n \<Longrightarrow> in_range a n (a + of_nat i)"
  by (simp add: in_range_def unat_of_nat_u64_small)

lemma in_rangeE:
  assumes "in_range a n x"
  obtains i where "i < n" and "x = a + of_nat i"
proof
  show "unat (x - a) < n" using assms by (simp add: in_range_def)
  show "x = a + of_nat (unat (x - a))" by simp
qed

lemma offset_eq_iff:
  assumes "n < 18446744073709551616"
  shows "x = d + of_nat n \<longleftrightarrow> unat ((x :: u64) - d) = n"
proof
  show "unat (x - d) = n" if "x = d + of_nat n"
    using that assms by (simp add: unat_of_nat_u64_small)
next
  have "x = d + of_nat (unat (x - d))" by simp
  then show "x = d + of_nat n" if "unat (x - d) = n" using that by simp
qed

lemma in_range_Suc: "in_range a (Suc n) x \<longleftrightarrow> in_range a n x \<or> unat (x - a) = n"
  by (auto simp: in_range_def)

section \<open>Little-endian integers\<close>

fun le_bytes :: "nat \<Rightarrow> nat \<Rightarrow> bytes" where
  "le_bytes 0 v = []"
| "le_bytes (Suc n) v = of_nat v # le_bytes n (v div 256)"

fun le_value :: "bytes \<Rightarrow> nat" where
  "le_value [] = 0"
| "le_value (b # bs) = unat b + 256 * le_value bs"

lemma length_le_bytes [simp]: "length (le_bytes n v) = n"
  by (induction n arbitrary: v) auto

lemma le_value_le_bytes: "le_value (le_bytes n v) = v mod 256 ^ n"
  by (induction n arbitrary: v) (auto simp: mod_mult2_eq)

lemma le_value_bound: "le_value bs < 256 ^ length bs"
proof (induction bs)
  case Nil
  then show ?case by simp
next
  case (Cons b bs)
  have "unat b < 256" by (rule unat_u8_bound)
  with Cons show ?case by simp
qed

lemma le_bytes_le_value: "length bs = n \<Longrightarrow> le_bytes n (le_value bs) = bs"
proof (induction bs arbitrary: n)
  case Nil
  then show ?case by simp
next
  case (Cons b bs)
  have "unat b < 256" by (rule unat_u8_bound)
  then have "unat (of_nat (unat b + 256 * le_value bs) :: u8) = unat b"
    and div: "(unat b + 256 * le_value bs) div 256 = le_value bs"
    by (simp_all only: unat_of_nat_u8) simp_all
  then have "(of_nat (unat b + 256 * le_value bs) :: u8) = b"
    by (simp only: word_unat_eq_iff)
  with div Cons show ?case by (auto simp del: of_nat_add)
qed

lemma le_bytes_unfold:
  "le_bytes 2 v = [of_nat v, of_nat (v div 256)]"
  "le_bytes 4 v = [of_nat v, of_nat (v div 256), of_nat (v div 65536), of_nat (v div 16777216)]"
proof -
  have 2: "2 = Suc (Suc 0)" and 4: "4 = Suc (Suc (Suc (Suc 0)))" by simp_all
  show "le_bytes 2 v = [of_nat v, of_nat (v div 256)]"
    unfolding 2 by simp
  show "le_bytes 4 v = [of_nat v, of_nat (v div 256), of_nat (v div 65536), of_nat (v div 16777216)]"
    unfolding 4 by (simp flip: div_mult2_eq)
qed

lemma le_value_append: "le_value (xs @ ys) = le_value xs + 256 ^ length xs * le_value ys"
  by (induction xs) (auto simp: algebra_simps)

section \<open>Lists and loops\<close>

text \<open>A counting loop of the sources is a \<open>fold\<close> over the indices it visits.\<close>

lemma fold_invariant_set:
  assumes "P s" and "\<And>x s. x \<in> set xs \<Longrightarrow> P s \<Longrightarrow> P (f x s)"
  shows "P (fold f xs s)"
  using assms by (induction xs arbitrary: s) auto

lemma fold_upt_Suc: "i \<le> n \<Longrightarrow> fold f [i..<Suc n] s = f n (fold f [i..<n] s)"
  by simp

lemma upt_nth_take: "map ((!) xs) [0..<n] = take n xs" if "n \<le> length xs"
  using that by (auto intro: nth_equalityI)

end
