(* ===== verification/Phys_Memory.thy ===== *)
theory Phys_Memory
  imports Prelude
begin

text \<open>
  The physical memory of the machine. The kernel runs identity-mapped in one address space
  (docs/ARCHITECTURE.md, Delivered system boundaries), so a C pointer is a 64-bit address
  and memory is a function from addresses to bytes. Structure fields are read and written
  as little-endian integers at their offsets. The byte routines of kernel/src/strings.c
  that work on raw memory are in C_Strings.
\<close>

type_synonym mem = "u64 \<Rightarrow> u8"

definition read_bytes :: "mem \<Rightarrow> u64 \<Rightarrow> nat \<Rightarrow> bytes" where
  "read_bytes m a n = map (\<lambda>i. m (a + of_nat i)) [0..<n]"

definition write_bytes :: "mem \<Rightarrow> u64 \<Rightarrow> bytes \<Rightarrow> mem" where
  "write_bytes m a bs = (\<lambda>x. if in_range a (length bs) x then bs ! unat (x - a) else m x)"

definition rd16 :: "mem \<Rightarrow> u64 \<Rightarrow> u16" where
  "rd16 m a = of_nat (le_value (read_bytes m a 2))"

definition rd32 :: "mem \<Rightarrow> u64 \<Rightarrow> u32" where
  "rd32 m a = of_nat (le_value (read_bytes m a 4))"

definition rd64 :: "mem \<Rightarrow> u64 \<Rightarrow> u64" where
  "rd64 m a = of_nat (le_value (read_bytes m a 8))"

definition wr16 :: "mem \<Rightarrow> u64 \<Rightarrow> u16 \<Rightarrow> mem" where
  "wr16 m a v = write_bytes m a (le_bytes 2 (unat v))"

definition wr64 :: "mem \<Rightarrow> u64 \<Rightarrow> u64 \<Rightarrow> mem" where
  "wr64 m a v = write_bytes m a (le_bytes 8 (unat v))"

named_theorems mem_simps \<open>reads after writes\<close>

lemma length_read_bytes [simp]: "length (read_bytes m a n) = n"
  by (simp add: read_bytes_def)

lemma nth_read_bytes: "i < n \<Longrightarrow> read_bytes m a n ! i = m (a + of_nat i)"
  by (simp add: read_bytes_def)

lemma read_bytes_cong:
  "(\<And>i. i < n \<Longrightarrow> m (a + of_nat i) = m' (a + of_nat i)) \<Longrightarrow>
     read_bytes m a n = read_bytes m' a n"
  by (simp add: read_bytes_def)

lemma read_bytes_cong_range:
  "(\<And>x. in_range a n x \<Longrightarrow> m x = m' x) \<Longrightarrow> n \<le> 18446744073709551616 \<Longrightarrow>
     read_bytes m a n = read_bytes m' a n"
  by (rule read_bytes_cong) simp

lemma read_bytes_add: "read_bytes m a (i + j) = read_bytes m a i @ read_bytes m (a + of_nat i) j"
proof -
  have "[0..<i + j] = [0..<i] @ map (\<lambda>k. i + k) [0..<j]"
    by (simp add: map_add_upt upt_add_eq_append [of 0 i j] add.commute)
  then show ?thesis by (simp add: read_bytes_def comp_def add.assoc)
qed

lemma read_bytes_sub:
  "i + j \<le> n \<Longrightarrow> read_bytes m (a + of_nat i) j = take j (drop i (read_bytes m a n))"
  by (rule nth_equalityI) (auto simp: nth_read_bytes add.assoc)

lemma write_bytes_apply:
  "write_bytes m a bs x = (if in_range a (length bs) x then bs ! unat (x - a) else m x)"
  by (simp add: write_bytes_def)

lemma write_bytes_out [mem_simps]: "\<not> in_range a (length bs) x \<Longrightarrow> write_bytes m a bs x = m x"
  by (simp add: write_bytes_def)

lemma read_write_same:
  "length bs \<le> 18446744073709551616 \<Longrightarrow> read_bytes (write_bytes m a bs) a (length bs) = bs"
  by (rule nth_equalityI)
    (auto simp: nth_read_bytes write_bytes_apply unat_of_nat_u64_small)

lemma read_write_disjoint:
  "(\<And>i. i < n \<Longrightarrow> \<not> in_range a (length bs) (b + of_nat i)) \<Longrightarrow>
     read_bytes (write_bytes m a bs) b n = read_bytes m b n"
  by (rule read_bytes_cong) (simp add: write_bytes_apply)

lemma write_bytes_Nil [simp]: "write_bytes m a [] = m"
  by (rule ext) (simp add: write_bytes_apply)

lemma write_bytes_snoc:
  "length bs < 18446744073709551616 \<Longrightarrow>
     (write_bytes m a bs)(a + of_nat (length bs) := b) = write_bytes m a (bs @ [b])"
  by (rule ext)
    (auto simp: write_bytes_apply offset_eq_iff in_range_Suc nth_append in_range_def)

lemma write_bytes_append:
  assumes "length xs + length ys \<le> 18446744073709551616"
  shows "write_bytes (write_bytes m a xs) (a + of_nat (length xs)) ys = write_bytes m a (xs @ ys)"
  using assms
proof (induction ys rule: rev_induct)
  case Nil
  then show ?case by simp
next
  case (snoc y ys)
  have "write_bytes (write_bytes m a xs) (a + of_nat (length xs)) (ys @ [y]) =
      (write_bytes (write_bytes m a xs) (a + of_nat (length xs)) ys)
        (a + of_nat (length xs) + of_nat (length ys) := y)"
    using snoc.prems by (intro write_bytes_snoc [symmetric]) simp
  also have "\<dots> = (write_bytes m a (xs @ ys))(a + of_nat (length (xs @ ys)) := y)"
    using snoc by (simp add: add.assoc)
  also have "\<dots> = write_bytes m a (xs @ ys @ [y])"
    using snoc.prems write_bytes_snoc [of "xs @ ys" m a y] by simp
  finally show ?case .
qed

section \<open>Disjoint ranges that do not wrap\<close>

text \<open>
  Most structures of the kernel sit well below the top of the address space. For them,
  disjointness is a comparison of natural numbers.
\<close>

definition apart :: "u64 \<Rightarrow> nat \<Rightarrow> u64 \<Rightarrow> nat \<Rightarrow> bool" where
  "apart a n b k \<longleftrightarrow>
     unat a + n \<le> 18446744073709551616 \<and> unat b + k \<le> 18446744073709551616 \<and>
     (unat a + n \<le> unat b \<or> unat b + k \<le> unat a)"

lemma apart_sym: "apart a n b k \<longleftrightarrow> apart b k a n"
  by (auto simp: apart_def)

lemma apart_not_in_range:
  assumes "apart a n b k" and "i < k"
  shows "\<not> in_range a n (b + of_nat i)"
proof -
  have "unat (b + of_nat i) = unat b + i"
    using assms by (intro unat_add_of_nat_u64) (auto simp: apart_def)
  then show ?thesis using assms by (auto simp: in_range_nat apart_def)
qed

lemma apart_no_common: "apart a n b k \<Longrightarrow> in_range a n x \<Longrightarrow> \<not> in_range b k x"
  by (auto simp: apart_def in_range_nat)

lemma read_write_apart [mem_simps]:
  "apart a (length bs) b n \<Longrightarrow> read_bytes (write_bytes m a bs) b n = read_bytes m b n"
  by (rule read_write_disjoint) (rule apart_not_in_range)

section \<open>Typed accesses\<close>

lemma of_nat_mod_pow16: "(of_nat (n mod 65536) :: u16) = of_nat n"
  by (simp add: word_unat_eq_iff unat_of_nat)

lemma of_nat_mod_pow64: "(of_nat (n mod 18446744073709551616) :: u64) = of_nat n"
  by (simp add: word_unat_eq_iff unat_of_nat)

lemma rd16_wr16_same [simp]: "rd16 (wr16 m a v) a = v"
  using read_write_same [of "le_bytes 2 (unat v)" m a]
  by (simp add: rd16_def wr16_def le_value_le_bytes of_nat_mod_pow16)

lemma rd64_wr64_same [simp]: "rd64 (wr64 m a v) a = v"
  using read_write_same [of "le_bytes 8 (unat v)" m a]
  by (simp add: rd64_def wr64_def le_value_le_bytes of_nat_mod_pow64)

lemma rd64_wr64_apart [mem_simps]: "apart a 8 b 8 \<Longrightarrow> rd64 (wr64 m a v) b = rd64 m b"
  by (simp add: rd64_def wr64_def mem_simps)

lemma wr64_out [mem_simps]: "\<not> in_range a 8 x \<Longrightarrow> wr64 m a v x = m x"
  by (simp add: wr64_def mem_simps)

lemma rd64_upd [mem_simps]: "\<not> in_range b 8 x \<Longrightarrow> rd64 (m(x := v)) b = rd64 m b"
  unfolding rd64_def
  by (rule arg_cong [where f = "\<lambda>bs. of_nat (le_value bs)"], rule read_bytes_cong) auto

lemma rd64_cong: "(\<And>x. in_range a 8 x \<Longrightarrow> m x = m' x) \<Longrightarrow> rd64 m a = rd64 m' a"
  using read_bytes_cong_range [of a 8 m m'] by (simp add: rd64_def)

lemma rd32_cong: "(\<And>x. in_range a 4 x \<Longrightarrow> m x = m' x) \<Longrightarrow> rd32 m a = rd32 m' a"
  using read_bytes_cong_range [of a 4 m m'] by (simp add: rd32_def)

lemma rd16_cong: "(\<And>x. in_range a 2 x \<Longrightarrow> m x = m' x) \<Longrightarrow> rd16 m a = rd16 m' a"
  using read_bytes_cong_range [of a 2 m m'] by (simp add: rd16_def)

text \<open>A field of a structure whose bytes are known.\<close>

lemma rd_slice:
  assumes "read_bytes m b (length bs) = bs"
  shows "i + 2 \<le> length bs \<Longrightarrow> rd16 m (b + of_nat i) = of_nat (le_value (take 2 (drop i bs)))"
    and "i + 4 \<le> length bs \<Longrightarrow> rd32 m (b + of_nat i) = of_nat (le_value (take 4 (drop i bs)))"
    and "i + 8 \<le> length bs \<Longrightarrow> rd64 m (b + of_nat i) = of_nat (le_value (take 8 (drop i bs)))"
    and "i < length bs \<Longrightarrow> m (b + of_nat i) = bs ! i"
  using read_bytes_sub [of i 2 "length bs" m b] read_bytes_sub [of i 4 "length bs" m b]
    read_bytes_sub [of i 8 "length bs" m b] nth_read_bytes [of i "length bs" m b] assms
  by (simp_all add: rd16_def rd32_def rd64_def)

lemmas rd32_slice = rd_slice(2)

lemma unat_rd:
  "unat (rd16 m a) = le_value (read_bytes m a 2)"
  "unat (rd32 m a) = le_value (read_bytes m a 4)"
  "unat (rd64 m a) = le_value (read_bytes m a 8)"
  using le_value_bound [of "read_bytes m a 2"] le_value_bound [of "read_bytes m a 4"]
    le_value_bound [of "read_bytes m a 8"]
  by (simp_all add: rd16_def rd32_def rd64_def unat_of_nat)

end
