(* ===== verification/C_Strings.thy ===== *)
theory C_Strings
  imports Phys_Memory
begin

text \<open>
  The string and memory routines of kernel/src/strings.c. A \<open>const char *\<close> is the view it
  gives of memory, a function from the offset to the byte there; offsets are \<open>size_t\<close> and
  wrap at \<open>2 ^ 64\<close>. A loop that only stops at a NUL is a partial function: \<open>None\<close> is a loop
  that does not end. The routines that write take the memory and return it.
\<close>

type_synonym cptr = "u64 \<Rightarrow> u8"

text \<open>The view from an address of memory, and the view of a string literal or buffer.\<close>

definition ptr_at :: "mem \<Rightarrow> u64 \<Rightarrow> cptr" where
  "ptr_at m a = (\<lambda>i. m (a + i))"

definition lit :: "bytes \<Rightarrow> cptr" where
  "lit s = (\<lambda>i. if unat i < length s then s ! unat i else 0)"

section \<open>The routines\<close>

partial_function (option) string_length_from :: "cptr \<Rightarrow> u64 \<Rightarrow> u64 option" where
  "string_length_from text len =
     (if text len \<noteq> 0 then string_length_from text (len + 1) else Some len)"

definition string_length :: "cptr \<Rightarrow> u64 option" where
  "string_length text = string_length_from text 0"

partial_function (option) string_compare :: "cptr \<Rightarrow> cptr \<Rightarrow> int option" where
  "string_compare left right =
     (if left 0 \<noteq> 0 \<and> right 0 \<noteq> 0 then
        (if left 0 \<noteq> right 0 then Some (uint (left 0) - uint (right 0))
         else string_compare (\<lambda>i. left (i + 1)) (\<lambda>i. right (i + 1)))
      else Some (uint (left 0) - uint (right 0)))"

function string_ncompare_from :: "cptr \<Rightarrow> cptr \<Rightarrow> nat \<Rightarrow> nat \<Rightarrow> int" where
  "string_ncompare_from left right count index =
     (if index < count then
        (let l = left (of_nat index); r = right (of_nat index) in
         if l \<noteq> r then uint l - uint r
         else if l = 0 \<or> r = 0 then 0
         else string_ncompare_from left right count (Suc index))
      else 0)"
  by pat_completeness auto
termination
  by (relation "measure (\<lambda>(left, right, count, index). count - index)") auto

definition string_ncompare :: "cptr \<Rightarrow> cptr \<Rightarrow> u64 \<Rightarrow> int" where
  "string_ncompare left right count = string_ncompare_from left right (unat count) 0"

partial_function (option) string_starts_with :: "cptr \<Rightarrow> cptr \<Rightarrow> bool option" where
  "string_starts_with text prefix =
     (if prefix 0 \<noteq> 0 then
        (if text 0 \<noteq> prefix 0 then Some False
         else string_starts_with (\<lambda>i. text (i + 1)) (\<lambda>i. prefix (i + 1)))
      else Some True)"

definition memory_copy :: "u64 \<Rightarrow> u64 \<Rightarrow> u64 \<Rightarrow> mem \<Rightarrow> mem" where
  "memory_copy destination source count m =
     fold (\<lambda>index m. m(destination + of_nat index := m (source + of_nat index)))
       [0..<unat count] m"

definition memory_set :: "u64 \<Rightarrow> u8 \<Rightarrow> u64 \<Rightarrow> mem \<Rightarrow> mem" where
  "memory_set destination value count m =
     fold (\<lambda>index m. m(destination + of_nat index := value)) [0..<unat count] m"

function memory_compare_from :: "cptr \<Rightarrow> cptr \<Rightarrow> nat \<Rightarrow> nat \<Rightarrow> int" where
  "memory_compare_from lhs rhs count index =
     (if index < count then
        (if lhs (of_nat index) \<noteq> rhs (of_nat index)
         then uint (lhs (of_nat index)) - uint (rhs (of_nat index))
         else memory_compare_from lhs rhs count (Suc index))
      else 0)"
  by pat_completeness auto
termination
  by (relation "measure (\<lambda>(lhs, rhs, count, index). count - index)") auto

definition memory_compare :: "cptr \<Rightarrow> cptr \<Rightarrow> u64 \<Rightarrow> int" where
  "memory_compare left right count = memory_compare_from left right (unat count) 0"

function string_copy_from :: "u64 \<Rightarrow> u64 \<Rightarrow> nat \<Rightarrow> nat \<Rightarrow> mem \<Rightarrow> nat \<times> mem" where
  "string_copy_from destination source capacity index m =
     (if m (source + of_nat index) \<noteq> 0 \<and> index + 1 < capacity then
        string_copy_from destination source capacity (Suc index)
          (m(destination + of_nat index := m (source + of_nat index)))
      else (index, m(destination + of_nat index := 0)))"
  by pat_completeness auto
termination
  by (relation "measure (\<lambda>(d, s, capacity, index, m). capacity - index)") auto

definition string_copy :: "u64 \<Rightarrow> u64 \<Rightarrow> u64 \<Rightarrow> mem \<Rightarrow> u64 \<times> mem" where
  "string_copy destination source capacity m =
     (if capacity = 0 then (0, m)
      else (let (index, m') = string_copy_from destination source (unat capacity) 0 m
            in (of_nat index, m')))"

declare string_ncompare_from.simps [simp del]
declare memory_compare_from.simps [simp del]
declare string_copy_from.simps [simp del]

section \<open>C strings as lists of bytes\<close>

text \<open>\<open>is_cstr v s\<close>: from the pointer \<open>v\<close> on, memory holds the bytes \<open>s\<close> and then a NUL.\<close>

fun is_cstr :: "cptr \<Rightarrow> bytes \<Rightarrow> bool" where
  "is_cstr v [] \<longleftrightarrow> v 0 = 0"
| "is_cstr v (c # cs) \<longleftrightarrow> v 0 = c \<and> c \<noteq> 0 \<and> is_cstr (\<lambda>i. v (i + 1)) cs"

lemma is_cstr_iff:
  "is_cstr v s \<longleftrightarrow>
     (\<forall>i < length s. v (of_nat i) = s ! i \<and> s ! i \<noteq> 0) \<and> v (of_nat (length s)) = 0"
proof (induction v s rule: is_cstr.induct)
  case (1 v)
  then show ?case by simp
next
  case (2 v c cs)
  have "(\<forall>i < length (c # cs). v (of_nat i) = (c # cs) ! i \<and> (c # cs) ! i \<noteq> 0) \<longleftrightarrow>
      v 0 = c \<and> c \<noteq> 0 \<and> (\<forall>i < length cs. v (of_nat i + 1) = cs ! i \<and> cs ! i \<noteq> 0)"
    by (simp add: All_less_Suc2 add.commute)
  with 2 show ?case by (auto simp: add.commute)
qed

lemma is_cstr_nth: "is_cstr v s \<Longrightarrow> i < length s \<Longrightarrow> v (of_nat i) = s ! i \<and> s ! i \<noteq> 0"
  by (simp add: is_cstr_iff)

lemma is_cstr_end: "is_cstr v s \<Longrightarrow> v (of_nat (length s)) = 0"
  by (simp add: is_cstr_iff)

lemma is_cstr_no_nul: "is_cstr v s \<Longrightarrow> 0 \<notin> set s"
  by (auto simp: is_cstr_iff in_set_conv_nth)

lemma is_cstr_cong:
  "is_cstr v s \<Longrightarrow> (\<And>i. i \<le> length s \<Longrightarrow> v (of_nat i) = w (of_nat i)) \<Longrightarrow> is_cstr w s"
  by (simp add: is_cstr_iff)

lemma is_cstr_lit:
  "0 \<notin> set s \<Longrightarrow> length s < 18446744073709551616 \<Longrightarrow> is_cstr (lit s) s"
  by (auto simp: is_cstr_iff lit_def unat_of_nat_u64_small in_set_conv_nth)

lemma is_cstr_ptr_at_advance:
  "is_cstr (ptr_at m a) (s @ t) \<Longrightarrow> is_cstr (ptr_at m (a + of_nat (length s))) t"
  by (auto simp: is_cstr_iff ptr_at_def nth_append add.assoc
      dest!: spec [where x = "length s + _"] simp flip: of_nat_add)

section \<open>What the routines compute\<close>

text \<open>\<open>cmp_bytes\<close> is the comparison of two strings as lists of unsigned bytes.\<close>

fun cmp_bytes :: "bytes \<Rightarrow> bytes \<Rightarrow> int" where
  "cmp_bytes [] [] = 0"
| "cmp_bytes [] (y # ys) = - uint y"
| "cmp_bytes (x # xs) [] = uint x"
| "cmp_bytes (x # xs) (y # ys) = (if x = y then cmp_bytes xs ys else uint x - uint y)"

lemma string_compare_cstr:
  "is_cstr l s \<Longrightarrow> is_cstr r t \<Longrightarrow> string_compare l r = Some (cmp_bytes s t)"
proof (induction s t arbitrary: l r rule: cmp_bytes.induct)
  case 1
  then show ?case by (simp add: string_compare.simps)
next
  case (2 y ys)
  then show ?case by (simp add: string_compare.simps)
next
  case (3 x xs)
  then show ?case by (simp add: string_compare.simps)
next
  case (4 x xs y ys)
  then show ?case by (subst string_compare.simps) simp
qed

lemma cmp_bytes_eq_0: "0 \<notin> set s \<Longrightarrow> 0 \<notin> set t \<Longrightarrow> cmp_bytes s t = 0 \<longleftrightarrow> s = t"
  by (induction s t rule: cmp_bytes.induct) (auto simp: uint_0_iff)

lemma string_compare_eq:
  assumes "is_cstr l s" and "is_cstr r t"
  shows "\<exists>c. string_compare l r = Some c \<and> (c = 0 \<longleftrightarrow> s = t)"
  using assms by (auto simp: string_compare_cstr cmp_bytes_eq_0 is_cstr_no_nul)

lemma string_starts_with_cstr:
  "is_cstr v s \<Longrightarrow> is_cstr w p \<Longrightarrow>
     string_starts_with v w = Some (take (length p) s = p)"
proof (induction p arbitrary: v w s)
  case Nil
  then show ?case by (simp add: string_starts_with.simps)
next
  case (Cons c p)
  show ?case
  proof (cases s)
    case Nil
    with Cons.prems show ?thesis by (simp add: string_starts_with.simps)
  next
    case (Cons x xs)
    with Cons.prems Cons.IH [of "\<lambda>i. v (i + 1)" xs "\<lambda>i. w (i + 1)"] show ?thesis
      by (subst string_starts_with.simps) auto
  qed
qed

lemma string_length_from_cstr:
  assumes "is_cstr v s" and "i \<le> length s"
  shows "string_length_from v (of_nat i) = Some (of_nat (length s))"
  using assms(2)
proof (induction "length s - i" arbitrary: i)
  case 0
  with is_cstr_end [OF assms(1)] show ?case by (simp add: string_length_from.simps)
next
  case (Suc n)
  then have "i < length s" by simp
  with is_cstr_nth [OF assms(1) this] have "v (of_nat i) \<noteq> 0" by simp
  moreover have "string_length_from v (of_nat (Suc i)) = Some (of_nat (length s))"
    using Suc by (intro Suc(1)) auto
  ultimately show ?case
    by (subst string_length_from.simps) (simp add: add.commute)
qed

lemma string_length_cstr: "is_cstr v s \<Longrightarrow> string_length v = Some (of_nat (length s))"
  using string_length_from_cstr [of v s 0] by (simp add: string_length_def)

lemma memory_compare_from_eq_0:
  "memory_compare_from l r n i = 0 \<longleftrightarrow> (\<forall>j. i \<le> j \<and> j < n \<longrightarrow> l (of_nat j) = r (of_nat j))"
proof (induction l r n i rule: memory_compare_from.induct)
  case (1 l r n i)
  show ?case
  proof (cases "i < n \<and> l (of_nat i) = r (of_nat i)")
    case True
    then have "memory_compare_from l r n i = memory_compare_from l r n (Suc i)"
      by (simp add: memory_compare_from.simps [of l r n i])
    with 1 True show ?thesis by (auto simp: Suc_le_eq) (metis le_neq_implies_less)
  next
    case False
    then show ?thesis by (auto simp: memory_compare_from.simps [of l r n i])
  qed
qed

lemma memory_compare_eq_0:
  "memory_compare l r n = 0 \<longleftrightarrow> (\<forall>j < unat n. l (of_nat j) = r (of_nat j))"
  by (simp add: memory_compare_def memory_compare_from_eq_0)

lemma cmp_bytes_less:
  "0 \<notin> set s \<Longrightarrow> 0 \<notin> set t \<Longrightarrow>
     cmp_bytes s t < 0 \<longleftrightarrow> (s, t) \<in> lexord {(x, y). x < y}"
proof (induction s t rule: cmp_bytes.induct)
  case (2 y ys)
  then have "uint y \<noteq> 0" by (auto simp: uint_0_iff)
  then show ?case using uint_ge_0 [of y] by (simp del: uint_ge_0 add: order_less_le)
qed (auto simp: word_less_def)

lemma string_ncompare_from_cstr:
  assumes "is_cstr l s" and "is_cstr r t"
    and "take i s = take i t" and "i \<le> length s" and "i \<le> length t"
  shows "string_ncompare_from l r n i = 0 \<longleftrightarrow> take n s = take n t \<or> n \<le> i"
  using assms(3-5)
proof (induction "n - i" arbitrary: i)
  case 0
  then show ?case by (simp add: string_ncompare_from.simps)
next
  case (Suc k)
  define x y where "x = l (of_nat i)" and "y = r (of_nat i)"
  have x: "x = (if i < length s then s ! i else 0)" and y: "y = (if i < length t then t ! i else 0)"
    using Suc.prems assms(1,2) is_cstr_nth [OF assms(1), of i] is_cstr_nth [OF assms(2), of i]
      is_cstr_end [OF assms(1)] is_cstr_end [OF assms(2)]
    by (auto simp: x_def y_def le_less)
  have nz: "i < length s \<Longrightarrow> s ! i \<noteq> 0" "i < length t \<Longrightarrow> t ! i \<noteq> 0"
    using is_cstr_nth [OF assms(1)] is_cstr_nth [OF assms(2)] by auto
  have step: "string_ncompare_from l r n i =
      (if x \<noteq> y then uint x - uint y else if x = 0 then 0
       else string_ncompare_from l r n (Suc i))"
    using Suc(2) by (subst string_ncompare_from.simps) (auto simp: x_def y_def Let_def)
  show ?case
  proof (cases "x \<noteq> y \<or> x = 0")
    case True
    have "x \<noteq> y \<Longrightarrow> take n s \<noteq> take n t"
    proof
      assume "x \<noteq> y" and eq: "take n s = take n t"
      have "i < length s \<longleftrightarrow> i < length t" using arg_cong [OF eq, of length] Suc(2) by auto
      moreover have "i < length s \<Longrightarrow> i < length t \<Longrightarrow> s ! i = t ! i"
        using arg_cong [OF eq, of "\<lambda>zs. zs ! i"] Suc(2) by simp
      ultimately show False using \<open>x \<noteq> y\<close> x y by (auto split: if_splits)
    qed
    moreover have "x = y \<Longrightarrow> x = 0 \<Longrightarrow> s = t"
      using x y nz Suc.prems by (auto split: if_splits)
    ultimately show ?thesis using True Suc(2) step by auto
  next
    case False
    then have "i < length s" "i < length t" "s ! i = t ! i" using x y by (auto split: if_splits)
    then have "take (Suc i) s = take (Suc i) t"
      using Suc.prems by (simp add: take_Suc_conv_app_nth)
    with Suc(1) [of "Suc i"] Suc(2) \<open>i < length s\<close> \<open>i < length t\<close>
    have "string_ncompare_from l r n (Suc i) = 0 \<longleftrightarrow> take n s = take n t \<or> n \<le> Suc i"
      by auto
    moreover have "n \<le> Suc i \<Longrightarrow> n = Suc i" using Suc(2) by simp
    ultimately show ?thesis using False step Suc(2) \<open>take (Suc i) s = _\<close> by auto
  qed
qed

lemma string_ncompare_cstr:
  "is_cstr l s \<Longrightarrow> is_cstr r t \<Longrightarrow>
     string_ncompare l r n = 0 \<longleftrightarrow> take (unat n) s = take (unat n) t"
  using string_ncompare_from_cstr [of l s r t 0 "unat n"] by (auto simp: string_ncompare_def)

section \<open>What the routines write\<close>

lemma memory_set_loop:
  "n \<le> 18446744073709551616 \<Longrightarrow>
     fold (\<lambda>i m. m(d + of_nat i := v)) [0..<n] m x = (if in_range d n x then v else m x)"
proof (induction n)
  case 0
  then show ?case by simp
next
  case (Suc n)
  have "x = d + of_nat n \<longleftrightarrow> unat (x - d) = n"
    using Suc.prems by (intro offset_eq_iff) simp
  with Suc show ?case by (auto simp: in_range_Suc)
qed

lemma memory_set_apply:
  "memory_set d v n m x = (if in_range d (unat n) x then v else m x)"
  using unat_u64_bound [of n] by (simp add: memory_set_def memory_set_loop)

text \<open>
  The forward byte loop copies the original source bytes when no byte is written before it
  is read: in particular when the ranges do not overlap.
\<close>

lemma memory_copy_loop:
  assumes "n \<le> 18446744073709551616"
    and "\<And>i. i < n \<Longrightarrow> \<not> in_range d n (s + of_nat i)"
  shows "k \<le> n \<Longrightarrow> fold (\<lambda>i m. m(d + of_nat i := m (s + of_nat i))) [0..<k] m x =
     (if in_range d k x then m (s + (x - d)) else m x)"
proof (induction k arbitrary: x)
  case 0
  then show ?case by simp
next
  case (Suc k)
  have eq: "x = d + of_nat k \<longleftrightarrow> unat (x - d) = k"
    using Suc.prems assms(1) by (intro offset_eq_iff) simp
  have "\<not> in_range d k (s + of_nat k)"
    using assms(2) [of k] Suc.prems by (simp add: in_range_def)
  with Suc eq show ?case by (auto simp: in_range_Suc)
qed

lemma memory_copy_apply:
  assumes "apart d (unat n) s (unat n)"
  shows "memory_copy d s n m x = (if in_range d (unat n) x then m (s + (x - d)) else m x)"
proof -
  have "\<And>i. i < unat n \<Longrightarrow> \<not> in_range d (unat n) (s + of_nat i)"
    using apart_not_in_range [OF assms] by blast
  from memory_copy_loop [OF _ this, of "unat n" m x] show ?thesis
    using unat_u64_bound [of n] by (simp add: memory_copy_def less_imp_le)
qed

lemma memory_copy_bytes:
  assumes "apart d (unat n) s (unat n)"
  shows "read_bytes (memory_copy d s n m) d (unat n) = read_bytes m s (unat n)"
  using unat_u64_bound [of n]
  by (simp add: read_bytes_def memory_copy_apply [OF assms] less_imp_le)

lemma string_copy_from_cstr:
  assumes str: "is_cstr (ptr_at m s) str" and ap: "apart d cap s (Suc (length str))"
    and cap: "0 < cap" "cap < 18446744073709551616"
  shows "k = min (length str) (cap - 1) \<Longrightarrow> i \<le> k \<Longrightarrow>
     string_copy_from d s cap i (write_bytes m d (take i str)) =
       (k, write_bytes m d (take k str @ [0]))"
proof (induction "k - i" arbitrary: i)
  case len0: 0
  from len0(1,3) have ik: "i = k" by linarith
  have kl: "k \<le> length str" "k < cap" using len0 cap by auto
  have rd: "write_bytes m d (take k str) (s + of_nat j) = m (s + of_nat j)" if "j \<le> length str" for j
    using apart_not_in_range [OF ap, of j] that kl
    by (intro write_bytes_out) (auto simp: in_range_def)
  have "m (s + of_nat k) = 0 \<or> \<not> k + 1 < cap"
    using is_cstr_end [OF str] len0(2) cap by (auto simp: ptr_at_def min_def split: if_splits)
  moreover have "length (take k str) = k" using kl by simp
  then have "(write_bytes m d (take k str))(d + of_nat k := 0) = write_bytes m d (take k str @ [0])"
    using write_bytes_snoc [of "take k str" m d 0] kl cap by (simp del: length_take)
  ultimately show ?case
    using kl cap rd [of k] by (subst string_copy_from.simps) (auto simp: ik)
next
  case (Suc n)
  then have i: "i < length str" "i + 1 < cap" "i < k" using cap by auto
  have rd: "write_bytes m d (take i str) (s + of_nat i) = m (s + of_nat i)"
    using apart_not_in_range [OF ap, of i] i by (intro write_bytes_out) (auto simp: in_range_def)
  have "m (s + of_nat i) = str ! i" "str ! i \<noteq> 0"
    using is_cstr_nth [OF str i(1)] by (auto simp: ptr_at_def)
  moreover have "(write_bytes m d (take i str))(d + of_nat i := str ! i) =
      write_bytes m d (take (Suc i) str)"
    using write_bytes_snoc [of "take i str" m d "str ! i"] i cap
    by (simp add: take_Suc_conv_app_nth)
  moreover have "string_copy_from d s cap (Suc i) (write_bytes m d (take (Suc i) str)) =
      (k, write_bytes m d (take k str @ [0]))"
    using Suc(2-4) i by (intro Suc(1)) auto
  ultimately show ?case using i rd by (subst string_copy_from.simps) simp
qed

lemma string_copy_cstr:
  assumes "is_cstr (ptr_at m s) str" and "apart d (unat cap) s (Suc (length str))" and "cap \<noteq> 0"
  shows "string_copy d s cap m =
     (of_nat (min (length str) (unat cap - 1)),
      write_bytes m d (take (unat cap - 1) str @ [0]))"
proof -
  have "0 < unat cap" using assms(3) by (simp add: unat_gt_0)
  then show ?thesis
    using string_copy_from_cstr [OF assms(1,2) _ unat_u64_bound refl, of 0] assms(3)
    by (simp add: string_copy_def min_def)
qed

section \<open>Properties\<close>

text \<open>
  C35 (string_compare_order): on two NUL-terminated strings \<open>string_compare\<close> ends, returns 0
  exactly when the strings are equal and a negative number exactly when the first comes
  before the second in the lexicographic order of their unsigned bytes.
\<close>

theorem string_compare_order:
  assumes "is_cstr l s" and "is_cstr r t"
  shows "\<exists>c. string_compare l r = Some c \<and> (c = 0 \<longleftrightarrow> s = t) \<and>
    (c < 0 \<longleftrightarrow> (s, t) \<in> lexord {(x, y). x < y})"
  using string_compare_cstr [OF assms] cmp_bytes_eq_0 [of s t] cmp_bytes_less [of s t]
    is_cstr_no_nul [OF assms(1)] is_cstr_no_nul [OF assms(2)] by simp

lemma string_compare_order_witness:
  "\<exists>c < 0. string_compare (lit (chars ''apps'')) (lit (chars ''help'')) = Some c"
proof -
  have "is_cstr (lit (chars ''apps'')) (chars ''apps'')"
    "is_cstr (lit (chars ''help'')) (chars ''help'')"
    by (intro is_cstr_lit; simp add: chars_def)+
  from string_compare_order [OF this] show ?thesis by (auto simp: chars_def)
qed

text \<open>
  \<open>string_copy\<close> into a destination of \<open>cap\<close> bytes that does not
  overlap the source always leaves a NUL-terminated string there: the source, cut to
  \<open>cap - 1\<close> bytes. It returns the number of bytes copied and writes nothing outside the
  destination.
\<close>

lemma string_copy_truncates:
  assumes "is_cstr (ptr_at m s) str" and "apart d (unat cap) s (Suc (length str))" and "cap \<noteq> 0"
  shows "\<exists>m'. string_copy d s cap m = (of_nat (min (length str) (unat cap - 1)), m') \<and>
    is_cstr (ptr_at m' d) (take (unat cap - 1) str) \<and>
    (\<forall>x. \<not> in_range d (unat cap) x \<longrightarrow> m' x = m x)"
proof -
  let ?t = "take (unat cap - 1) str"
  let ?m = "write_bytes m d (?t @ [0])"
  have cap: "0 < unat cap" using assms(3) by (simp add: unat_gt_0)
  have len: "length (?t @ [0]) \<le> unat cap" using cap by simp
  have b: "length (?t @ [0]) \<le> 18446744073709551616"
    using len unat_u64_bound [of cap] by linarith
  have nul: "0 \<notin> set ?t" using is_cstr_no_nul [OF assms(1)] by (auto dest: in_set_takeD)
  have at: "?m (d + of_nat i) = (?t @ [0]) ! i" if "i < length (?t @ [0])" for i
    using that b unat_of_nat_u64_small [of i] by (simp add: write_bytes_apply in_range_def)
  have "is_cstr (ptr_at ?m d) ?t"
    unfolding is_cstr_iff
  proof (intro conjI allI impI)
    fix i assume i: "i < length ?t"
    then have "?t ! i \<in> set ?t" by (rule nth_mem)
    with nul show "?t ! i \<noteq> 0" by metis
    from i have "i < length (?t @ [0])" unfolding length_append by linarith
    from at [OF this] i show "ptr_at ?m d (of_nat i) = ?t ! i" by (simp add: ptr_at_def nth_append)
  next
    have "length ?t < length (?t @ [0])" unfolding length_append by simp
    from at [OF this] show "ptr_at ?m d (of_nat (length ?t)) = 0"
      by (simp only: ptr_at_def nth_append_length)
  qed
  moreover have "?m x = m x" if "\<not> in_range d (unat cap) x" for x
    using that len by (simp add: write_bytes_apply in_range_def)
  ultimately show ?thesis using string_copy_cstr [OF assms] by blast
qed

lemma string_copy_truncates_witness:
  "\<exists>m'. string_copy 0x2000 0x1000 4 (write_bytes (\<lambda>_. 0) 0x1000 (chars ''kernel'')) = (3, m') \<and>
     is_cstr (ptr_at m' 0x2000) (chars ''ker'')"
proof -
  let ?m = "write_bytes (\<lambda>_. 0) 0x1000 (chars ''kernel'')"
  have "is_cstr (ptr_at ?m 0x1000) (chars ''kernel'')"
    by (simp add: chars_def ptr_at_def write_bytes_apply in_range_def)
  from string_copy_truncates [OF this, of "0x2000" 4] show ?thesis
    by (simp add: apart_def chars_def) blast
qed

end
