(* ===== verification/Port_IO.thy ===== *)
theory Port_IO
  imports Prelude
begin

text \<open>
  Port input and output (kernel/src/ports.c, and the \<open>inw\<close> of kernel/src/ata.c). The hardware
  behind the ports is not code of the repository: it is a parameter, a \<open>device\<close> that answers
  a read from the whole history of port accesses made so far. Any deterministic device is of
  this form. The drivers extend the history, so a driver's effect on the hardware is the list
  of accesses it appends.
\<close>

datatype io = In8 u16 u8 | Out8 u16 u8 | In16 u16 u16

type_synonym history = "io list"

record device =
  dev_in8 :: "history \<Rightarrow> u16 \<Rightarrow> u8"
  dev_in16 :: "history \<Rightarrow> u16 \<Rightarrow> u16"

definition inb :: "device \<Rightarrow> u16 \<Rightarrow> history \<Rightarrow> u8 \<times> history" where
  "inb dev port tr = (let v = dev_in8 dev tr port in (v, tr @ [In8 port v]))"

definition inw :: "device \<Rightarrow> u16 \<Rightarrow> history \<Rightarrow> u16 \<times> history" where
  "inw dev port tr = (let v = dev_in16 dev tr port in (v, tr @ [In16 port v]))"

definition outb :: "u16 \<Rightarrow> u8 \<Rightarrow> history \<Rightarrow> history" where
  "outb port v tr = tr @ [Out8 port v]"

definition io_wait :: "history \<Rightarrow> history" where
  "io_wait tr = outb 0x80 0 tr"

text \<open>The bytes a history writes to one port, in order.\<close>

fun out_bytes :: "u16 \<Rightarrow> history \<Rightarrow> bytes" where
  "out_bytes p [] = []"
| "out_bytes p (Out8 q v # tr) = (if q = p then v # out_bytes p tr else out_bytes p tr)"
| "out_bytes p (In8 q v # tr) = out_bytes p tr"
| "out_bytes p (In16 q w # tr) = out_bytes p tr"

lemma out_bytes_append [simp]: "out_bytes p (tr @ tr') = out_bytes p tr @ out_bytes p tr'"
  by (induction p tr rule: out_bytes.induct) auto

text \<open>\<open>extends tr tr'\<close>: the history only grew.\<close>

definition extends :: "history \<Rightarrow> history \<Rightarrow> bool" where
  "extends tr tr' \<longleftrightarrow> (\<exists>ev. tr' = tr @ ev)"

lemma extends_refl [simp]: "extends tr tr"
  by (simp add: extends_def)

lemma extends_trans [trans]: "extends a b \<Longrightarrow> extends b c \<Longrightarrow> extends a c"
  by (auto simp: extends_def)

lemma extends_outb [simp, intro]: "extends tr (outb p v tr)"
  by (simp add: extends_def outb_def)

lemma extends_inb: "inb dev p tr = (v, tr') \<Longrightarrow> extends tr tr'"
  by (auto simp: extends_def inb_def Let_def)

text \<open>\<open>only_ports P tr tr'\<close>: the history grew by accesses to the ports \<open>P\<close> only.\<close>

primrec io_port :: "io \<Rightarrow> u16" where
  "io_port (In8 p v) = p"
| "io_port (Out8 p v) = p"
| "io_port (In16 p w) = p"

definition only_ports :: "u16 set \<Rightarrow> history \<Rightarrow> history \<Rightarrow> bool" where
  "only_ports P tr tr' \<longleftrightarrow> (\<exists>ev. tr' = tr @ ev \<and> (\<forall>e \<in> set ev. io_port e \<in> P))"

lemma only_ports_refl [simp]: "only_ports P tr tr"
  by (simp add: only_ports_def)

lemma only_ports_trans [trans]: "only_ports P a b \<Longrightarrow> only_ports P b c \<Longrightarrow> only_ports P a c"
  by (fastforce simp: only_ports_def)

lemma only_ports_mono: "only_ports P tr tr' \<Longrightarrow> P \<subseteq> Q \<Longrightarrow> only_ports Q tr tr'"
  by (fastforce simp: only_ports_def)

lemma only_ports_append: "\<forall>e \<in> set ev. io_port e \<in> P \<Longrightarrow> only_ports P tr (tr @ ev)"
  by (auto simp: only_ports_def)

lemma only_ports_extends: "only_ports P tr tr' \<Longrightarrow> extends tr tr'"
  by (auto simp: only_ports_def extends_def)

end
