(* ===== verification/Pic.thy ===== *)
theory Pic
  imports Port_IO
begin

text \<open>
  The legacy interrupt controller driver, kernel/src/pic.c, and, as its specification, what
  the 8259A does with the words written to it: a small automaton \<open>pic_chip\<close> that reads the
  port history.
\<close>

definition PIC1_COMMAND :: u16 where "PIC1_COMMAND = 0x20"
definition PIC1_DATA :: u16 where "PIC1_DATA = 0x21"
definition PIC2_COMMAND :: u16 where "PIC2_COMMAND = 0xA0"
definition PIC2_DATA :: u16 where "PIC2_DATA = 0xA1"
definition PIC_EOI :: u8 where "PIC_EOI = 0x20"

lemmas pic_ports = PIC1_COMMAND_def PIC1_DATA_def PIC2_COMMAND_def PIC2_DATA_def PIC_EOI_def

definition pic_remap :: "device \<Rightarrow> history \<Rightarrow> history" where
  "pic_remap dev tr0 =
     (let (master_mask, tr1) = inb dev PIC1_DATA tr0;
          (slave_mask, tr2) = inb dev PIC2_DATA tr1;
          tr3 = io_wait (outb PIC1_COMMAND 0x11 tr2);
          tr4 = io_wait (outb PIC2_COMMAND 0x11 tr3);
          tr5 = io_wait (outb PIC1_DATA 0x20 tr4);
          tr6 = io_wait (outb PIC2_DATA 0x28 tr5);
          tr7 = io_wait (outb PIC1_DATA 0x04 tr6);
          tr8 = io_wait (outb PIC2_DATA 0x02 tr7);
          tr9 = io_wait (outb PIC1_DATA 0x01 tr8);
          tr10 = io_wait (outb PIC2_DATA 0x01 tr9);
          tr11 = outb PIC1_DATA master_mask tr10
      in outb PIC2_DATA slave_mask tr11)"

definition pic_set_masks :: "u8 \<Rightarrow> u8 \<Rightarrow> history \<Rightarrow> history" where
  "pic_set_masks master_mask slave_mask tr =
     outb PIC2_DATA slave_mask (outb PIC1_DATA master_mask tr)"

definition pic_send_eoi :: "u8 \<Rightarrow> history \<Rightarrow> history" where
  "pic_send_eoi irq tr =
     (let tr' = (if irq \<ge> 8 then outb PIC2_COMMAND PIC_EOI tr else tr)
      in outb PIC1_COMMAND PIC_EOI tr')"

section \<open>What the controller does with these writes\<close>

text \<open>
  The initialisation sequence of an 8259A: a command word with bit 4 set (ICW1) clears the
  mask and starts the sequence; the next three data writes are the vector base (ICW2, low
  three bits ignored), the cascade wiring (ICW3) and, as bit 0 of ICW1 asked for it, the mode
  (ICW4). Outside the sequence a data write sets the mask, and the command 0x20 is a
  non-specific end of interrupt. The value of the field \<open>phase\<close> is the number of
  initialisation words still expected.
\<close>

record pic_chip =
  phase :: nat
  vector_base :: u8
  cascade :: u8
  mode_8086 :: bool
  imr :: u8
  eoi_count :: nat

definition chip_command :: "u8 \<Rightarrow> pic_chip \<Rightarrow> pic_chip" where
  "chip_command v c =
     (if bit v 4 then c\<lparr>phase := 3, imr := 0\<rparr>
      else if v = 0x20 then c\<lparr>eoi_count := Suc (eoi_count c)\<rparr>
      else c)"

definition chip_data :: "u8 \<Rightarrow> pic_chip \<Rightarrow> pic_chip" where
  "chip_data v c =
     (if phase c = 3 then c\<lparr>phase := 2, vector_base := v AND 0xF8\<rparr>
      else if phase c = 2 then c\<lparr>phase := 1, cascade := v\<rparr>
      else if phase c = 1 then c\<lparr>phase := 0, mode_8086 := bit v 0\<rparr>
      else c\<lparr>imr := v\<rparr>)"

fun chip_run :: "u16 \<Rightarrow> u16 \<Rightarrow> history \<Rightarrow> pic_chip \<Rightarrow> pic_chip" where
  "chip_run cmd dat [] c = c"
| "chip_run cmd dat (Out8 p v # tr) c =
     chip_run cmd dat tr
       (if p = cmd then chip_command v c else if p = dat then chip_data v c else c)"
| "chip_run cmd dat (_ # tr) c = chip_run cmd dat tr c"

definition master_chip :: "history \<Rightarrow> pic_chip \<Rightarrow> pic_chip" where
  "master_chip = chip_run PIC1_COMMAND PIC1_DATA"

definition slave_chip :: "history \<Rightarrow> pic_chip \<Rightarrow> pic_chip" where
  "slave_chip = chip_run PIC2_COMMAND PIC2_DATA"

lemma chip_run_append: "chip_run cmd dat (tr @ tr') c = chip_run cmd dat tr' (chip_run cmd dat tr c)"
  by (induction cmd dat tr c rule: chip_run.induct) auto

lemmas chip_defs = chip_command_def chip_data_def master_chip_def slave_chip_def pic_ports

text \<open>The history that the remap appends, given the two masks it read.\<close>

definition remap_writes :: "u8 \<Rightarrow> u8 \<Rightarrow> history" where
  "remap_writes mm sm =
     [In8 0x21 mm, In8 0xA1 sm,
      Out8 0x20 0x11, Out8 0x80 0, Out8 0xA0 0x11, Out8 0x80 0,
      Out8 0x21 0x20, Out8 0x80 0, Out8 0xA1 0x28, Out8 0x80 0,
      Out8 0x21 0x04, Out8 0x80 0, Out8 0xA1 0x02, Out8 0x80 0,
      Out8 0x21 0x01, Out8 0x80 0, Out8 0xA1 0x01, Out8 0x80 0,
      Out8 0x21 mm, Out8 0xA1 sm]"

lemma pic_remap_history:
  "pic_remap dev tr =
     (let mm = dev_in8 dev tr PIC1_DATA;
          sm = dev_in8 dev (tr @ [In8 PIC1_DATA mm]) PIC2_DATA
      in tr @ remap_writes mm sm)"
  by (simp add: pic_remap_def inb_def outb_def io_wait_def remap_writes_def Let_def pic_ports)

lemma master_after_remap:
  "master_chip (remap_writes mm sm) c =
     c\<lparr>phase := 0, vector_base := 0x20, cascade := 4, mode_8086 := True, imr := mm\<rparr>"
  by (simp add: remap_writes_def chip_defs)

lemma slave_after_remap:
  "slave_chip (remap_writes mm sm) c =
     c\<lparr>phase := 0, vector_base := 0x28, cascade := 2, mode_8086 := True, imr := sm\<rparr>"
  by (simp add: remap_writes_def chip_defs)

lemma pic_set_masks_history:
  "pic_set_masks mm sm tr = tr @ [Out8 0x21 mm, Out8 0xA1 sm]"
  by (simp add: pic_set_masks_def outb_def pic_ports)

lemma pic_send_eoi_history:
  "pic_send_eoi irq tr =
     tr @ (if irq \<ge> 8 then [Out8 0xA0 0x20, Out8 0x20 0x20] else [Out8 0x20 0x20])"
  by (simp add: pic_send_eoi_def outb_def pic_ports)

lemma pic_send_eoi_master:
  "pic_send_eoi 0 tr = tr @ [Out8 0x20 0x20]" "pic_send_eoi 1 tr = tr @ [Out8 0x20 0x20]"
  by (simp_all add: pic_send_eoi_history word_le_nat_alt)

section \<open>Properties\<close>

text \<open>
  C31 (pic_setup_vectors): after \<open>pic_remap\<close> and \<open>pic_set_masks\<close>, whatever the controllers'
  state before and whatever masks they report, both have finished their initialisation with
  the master's requests on vectors 32 to 39 and the slave's on 40 to 47, the slave wired to
  line 2, in 8086 mode, with exactly the two masks that were asked for.
\<close>

theorem pic_setup_vectors:
  "\<exists>ev. pic_set_masks mm sm (pic_remap dev tr) = tr @ ev \<and>
     master_chip ev c = c\<lparr>phase := 0, vector_base := 0x20, cascade := 4, mode_8086 := True, imr := mm\<rparr> \<and>
     slave_chip ev c = c\<lparr>phase := 0, vector_base := 0x28, cascade := 2, mode_8086 := True, imr := sm\<rparr>"
proof -
  let ?m = "dev_in8 dev tr PIC1_DATA"
  let ?s = "dev_in8 dev (tr @ [In8 PIC1_DATA ?m]) PIC2_DATA"
  let ?ev = "remap_writes ?m ?s @ [Out8 0x21 mm, Out8 0xA1 sm]"
  have "pic_set_masks mm sm (pic_remap dev tr) = tr @ ?ev"
    by (simp add: pic_remap_history pic_set_masks_history Let_def)
  moreover have "master_chip ?ev c =
      c\<lparr>phase := 0, vector_base := 0x20, cascade := 4, mode_8086 := True, imr := mm\<rparr>"
    by (simp add: remap_writes_def chip_defs)
  moreover have "slave_chip ?ev c =
      c\<lparr>phase := 0, vector_base := 0x28, cascade := 2, mode_8086 := True, imr := sm\<rparr>"
    by (simp add: remap_writes_def chip_defs)
  ultimately show ?thesis by blast
qed

end
