(* ===== verification/Idt.thy ===== *)
theory Idt
  imports Prelude
begin

text \<open>
  The interrupt descriptor table of kernel/src/idt.c. The handlers are the assembly stubs of
  kernel/interrupts.asm; their addresses are parameters.
\<close>

record idt_entry =
  offset_low :: u16
  selector :: u16
  ist :: u8
  type_attributes :: u8
  offset_mid :: u16
  offset_high :: u32
  reserved :: u32

record idt_pointer =
  limit :: u16
  base :: u64

definition sizeof_IdtEntry :: nat where "sizeof_IdtEntry = 16"

definition idt_zero :: "idt_entry list" where
  "idt_zero = replicate 256
     \<lparr>offset_low = 0, selector = 0, ist = 0, type_attributes = 0, offset_mid = 0,
      offset_high = 0, reserved = 0\<rparr>"

definition idt_set_gate :: "u8 \<Rightarrow> u64 \<Rightarrow> idt_entry list \<Rightarrow> idt_entry list" where
  "idt_set_gate vector address idt =
     idt[unat vector :=
       \<lparr>offset_low = ucast (address AND 0xFFFF),
        selector = 0x18,
        ist = 0,
        type_attributes = 0x8E,
        offset_mid = ucast (drop_bit 16 address AND 0xFFFF),
        offset_high = ucast (drop_bit 32 address),
        reserved = 0\<rparr>]"

text \<open>
  \<open>idt_init\<close> takes the three stub addresses and the address of the table, and returns the
  table and the pseudo-descriptor given to \<open>lidt\<close>.
\<close>

definition idt_init ::
  "u64 \<Rightarrow> u64 \<Rightarrow> u64 \<Rightarrow> u64 \<Rightarrow> idt_entry list \<Rightarrow> idt_entry list \<times> idt_pointer" where
  "idt_init default_stub timer_stub keyboard_stub idt_address idt0 =
     (let idt1 = fold (\<lambda>vector idt. idt_set_gate (of_nat vector) default_stub idt) [0..<256] idt0;
          idt2 = idt_set_gate 32 timer_stub idt1;
          idt3 = idt_set_gate 33 keyboard_stub idt2
      in (idt3, \<lparr>limit = of_nat (sizeof_IdtEntry * 256 - 1), base = idt_address\<rparr>))"

section \<open>What the processor reads from the table\<close>

text \<open>
  The handler address a 64-bit gate encodes, the fields that make it a present ring-0
  interrupt gate, and the sixteen bytes of the packed structure.
\<close>

definition gate_target :: "idt_entry \<Rightarrow> u64" where
  "gate_target e =
     push_bit 32 (ucast (offset_high e)) OR push_bit 16 (ucast (offset_mid e))
       OR ucast (offset_low e)"

definition interrupt_gate :: "idt_entry \<Rightarrow> bool" where
  "interrupt_gate e \<longleftrightarrow>
     selector e = 0x18 \<and> ist e = 0 \<and> reserved e = 0 \<and>
     bit (type_attributes e) 7 \<and> drop_bit 5 (type_attributes e) AND 3 = 0 \<and>
     type_attributes e AND 0x0F = 0xE"

definition idt_entry_bytes :: "idt_entry \<Rightarrow> bytes" where
  "idt_entry_bytes e =
     le_bytes 2 (unat (offset_low e)) @ le_bytes 2 (unat (selector e)) @ [ist e] @
     [type_attributes e] @ le_bytes 2 (unat (offset_mid e)) @
     le_bytes 4 (unat (offset_high e)) @ le_bytes 4 (unat (reserved e))"

lemma length_idt_entry_bytes: "length (idt_entry_bytes e) = sizeof_IdtEntry"
  by (simp add: idt_entry_bytes_def sizeof_IdtEntry_def)

text \<open>Splitting an address over the three offset fields loses nothing.\<close>

lemma split_address:
  "push_bit 32 (ucast (ucast (drop_bit 32 (a :: u64)) :: u32)) OR
   push_bit 16 (ucast (ucast (drop_bit 16 a AND 0xFFFF) :: u16)) OR
   ucast (ucast (a AND 0xFFFF) :: u16) = a"
proof (rule bit_word_eqI)
  fix n
  assume "n < LENGTH(64)"
  then have n: "n < 64" by simp
  have ffff: "(0xFFFF :: u64) = mask 16" by (simp add: mask_eq_exp_minus_1)
  show "bit (push_bit 32 (ucast (ucast (drop_bit 32 a) :: u32) :: u64) OR
      push_bit 16 (ucast (ucast (drop_bit 16 a AND 0xFFFF) :: u16)) OR
      ucast (ucast (a AND 0xFFFF) :: u16)) n = bit a n"
    unfolding ffff using n
    by (cases "n < 32") (auto simp: bit_simps not_le not_less)
qed

lemma gate_of_set_gate:
  assumes "length idt = 256"
  shows "gate_target (idt_set_gate v a idt ! unat v) = a"
    and "interrupt_gate (idt_set_gate v a idt ! unat v)"
  using assms unat_u8_bound [of v]
  by (simp_all add: idt_set_gate_def gate_target_def split_address interrupt_gate_def
      bit_numeral_rec)

lemma set_gate_other:
  "i \<noteq> unat v \<Longrightarrow> idt_set_gate v a idt ! i = idt ! i"
  by (simp add: idt_set_gate_def)

lemma length_idt_set_gate [simp]: "length (idt_set_gate v a idt) = length idt"
  by (simp add: idt_set_gate_def)

lemma fill_gates:
  assumes "length idt = 256" and "n \<le> 256"
  shows "length (fold (\<lambda>v idt. idt_set_gate (of_nat v) a idt) [0..<n] idt) = 256 \<and>
    (\<forall>i < n. gate_target (fold (\<lambda>v idt. idt_set_gate (of_nat v) a idt) [0..<n] idt ! i) = a \<and>
      interrupt_gate (fold (\<lambda>v idt. idt_set_gate (of_nat v) a idt) [0..<n] idt ! i))"
  using assms(2)
proof (induction n)
  case 0
  then show ?case using assms(1) by simp
next
  case (Suc n)
  then have n: "unat (of_nat n :: u8) = n" by simp
  let ?t = "fold (\<lambda>v idt. idt_set_gate (of_nat v) a idt) [0..<n] idt"
  from Suc have "length ?t = 256" by simp
  with Suc n gate_of_set_gate [of ?t "of_nat n" a] set_gate_other [of _ "of_nat n" a ?t]
  show ?case by (auto simp: less_Suc_eq)
qed

lemma idt_gates:
  assumes "length idt0 = 256" and "idt_init d t k a idt0 = (idt, p)"
  shows "length idt = 256 \<and> base p = a \<and>
    unat (limit p) + 1 = length (concat (map idt_entry_bytes idt)) \<and>
    (\<forall>v < 256. interrupt_gate (idt ! v) \<and>
       gate_target (idt ! v) = (if v = 32 then t else if v = 33 then k else d))"
proof -
  let ?idt1 = "fold (\<lambda>v idt. idt_set_gate (of_nat v) d idt) [0..<256] idt0"
  let ?idt2 = "idt_set_gate 32 t ?idt1"
  have 1: "length ?idt1 = 256"
    "\<And>i. i < 256 \<Longrightarrow> gate_target (?idt1 ! i) = d \<and> interrupt_gate (?idt1 ! i)"
    using fill_gates [OF assms(1), of 256 d] by auto
  have idt: "idt = idt_set_gate 33 k ?idt2" and p: "p = \<lparr>limit = of_nat (sizeof_IdtEntry * 256 - 1), base = a\<rparr>"
    using assms(2) by (auto simp: idt_init_def Let_def)
  have u: "unat (32 :: u8) = 32" "unat (33 :: u8) = 33" by simp_all
  have len: "length idt = 256" "length ?idt2 = 256" using 1(1) by (simp_all add: idt)
  have g33: "gate_target (idt ! 33) = k" "interrupt_gate (idt ! 33)"
    using gate_of_set_gate [OF len(2), of 33 k] by (simp_all add: idt u)
  have g32: "gate_target (idt ! 32) = t" "interrupt_gate (idt ! 32)"
    using gate_of_set_gate [OF 1(1), of 32 t] set_gate_other [of 32 33 k ?idt2]
    by (simp_all add: idt u)
  have other: "idt ! v = ?idt1 ! v" if "v \<noteq> 32" "v \<noteq> 33" for v
    using that by (simp add: idt set_gate_other u)
  have "interrupt_gate (idt ! v) \<and> gate_target (idt ! v) = (if v = 32 then t else if v = 33 then k else d)"
    if "v < 256" for v
    using 1(2) [OF that] g32 g33 other [of v] by (cases "v = 32 \<or> v = 33") auto
  moreover have "length (concat (map idt_entry_bytes idt)) = 4096"
    using len(1) by (simp add: length_concat comp_def length_idt_entry_bytes sum_list_triv
        sizeof_IdtEntry_def)
  moreover have "unat (limit p) = 4095" by (simp add: p sizeof_IdtEntry_def)
  ultimately show ?thesis using len(1) p by simp
qed

section \<open>Properties\<close>

text \<open>
  C30 (idt_init_gates): \<open>idt_init\<close> leaves 256 well-formed ring-0 interrupt gates: vector 32 leads
  to the timer stub, 33 to the keyboard stub, every other one to the default stub, each
  address put together again from the three fields it was split over. The descriptor given to
  the processor covers exactly the table.
\<close>

theorem idt_init_gates:
  assumes "length idt0 = 256" and "idt_init d t k a idt0 = (idt, p)"
  shows "length idt = 256 \<and> base p = a \<and>
    unat (limit p) + 1 = length (concat (map idt_entry_bytes idt)) \<and>
    (\<forall>v < 256. interrupt_gate (idt ! v) \<and>
       gate_target (idt ! v) = (if v = 32 then t else if v = 33 then k else d))"
  by (rule idt_gates [OF assms])

lemma idt_init_gates_witness:
  "gate_target (fst (idt_init 0x10000 0x123456789ABCDEF0 0x10200 0x20000 idt_zero) ! 32) = 0x123456789ABCDEF0"
proof -
  obtain idt p where r: "idt_init 0x10000 0x123456789ABCDEF0 0x10200 0x20000 idt_zero = (idt, p)"
    by fastforce
  have "length idt_zero = 256" by (simp add: idt_zero_def)
  from idt_init_gates [OF this r] show ?thesis by (simp add: r)
qed

end
