(* ===== verification/Pit.thy ===== *)
theory Pit
  imports Pic
begin

text \<open>The programmable interval timer, kernel/src/pit.c: its programming and the tick count.\<close>

definition PIT_BASE_FREQUENCY :: u32 where "PIT_BASE_FREQUENCY = 1193182"

record pit =
  current_ticks :: u64
  configured_frequency_hz :: u32

definition pit_start :: pit where
  "pit_start = \<lparr>current_ticks = 0, configured_frequency_hz = 100\<rparr>"

definition pit_init :: "u32 \<Rightarrow> pit \<times> history \<Rightarrow> pit \<times> history" where
  "pit_init frequency_hz = (\<lambda>(p, tr).
     let frequency = (if frequency_hz = 0 then 100 else frequency_hz);
         divisor = (ucast (PIT_BASE_FREQUENCY div frequency) :: u16);
         tr1 = outb 0x43 0x36 tr;
         tr2 = outb 0x40 (ucast (divisor AND 0xFF)) tr1;
         tr3 = outb 0x40 (ucast (drop_bit 8 divisor AND 0xFF)) tr2
     in (p\<lparr>configured_frequency_hz := frequency\<rparr>, tr3))"

definition pit_irq_handler :: "pit \<times> history \<Rightarrow> pit \<times> history" where
  "pit_irq_handler = (\<lambda>(p, tr). (p\<lparr>current_ticks := current_ticks p + 1\<rparr>, pic_send_eoi 0 tr))"

definition pit_ticks :: "pit \<Rightarrow> u64" where
  "pit_ticks p = current_ticks p"

definition pit_frequency_hz :: "pit \<Rightarrow> u32" where
  "pit_frequency_hz p = configured_frequency_hz p"

section \<open>The divisor the timer receives\<close>

text \<open>
  The counter reload value is the two bytes written to port 0x40, low byte first; a reload
  value of 0 means 65536 to the chip.
\<close>

definition programmed_divisor :: "u16 \<Rightarrow> bytes" where
  "programmed_divisor d = [ucast (d AND 0xFF), ucast (drop_bit 8 d AND 0xFF)]"

lemma programmed_divisor_value: "le_value (programmed_divisor d) = unat d"
proof -
  have ff: "(0xFF :: u16) = mask 8" by (simp add: mask_eq_exp_minus_1)
  have lo: "unat (ucast (d AND 0xFF) :: u8) = unat d mod 256"
    unfolding ff
    by (simp add: unsigned_ucast_eq take_bit_eq_mod unat_mod flip: take_bit_eq_mask)
  have "unat (drop_bit 8 d) = unat d div 256"
    by (simp add: drop_bit_eq_div unat_div)
  then have hi: "unat (ucast (drop_bit 8 d AND 0xFF) :: u8) = unat d div 256"
    using unat_u16_bound [of d] unfolding ff
    by (simp add: unsigned_ucast_eq take_bit_eq_mod unat_mod flip: take_bit_eq_mask)
  show ?thesis by (simp add: programmed_divisor_def lo hi)
qed

lemma length_programmed_divisor: "length (programmed_divisor d) = 2"
  by (simp add: programmed_divisor_def)

lemma pit_init_result:
  "f \<noteq> 0 \<Longrightarrow> pit_init f (p, tr) =
     (p\<lparr>configured_frequency_hz := f\<rparr>,
      tr @ [Out8 0x43 0x36] @ map (Out8 0x40) (programmed_divisor (ucast (PIT_BASE_FREQUENCY div f))))"
  by (simp add: pit_init_def outb_def programmed_divisor_def Let_def)

lemma unat_divisor:
  "19 \<le> unat f \<Longrightarrow> unat (ucast (PIT_BASE_FREQUENCY div f) :: u16) = 1193182 div unat f"
proof -
  assume "19 \<le> unat f"
  then have "1193182 div unat f \<le> 1193182 div 19" by (rule div_le_mono2 [rotated]) simp
  then have "1193182 div unat f < 65536" by simp
  then show ?thesis
    by (simp add: PIT_BASE_FREQUENCY_def unsigned_ucast_eq take_bit_eq_mod unat_div)
qed

text \<open>Each timer interrupt adds one tick and acknowledges the master controller once.\<close>

lemma pit_irqs:
  "(pit_irq_handler ^^ n) (p, tr) =
     (p\<lparr>current_ticks := current_ticks p + of_nat n\<rparr>, tr @ replicate n (Out8 0x20 0x20))"
proof (induction n)
  case 0
  then show ?case by simp
next
  case (Suc n)
  then show ?case
    by (simp add: pit_irq_handler_def pic_send_eoi_master add.commute
        replicate_append_same [symmetric] del: replicate_append_same)
qed

section \<open>Properties\<close>

text \<open>
  C32 (pit_init_programs): for a frequency of at least 19 Hz \<open>pit_init\<close> selects channel 0, low
  byte then high byte, and the two bytes it sends are the exact divisor
  \<open>1193182 div frequency\<close>; the frequency it remembers is the one asked for, or 100 Hz when
  0 was asked for.
\<close>

theorem pit_init_programs:
  assumes "f = 0 \<or> 19 \<le> unat f"
  defines "g \<equiv> if f = 0 then 100 else f"
  shows "\<exists>bs. pit_init f (p, tr) =
      (p\<lparr>configured_frequency_hz := g\<rparr>, tr @ Out8 0x43 0x36 # map (Out8 0x40) bs) \<and>
    length bs = 2 \<and> le_value bs = 1193182 div unat g"
proof -
  have g: "19 \<le> unat g" "g \<noteq> 0" using assms by (auto simp: g_def)
  have "pit_init f (p, tr) = pit_init g (p, tr)" by (simp add: pit_init_def g_def)
  then show ?thesis
    using pit_init_result [OF g(2)] programmed_divisor_value [of "ucast (PIT_BASE_FREQUENCY div g)"]
      unat_divisor [OF g(1)]
    by (intro exI [of _ "programmed_divisor (ucast (PIT_BASE_FREQUENCY div g))"])
      (simp add: length_programmed_divisor)
qed

lemma pit_init_programs_witness:
  "\<exists>bs. snd (pit_init 100 (pit_start, [])) = Out8 0x43 0x36 # map (Out8 0x40) bs \<and> le_value bs = 11931"
  using pit_init_programs [of 100 pit_start "[]"] by auto

text \<open>
  Below 19 Hz the divisor needs more than 16 bits and is
  cut: the bytes sent are the remainder modulo 65536, while the kernel still reports the
  frequency that was asked for.
\<close>

lemma pit_low_frequency_truncates:
  assumes "0 < unat f" and "unat f < 19"
  shows "\<exists>bs. pit_init f (p, tr) =
      (p\<lparr>configured_frequency_hz := f\<rparr>, tr @ Out8 0x43 0x36 # map (Out8 0x40) bs) \<and>
    le_value bs = (1193182 div unat f) mod 65536 \<and> le_value bs < 1193182 div unat f"
proof -
  have f: "f \<noteq> 0" using assms(1) by auto
  have "unat (PIT_BASE_FREQUENCY div f) = 1193182 div unat f"
    by (simp add: PIT_BASE_FREQUENCY_def unat_div)
  then have d: "unat (ucast (PIT_BASE_FREQUENCY div f) :: u16) = (1193182 div unat f) mod 65536"
    by (simp add: unsigned_ucast_eq take_bit_eq_mod)
  have "1193182 div 18 \<le> 1193182 div unat f" using assms by (intro div_le_mono2) auto
  then have "65536 \<le> 1193182 div unat f" by simp
  then have "(1193182 div unat f) mod 65536 < 1193182 div unat f"
    by (meson le_less_trans less_le_trans mod_less_divisor not_le zero_less_numeral)
  then show ?thesis
    using pit_init_result [OF f] programmed_divisor_value [of "ucast (PIT_BASE_FREQUENCY div f)"] d
    by (intro exI [of _ "programmed_divisor (ucast (PIT_BASE_FREQUENCY div f))"]) simp
qed

lemma pit_low_frequency_truncates_witness:
  "\<exists>bs. snd (pit_init 18 (pit_start, [])) = Out8 0x43 0x36 # map (Out8 0x40) bs \<and> le_value bs = 751"
  using pit_low_frequency_truncates [of 18 pit_start "[]"] by auto

text \<open>
  After \<open>n\<close> timer interrupts \<open>pit_ticks\<close> has advanced by \<open>n\<close> (modulo
  \<open>2 ^ 64\<close>) and the master controller, and only it, has received exactly \<open>n\<close> end-of-interrupt
  commands, so no further interrupt is held back.
\<close>

lemma pit_ticks_count:
  assumes "(pit_irq_handler ^^ n) (p, tr) = (p', tr')"
  shows "pit_ticks p' = pit_ticks p + of_nat n \<and> pit_frequency_hz p' = pit_frequency_hz p \<and>
    (\<exists>ev. tr' = tr @ ev \<and> (\<forall>c. eoi_count (master_chip ev c) = eoi_count c + n \<and> slave_chip ev c = c))"
proof -
  have "p' = p\<lparr>current_ticks := current_ticks p + of_nat n\<rparr>"
    and tr': "tr' = tr @ replicate n (Out8 0x20 0x20)" using assms by (simp_all add: pit_irqs)
  moreover have "eoi_count (master_chip (replicate n (Out8 0x20 0x20)) c) = eoi_count c + n \<and>
      slave_chip (replicate n (Out8 0x20 0x20)) c = c" for c
    by (induction n arbitrary: c) (simp_all add: chip_defs bit_numeral_rec)
  ultimately show ?thesis by (auto simp: pit_ticks_def pit_frequency_hz_def)
qed

lemma pit_ticks_count_witness: "pit_ticks (fst ((pit_irq_handler ^^ 3) (pit_start, []))) = 3"
proof -
  obtain p tr where r: "(pit_irq_handler ^^ 3) (pit_start, []) = (p, tr)" by fastforce
  from pit_ticks_count [OF r] have "pit_ticks p = 3" by (simp add: pit_ticks_def pit_start_def)
  with r show ?thesis by simp
qed

end
