(* ===== verification/Bounded_Queue.thy ===== *)
theory Bounded_Queue
  imports Prelude
begin

text \<open>
  The contract between the keyboard driver and its reader: a bounded queue that drops what
  does not fit and answers a reserved value when it is empty. The locale states the laws of
  one operation each; its lemmas are about whole runs of operations and are used by every
  client of the queue. Keyboard interprets it on the ring buffer.
\<close>

datatype 'a queue_op = Push 'a | Pop

fun run_queue ::
  "('a \<Rightarrow> 'q \<Rightarrow> 'q) \<Rightarrow> ('q \<Rightarrow> 'a \<times> 'q) \<Rightarrow> 'a queue_op list \<Rightarrow> 'q \<Rightarrow> 'a list \<times> 'q"
where
  "run_queue push pop [] q = ([], q)"
| "run_queue push pop (Push x # ops) q = run_queue push pop ops (push x q)"
| "run_queue push pop (Pop # ops) q =
     (let (x, q1) = pop q; (xs, q2) = run_queue push pop ops q1 in (x # xs, q2))"

text \<open>The reference queue: a list, with the same bound and the same empty answer.\<close>

definition list_push :: "nat \<Rightarrow> 'a \<Rightarrow> 'a list \<Rightarrow> 'a list" where
  "list_push cap x xs = (if length xs < cap then xs @ [x] else xs)"

fun list_pop :: "'a \<Rightarrow> 'a list \<Rightarrow> 'a \<times> 'a list" where
  "list_pop nothing [] = (nothing, [])"
| "list_pop nothing (x # xs) = (x, xs)"

fun pushed :: "'a queue_op list \<Rightarrow> 'a list" where
  "pushed [] = []"
| "pushed (Push x # ops) = x # pushed ops"
| "pushed (Pop # ops) = pushed ops"

locale bounded_queue =
  fixes push :: "'a \<Rightarrow> 'q \<Rightarrow> 'q"
    and pop :: "'q \<Rightarrow> 'a \<times> 'q"
    and contents :: "'q \<Rightarrow> 'a list"
    and invar :: "'q \<Rightarrow> bool"
    and capacity :: nat
    and nothing :: 'a
  assumes push_contents: "invar q \<Longrightarrow> contents (push x q) = list_push capacity x (contents q)"
    and push_invar: "invar q \<Longrightarrow> x \<noteq> nothing \<Longrightarrow> invar (push x q)"
    and pop_contents:
      "invar q \<Longrightarrow> (fst (pop q), contents (snd (pop q))) = list_pop nothing (contents q)"
    and pop_invar: "invar q \<Longrightarrow> invar (snd (pop q))"
    and contents_valid: "invar q \<Longrightarrow> nothing \<notin> set (contents q)"
    and contents_bound: "invar q \<Longrightarrow> length (contents q) \<le> capacity"
begin

lemma pop_nothing_iff: "invar q \<Longrightarrow> fst (pop q) = nothing \<longleftrightarrow> contents q = []"
  using pop_contents [of q] contents_valid [of q] by (cases "contents q") auto

lemma run_invar:
  "invar q \<Longrightarrow> nothing \<notin> set (pushed ops) \<Longrightarrow> invar (snd (run_queue push pop ops q))"
proof (induction ops arbitrary: q)
  case Nil
  then show ?case by simp
next
  case (Cons op ops)
  then show ?case
    by (cases op) (auto simp: push_invar pop_invar split_beta)
qed

text \<open>Every run of operations is a run of the reference queue: same answers, same contents.\<close>

lemma run_refines:
  "invar q \<Longrightarrow> nothing \<notin> set (pushed ops) \<Longrightarrow>
     (fst (run_queue push pop ops q), contents (snd (run_queue push pop ops q))) =
       run_queue (list_push capacity) (list_pop nothing) ops (contents q)"
proof (induction ops arbitrary: q)
  case Nil
  then show ?case by simp
next
  case (Cons op ops)
  show ?case
  proof (cases op)
    case (Push x)
    with Cons.prems have "invar (push x q)" and "nothing \<notin> set (pushed ops)"
      by (auto simp: push_invar)
    from Cons.IH [OF this] Cons.prems Push show ?thesis by (simp add: push_contents)
  next
    case Pop
    with Cons.prems have "invar (snd (pop q))" and "nothing \<notin> set (pushed ops)"
      by (auto simp: pop_invar)
    from Cons.IH [OF this] pop_contents [OF Cons.prems(1)] Pop show ?thesis
      by (auto split: prod.splits)
  qed
qed

end

text \<open>
  Facts about the reference queue itself: with room for all that is pushed, what comes out,
  followed by what stays in, is what went in.
\<close>

lemma reference_fifo:
  "length xs + length (pushed ops) \<le> cap \<Longrightarrow> nothing \<notin> set xs \<union> set (pushed ops) \<Longrightarrow>
     run_queue (list_push cap) (list_pop nothing) ops xs = (ys, zs) \<Longrightarrow>
     filter (\<lambda>y. y \<noteq> nothing) ys @ zs = xs @ pushed ops"
proof (induction ops arbitrary: xs ys)
  case Nil
  then show ?case by simp
next
  case (Cons op ops)
  show ?case
  proof (cases op)
    case (Push x)
    with Cons.prems Cons.IH [of "xs @ [x]" ys] show ?thesis by (simp add: list_push_def)
  next
    case Pop
    obtain y xs' where pop: "list_pop nothing xs = (y, xs')" by fastforce
    with Cons.prems Pop obtain ys' where
      run: "run_queue (list_push cap) (list_pop nothing) ops xs' = (ys', zs)" and ys: "ys = y # ys'"
      by (auto split: prod.splits)
    with Cons.prems Pop Cons.IH [of xs' ys'] pop show ?thesis
      by (cases xs) auto
  qed
qed

end
