(* ===== verification/Keyboard.thy ===== *)
theory Keyboard
  imports Pic Bounded_Queue
begin

text \<open>
  The PS/2 keyboard driver, kernel/src/keyboard.c: scan-code translation and the ring buffer
  between the interrupt handler (the only producer) and the shell (the only consumer). The
  two run interleaved; the step relation at the end of the theory breaks \<open>keyboard_pop\<close> into
  its loads and stores and lets an interrupt come between any two of them.
\<close>

section \<open>State and operations\<close>

record keyboard =
  keyboard_buffer :: "bytes"
  buffer_head :: u8
  buffer_tail :: u8
  shift_pressed :: bool

definition KEYBOARD_BUFFER_SIZE :: nat where "KEYBOARD_BUFFER_SIZE = 256"

definition keyboard_zero :: keyboard where
  "keyboard_zero = \<lparr>keyboard_buffer = replicate KEYBOARD_BUFFER_SIZE 0, buffer_head = 0,
     buffer_tail = 0, shift_pressed = False\<rparr>"

text \<open>
  The two translation tables, as the designated initialisers list them; an index the
  initialiser leaves out holds 0. Codes 8 to 10 are backspace, tab and newline.
\<close>

definition keymap_init :: "(nat \<times> bytes) list" where
  "keymap_init =
     [(0x02, chars ''1234567890-='' @ [8, 9]),
      (0x10, chars ''qwertyuiop[]'' @ [10]),
      (0x1E, chars ''asdfghjkl;'' @ [0x27] @ chars ''`''),
      (0x2B, [0x5C]),
      (0x2C, chars ''zxcvbnm,./''),
      (0x39, chars '' '')]"

definition shifted_keymap_init :: "(nat \<times> bytes) list" where
  "shifted_keymap_init =
     [(0x02, chars ''!@#$%^&*()_+''),
      (0x10, chars ''QWERTYUIOP{}'' @ [10]),
      (0x1E, chars ''ASDFGHJKL:'' @ [0x22] @ chars ''~''),
      (0x2B, chars ''|''),
      (0x2C, chars ''ZXCVBNM<>?''),
      (0x39, chars '' '')]"

definition table_of :: "(nat \<times> bytes) list \<Rightarrow> bytes" where
  "table_of runs =
     fold (\<lambda>(i, cs) t. take i t @ cs @ drop (i + length cs) t) runs (replicate 128 0)"

definition keymap :: bytes where "keymap = table_of keymap_init"

definition shifted_keymap :: bytes where "shifted_keymap = table_of shifted_keymap_init"

definition buffer_push :: "u8 \<Rightarrow> keyboard \<Rightarrow> keyboard" where
  "buffer_push character k =
     (let next_head = buffer_head k + 1 in
      if next_head = buffer_tail k then k
      else k\<lparr>keyboard_buffer := (keyboard_buffer k)[unat (buffer_head k) := character],
             buffer_head := next_head\<rparr>)"

definition keyboard_init :: "keyboard \<Rightarrow> keyboard" where
  "keyboard_init k = k\<lparr>buffer_head := 0, buffer_tail := 0, shift_pressed := False\<rparr>"

text \<open>\<open>on_scan_code\<close> is the handler from the point where the scan code has been read.\<close>

definition on_scan_code :: "u8 \<Rightarrow> keyboard \<times> history \<Rightarrow> keyboard \<times> history" where
  "on_scan_code scan_code = (\<lambda>(k, tr).
     if scan_code = 0x2A \<or> scan_code = 0x36 then
       (k\<lparr>shift_pressed := True\<rparr>, pic_send_eoi 1 tr)
     else if scan_code = 0xAA \<or> scan_code = 0xB6 then
       (k\<lparr>shift_pressed := False\<rparr>, pic_send_eoi 1 tr)
     else if scan_code AND 0x80 \<noteq> 0 then (k, pic_send_eoi 1 tr)
     else
       (let character = (if shift_pressed k then shifted_keymap ! unat scan_code
                         else keymap ! unat scan_code);
            k' = (if character \<noteq> 0 then buffer_push character k else k)
        in (k', pic_send_eoi 1 tr)))"

definition keyboard_irq_handler :: "device \<Rightarrow> keyboard \<times> history \<Rightarrow> keyboard \<times> history" where
  "keyboard_irq_handler dev = (\<lambda>(k, tr).
     let (scan_code, tr') = inb dev 0x60 tr in on_scan_code scan_code (k, tr'))"

definition keyboard_pop :: "keyboard \<Rightarrow> u8 \<times> keyboard" where
  "keyboard_pop k =
     (if buffer_head k = buffer_tail k then (0, k)
      else (keyboard_buffer k ! unat (buffer_tail k), k\<lparr>buffer_tail := buffer_tail k + 1\<rparr>))"

section \<open>The ring as a queue\<close>

text \<open>
  \<open>pending k\<close> is the queue the ring stands for: the characters from the tail up to the
  head, modulo 256. The ring is sane when it has its 256 cells and no pending character is
  NUL, which \<open>keyboard_pop\<close> returns for an empty ring.
\<close>

definition pending_count :: "keyboard \<Rightarrow> nat" where
  "pending_count k = unat (buffer_head k - buffer_tail k)"

definition pending :: "keyboard \<Rightarrow> bytes" where
  "pending k = map (\<lambda>i. keyboard_buffer k ! unat (buffer_tail k + of_nat i)) [0..<pending_count k]"

definition ring_ok :: "keyboard \<Rightarrow> bool" where
  "ring_ok k \<longleftrightarrow> length (keyboard_buffer k) = KEYBOARD_BUFFER_SIZE \<and> 0 \<notin> set (pending k)"

lemma length_pending: "length (pending k) = pending_count k"
  by (simp add: pending_def)

lemma pending_count_bound: "pending_count k < 256"
  unfolding pending_count_def by (rule unat_u8_bound)

lemma head_from_tail: "buffer_head k = buffer_tail k + of_nat (pending_count k)"
  by (simp add: pending_count_def)

lemma ring_full_iff: "buffer_head k + 1 = buffer_tail k \<longleftrightarrow> pending_count k = 255"
proof
  assume "buffer_head k + 1 = buffer_tail k"
  then have "buffer_head k - buffer_tail k = - 1" by (simp add: algebra_simps)
  also have "(- 1 :: u8) = 255" by simp
  finally have "buffer_head k - buffer_tail k = 255" .
  then show "pending_count k = 255" by (simp add: pending_count_def)
next
  assume "pending_count k = 255"
  then have "buffer_head k = buffer_tail k + 255" using head_from_tail [of k] by simp
  then show "buffer_head k + 1 = buffer_tail k" by simp
qed

lemma of_nat_u8_inject:
  "i < 256 \<Longrightarrow> j < 256 \<Longrightarrow> (of_nat i :: u8) = of_nat j \<longleftrightarrow> i = j"
  by (metis mod_less unat_of_nat_u8)

lemma pending_push:
  assumes "ring_ok k"
  shows "pending (buffer_push c k) =
    (if pending_count k < 255 then pending k @ [c] else pending k)"
proof (cases "pending_count k = 255")
  case True
  then show ?thesis using ring_full_iff [of k] by (simp add: buffer_push_def Let_def)
next
  case False
  let ?n = "pending_count k"
  let ?k = "buffer_push c k"
  have n: "?n < 255" using False pending_count_bound [of k] by simp
  have k': "?k = k\<lparr>keyboard_buffer := (keyboard_buffer k)[unat (buffer_head k) := c],
      buffer_head := buffer_head k + 1\<rparr>"
    using False ring_full_iff [of k] by (simp add: buffer_push_def Let_def)
  have "buffer_head k + 1 - buffer_tail k = of_nat (Suc ?n)"
    using head_from_tail [of k] by simp
  then have "pending_count ?k = unat (of_nat (Suc ?n) :: u8)"
    by (simp add: k' pending_count_def del: of_nat_Suc)
  then have count: "pending_count ?k = Suc ?n"
    using n by (simp del: of_nat_Suc)
  have len: "unat (buffer_head k) < length (keyboard_buffer k)"
    using assms unat_u8_bound [of "buffer_head k"]
    by (simp add: ring_ok_def KEYBOARD_BUFFER_SIZE_def)
  have cell: "keyboard_buffer ?k ! unat (buffer_tail k + of_nat i) =
      (if i = ?n then c else keyboard_buffer k ! unat (buffer_tail k + of_nat i))"
    if "i \<le> ?n" for i
    using that n len of_nat_u8_inject [of i ?n] head_from_tail [of k]
    by (auto simp: k' nth_list_update)
  have tail: "buffer_tail ?k = buffer_tail k" by (simp add: k')
  show ?thesis using n by (auto simp: pending_def count tail cell)
qed

lemma pending_pop:
  "keyboard_pop k = (c, k') \<Longrightarrow>
     (if pending k = [] then c = 0 \<and> k' = k else c = hd (pending k) \<and> pending k' = tl (pending k))"
proof (cases "buffer_head k = buffer_tail k")
  case True
  then show "keyboard_pop k = (c, k') \<Longrightarrow> ?thesis"
    by (auto simp: keyboard_pop_def pending_def pending_count_def)
next
  case False
  assume "keyboard_pop k = (c, k')"
  with False have c: "c = keyboard_buffer k ! unat (buffer_tail k)"
    and k': "k' = k\<lparr>buffer_tail := buffer_tail k + 1\<rparr>"
    by (auto simp: keyboard_pop_def)
  obtain n where n: "pending_count k = Suc n"
    using False by (cases "pending_count k") (auto simp: pending_count_def unat_eq_0)
  have "buffer_head k - (buffer_tail k + 1) = of_nat n"
    using head_from_tail [of k] n by simp
  then have "pending_count k' = n"
    using pending_count_bound [of k] n by (simp add: pending_count_def k')
  then have "pending k' = map (\<lambda>i. keyboard_buffer k ! unat (buffer_tail k + of_nat (Suc i))) [0..<n]"
    by (simp add: pending_def k' add.assoc)
  moreover have "pending k = keyboard_buffer k ! unat (buffer_tail k) #
      map (\<lambda>i. keyboard_buffer k ! unat (buffer_tail k + of_nat (Suc i))) [0..<n]"
    unfolding pending_def n by (simp add: upt_conv_Cons map_Suc_upt [symmetric] comp_def
        del: upt_Suc map_Suc_upt)
  ultimately show ?thesis using c by simp
qed

lemma pending_init [simp]: "pending (keyboard_init k) = []"
  by (simp add: pending_def pending_count_def keyboard_init_def)

lemma ring_ok_push: "ring_ok k \<Longrightarrow> c \<noteq> 0 \<Longrightarrow> ring_ok (buffer_push c k)"
  using pending_push [of k c]
  by (auto simp: ring_ok_def buffer_push_def Let_def split: if_splits)

lemma ring_ok_pop: "ring_ok k \<Longrightarrow> keyboard_pop k = (c, k') \<Longrightarrow> ring_ok k'"
  using pending_pop [of k c k']
  by (auto simp: ring_ok_def keyboard_pop_def split: if_splits dest: list.set_sel(2))

lemma ring_ok_init: "ring_ok (keyboard_init keyboard_zero)"
  by (simp add: ring_ok_def keyboard_zero_def keyboard_init_def pending_def pending_count_def)

interpretation kbd_queue: bounded_queue buffer_push keyboard_pop pending ring_ok 255 0
proof unfold_locales
  fix k :: keyboard and c :: u8
  assume ok: "ring_ok k"
  show "pending (buffer_push c k) = list_push 255 c (pending k)"
    using pending_push [OF ok] by (simp add: list_push_def length_pending)
  show "c \<noteq> 0 \<Longrightarrow> ring_ok (buffer_push c k)" by (rule ring_ok_push [OF ok])
  show "(fst (keyboard_pop k), pending (snd (keyboard_pop k))) = list_pop 0 (pending k)"
    using pending_pop [of k] by (cases "keyboard_pop k"; cases "pending k") auto
  show "ring_ok (snd (keyboard_pop k))"
    using ring_ok_pop [OF ok] by (metis prod.collapse)
  show "0 \<notin> set (pending k)" using ok by (simp add: ring_ok_def)
  show "length (pending k) \<le> 255"
    using pending_count_bound [of k] by (simp add: length_pending)
qed

section \<open>Translation of scan codes\<close>

text \<open>
  \<open>translate shift code\<close> is the specification of the handler's decision: the new state of
  the shift key and the character to queue, if any.
\<close>

definition translate :: "bool \<Rightarrow> u8 \<Rightarrow> bool \<times> bytes" where
  "translate shift code =
     (if code \<in> {0x2A, 0x36} then (True, [])
      else if code \<in> {0xAA, 0xB6} then (False, [])
      else if 128 \<le> unat code then (shift, [])
      else (shift, filter (\<lambda>c. c \<noteq> 0) [(if shift then shifted_keymap else keymap) ! unat code]))"

lemma odd_div_128: "(n :: nat) < 256 \<Longrightarrow> odd (n div 128) \<longleftrightarrow> 128 \<le> n"
  by (cases "n < 128") (auto simp: le_div_geq)

lemma code_high_bit: "(code :: u8) AND 0x80 \<noteq> 0 \<longleftrightarrow> 128 \<le> unat code"
proof -
  have "code AND 0x80 \<noteq> 0 \<longleftrightarrow> bit code 7"
    using bit_iff_and_push_bit_not_eq_0 [of code 7] by simp
  also have "\<dots> \<longleftrightarrow> bit (unat code) 7"
    by (simp add: bit_unsigned_iff)
  also have "\<dots> \<longleftrightarrow> odd (unat code div 2 ^ 7)"
    by (simp only: bit_iff_odd)
  also have "\<dots> \<longleftrightarrow> 128 \<le> unat code"
    using odd_div_128 [OF unat_u8_bound [of code]] by simp
  finally show ?thesis .
qed

lemma buffer_push_shift [simp]: "shift_pressed (buffer_push c k) = shift_pressed k"
  by (simp add: buffer_push_def Let_def)

lemma shift_update_same:
  "shift_pressed k = b \<Longrightarrow> k\<lparr>shift_pressed := b\<rparr> = (k :: keyboard)"
  by auto

lemma on_scan_code_translate:
  "on_scan_code code (k, tr) =
     (let (shift', cs) = translate (shift_pressed k) code
      in (fold buffer_push cs k\<lparr>shift_pressed := shift'\<rparr>, tr @ [Out8 0x20 0x20]))"
  by (auto simp: on_scan_code_def translate_def code_high_bit pic_send_eoi_master Let_def
      shift_update_same)

lemma pending_shift_update [simp]: "pending (k\<lparr>shift_pressed := b\<rparr>) = pending k"
  by (simp add: pending_def pending_count_def)

lemma ring_ok_shift_update [simp]: "ring_ok (k\<lparr>shift_pressed := b\<rparr>) = ring_ok k"
  by (simp add: ring_ok_def)

lemma pending_count_shift_update [simp]: "pending_count (k\<lparr>shift_pressed := b\<rparr>) = pending_count k"
  by (simp add: pending_count_def)

section \<open>Properties\<close>

text \<open>
  C28 (keyboard_ring_fifo): from any sane ring, every sequence of pushes (of non-NUL
  characters) and pops behaves as a queue of capacity 255: same answers, same contents, a push
  into a full queue dropped and a pop of an empty one answered with NUL.
\<close>

theorem keyboard_ring_fifo:
  assumes "ring_ok k" and "0 \<notin> set (pushed ops)"
  shows "(fst (run_queue buffer_push keyboard_pop ops k),
      pending (snd (run_queue buffer_push keyboard_pop ops k))) =
    run_queue (list_push 255) (list_pop 0) ops (pending k)"
  by (rule kbd_queue.run_refines [OF assms])

lemma keyboard_ring_fifo_witness:
  "fst (run_queue buffer_push keyboard_pop [Push 97, Push 98, Pop, Pop, Pop]
     (keyboard_init keyboard_zero)) = [97, 98, 0]"
  using keyboard_ring_fifo [OF ring_ok_init, of "[Push 97, Push 98, Pop, Pop, Pop]"]
  by (simp add: list_push_def)

text \<open>
  C29 (keyboard_irq_translates): on every branch the interrupt handler reads one scan code,
  ends with exactly one end-of-interrupt to the master controller, follows the shift keys, and
  queues the character of the code in the current table, if the code is a key press, has a
  character there, and the ring is not full.
\<close>

theorem keyboard_irq_translates:
  assumes "ring_ok k" and "keyboard_irq_handler dev (k, tr) = (k', tr')"
    and "translate (shift_pressed k) (dev_in8 dev tr 0x60) = (shift', cs)"
  shows "tr' = tr @ [In8 0x60 (dev_in8 dev tr 0x60), Out8 0x20 0x20] \<and>
    shift_pressed k' = shift' \<and> ring_ok k' \<and>
    pending k' = fold (list_push 255) cs (pending k) \<and> length cs \<le> 1"
proof -
  let ?code = "dev_in8 dev tr 0x60"
  have cs: "0 \<notin> set cs" "length cs \<le> 1"
    using assms(3) by (auto simp: translate_def split: if_splits)
  have eq: "k' = fold buffer_push cs k\<lparr>shift_pressed := shift'\<rparr>"
    "tr' = tr @ [In8 0x60 ?code, Out8 0x20 0x20]"
    using assms(2,3)
    by (auto simp: keyboard_irq_handler_def inb_def Let_def on_scan_code_translate)
  from cs(2) consider "cs = []" | c where "cs = [c]" by (cases cs) auto
  then have "ring_ok k' \<and> pending k' = fold (list_push 255) cs (pending k)"
    using assms(1) cs(1) kbd_queue.push_contents [OF assms(1)]
    by cases (auto simp: eq ring_ok_push)
  with cs(2) eq show ?thesis by simp
qed

lemma keyboard_irq_translates_witness:
  "pending (fst (keyboard_irq_handler \<lparr>dev_in8 = \<lambda>_ _. 0x23, dev_in16 = \<lambda>_ _. 0\<rparr>
     (keyboard_init keyboard_zero, []))) = chars ''h''"
proof -
  let ?dev = "\<lparr>dev_in8 = \<lambda>_ _. 0x23, dev_in16 = \<lambda>_ _. 0\<rparr>"
  obtain k' tr' where r: "keyboard_irq_handler ?dev (keyboard_init keyboard_zero, []) = (k', tr')"
    by fastforce
  have "translate False 0x23 = (False, chars ''h'')" by code_simp
  then have "translate (shift_pressed (keyboard_init keyboard_zero)) (dev_in8 ?dev [] 0x60) =
      (False, chars ''h'')" by (simp add: keyboard_init_def)
  from keyboard_irq_translates [OF ring_ok_init r this] show ?thesis
    by (simp add: r list_push_def chars_def)
qed

end
