(* ===== verification/Keyboard_Interleaving.thy ===== *)
theory Keyboard_Interleaving
  imports Keyboard
begin

text \<open>
  \<open>keyboard_pop\<close> runs with interrupts enabled, so the keyboard interrupt can come between any
  two of its accesses to the volatile indices (kernel/src/keyboard.c): the
  load of the head, the comparison with the tail, the load of the character and the store of
  the tail. The handler itself runs with interrupts off and is one step. The ghost fields
  record what the handler queued and what the reader has returned.
\<close>

datatype pop_pc = Idle | Got_head u8 | Nonempty | Loaded u8

record kb_sys =
  ring :: keyboard
  reader :: pop_pc
  queued :: bytes
  taken :: bytes

definition kb_start :: kb_sys where
  "kb_start = \<lparr>ring = keyboard_init keyboard_zero, reader = Idle, queued = [], taken = []\<rparr>"

text \<open>The character that one run of the handler really adds: none when the ring is full.\<close>

definition accepted :: "u8 \<Rightarrow> keyboard \<Rightarrow> bytes" where
  "accepted code k =
     (if pending_count k < 255 then snd (translate (shift_pressed k) code) else [])"

inductive kb_step :: "kb_sys \<Rightarrow> kb_sys \<Rightarrow> bool" where
  irq: "kb_step s (s\<lparr>ring := fst (on_scan_code code (ring s, tr)),
                     queued := queued s @ accepted code (ring s)\<rparr>)"
| load_head: "reader s = Idle \<Longrightarrow> kb_step s (s\<lparr>reader := Got_head (buffer_head (ring s))\<rparr>)"
| empty: "reader s = Got_head h \<Longrightarrow> h = buffer_tail (ring s) \<Longrightarrow> kb_step s (s\<lparr>reader := Idle\<rparr>)"
| nonempty: "reader s = Got_head h \<Longrightarrow> h \<noteq> buffer_tail (ring s) \<Longrightarrow>
    kb_step s (s\<lparr>reader := Nonempty\<rparr>)"
| load_char: "reader s = Nonempty \<Longrightarrow>
    kb_step s (s\<lparr>reader :=
      Loaded (keyboard_buffer (ring s) ! unat (buffer_tail (ring s)))\<rparr>)"
| store_tail: "reader s = Loaded c \<Longrightarrow>
    kb_step s (s\<lparr>ring := (ring s)\<lparr>buffer_tail := buffer_tail (ring s) + 1\<rparr>,
                 reader := Idle, taken := taken s @ [c]\<rparr>)"

inductive kb_reachable :: "kb_sys \<Rightarrow> bool" where
  start: "kb_reachable kb_start"
| step: "kb_reachable s \<Longrightarrow> kb_step s t \<Longrightarrow> kb_reachable t"

inductive_cases kb_stepE: "kb_step s t"

text \<open>
  What the reader knows at each point of the pop: the head it loaded is not behind the tail;
  once it has seen the ring nonempty it stays so, because the handler never makes the head
  meet the tail; and the character it loaded is still the first one pending.
\<close>

fun reader_ok :: "pop_pc \<Rightarrow> keyboard \<Rightarrow> bool" where
  "reader_ok Idle k = True"
| "reader_ok (Got_head h) k \<longleftrightarrow> h = buffer_tail k \<or> pending k \<noteq> []"
| "reader_ok Nonempty k \<longleftrightarrow> pending k \<noteq> []"
| "reader_ok (Loaded c) k \<longleftrightarrow> pending k \<noteq> [] \<and> c = hd (pending k)"

definition kb_inv :: "kb_sys \<Rightarrow> bool" where
  "kb_inv s \<longleftrightarrow> ring_ok (ring s) \<and> reader_ok (reader s) (ring s) \<and>
     taken s @ pending (ring s) = queued s"

lemma translate_chars: "0 \<notin> set (snd (translate b code))"
  "length (snd (translate b code)) \<le> 1"
  by (auto simp: translate_def)

lemma handler_pending:
  assumes "ring_ok k"
  shows "pending (fst (on_scan_code code (k, tr))) = pending k @ accepted code k"
    and "ring_ok (fst (on_scan_code code (k, tr)))"
    and "buffer_tail (fst (on_scan_code code (k, tr))) = buffer_tail k"
proof -
  obtain b cs where t: "translate (shift_pressed k) code = (b, cs)" by fastforce
  have cs: "0 \<notin> set cs" "length cs \<le> 1"
    using translate_chars [of "shift_pressed k" code] t by auto
  have tail: "buffer_tail (buffer_push c k) = buffer_tail k" for c
    by (simp add: buffer_push_def Let_def)
  from cs(2) consider "cs = []" | c where "cs = [c]"
    by (cases cs) auto
  then show "pending (fst (on_scan_code code (k, tr))) = pending k @ accepted code k"
    and "ring_ok (fst (on_scan_code code (k, tr)))"
    and "buffer_tail (fst (on_scan_code code (k, tr))) = buffer_tail k"
    using assms cs(1)
    by (cases; simp add: on_scan_code_translate t accepted_def pending_push ring_ok_push tail)+
qed

lemma pending_hd_cell:
  "pending k \<noteq> [] \<Longrightarrow> keyboard_buffer k ! unat (buffer_tail k) = hd (pending k)"
  by (auto simp: pending_def hd_map)

lemma head_ne_tail: "buffer_head k \<noteq> buffer_tail k \<longleftrightarrow> pending k \<noteq> []"
  by (auto simp: pending_def pending_count_def unat_eq_0)

lemma advance_tail:
  assumes "pending k \<noteq> []"
  shows "pending (k\<lparr>buffer_tail := buffer_tail k + 1\<rparr>) = tl (pending k)"
  using pending_pop [of k] assms head_ne_tail [of k] by (simp add: keyboard_pop_def)

lemma kb_step_inv: "kb_step s t \<Longrightarrow> kb_inv s \<Longrightarrow> kb_inv t"
proof (induction rule: kb_step.induct)
  case (irq s code tr)
  then have "reader_ok (reader s) (fst (on_scan_code code (ring s, tr)))"
    by (cases "reader s") (auto simp: kb_inv_def handler_pending)
  with irq show ?case
    by (auto simp: kb_inv_def handler_pending simp flip: append_assoc)
next
  case (load_head s)
  then show ?case using head_ne_tail [of "ring s"] by (auto simp: kb_inv_def)
next
  case (empty s h)
  then show ?case by (simp add: kb_inv_def)
next
  case (nonempty s h)
  then show ?case by (simp add: kb_inv_def)
next
  case (load_char s)
  then show ?case by (simp add: kb_inv_def pending_hd_cell)
next
  case (store_tail s c)
  then have p: "pending (ring s) \<noteq> []" "c = hd (pending (ring s))" by (auto simp: kb_inv_def)
  then have "ring_ok ((ring s)\<lparr>buffer_tail := buffer_tail (ring s) + 1\<rparr>)"
    using store_tail by (auto simp: kb_inv_def ring_ok_def advance_tail dest: list.set_sel(2))
  with store_tail p show ?case by (simp add: kb_inv_def advance_tail)
qed

lemma kb_inv_start: "kb_inv kb_start"
  by (simp add: kb_inv_def kb_start_def ring_ok_init)

lemma kb_reachable_inv: "kb_reachable s \<Longrightarrow> kb_inv s"
  by (induction rule: kb_reachable.induct) (auto intro: kb_inv_start kb_step_inv)

text \<open>Without an interrupt in between, the steps of the reader are \<open>keyboard_pop\<close>.\<close>

inductive kb_quiet :: "kb_sys \<Rightarrow> kb_sys \<Rightarrow> bool" where
  refl: "kb_quiet s s"
| trans: "kb_quiet s t \<Longrightarrow> kb_step t u \<Longrightarrow> queued u = queued t \<Longrightarrow> kb_quiet s u"

lemma quiet_pop:
  assumes "reader s = Idle" and "keyboard_pop (ring s) = (c, k')" and "ring_ok (ring s)"
  shows "kb_quiet s (s\<lparr>ring := k', taken := taken s @ filter (\<lambda>c. c \<noteq> 0) [c]\<rparr>)"
proof -
  let ?k = "ring s"
  let ?s1 = "s\<lparr>reader := Got_head (buffer_head ?k)\<rparr>"
  have s1: "kb_quiet s ?s1"
    using kb_quiet.trans [OF kb_quiet.refl kb_step.load_head] assms(1) by simp
  show ?thesis
  proof (cases "buffer_head ?k = buffer_tail ?k")
    case True
    with assms have "c = 0" "k' = ?k" by (auto simp: keyboard_pop_def)
    moreover have "kb_step ?s1 (?s1\<lparr>reader := Idle\<rparr>)"
      by (rule kb_step.empty) (use True in simp_all)
    then have "kb_quiet s (?s1\<lparr>reader := Idle\<rparr>)" by (rule kb_quiet.trans [OF s1]) simp
    moreover have "?s1\<lparr>reader := Idle\<rparr> = s" using assms(1) by (cases s) simp
    ultimately show ?thesis by simp
  next
    case False
    let ?c = "keyboard_buffer ?k ! unat (buffer_tail ?k)"
    let ?s2 = "?s1\<lparr>reader := Nonempty\<rparr>"
    let ?s3 = "?s2\<lparr>reader := Loaded ?c\<rparr>"
    let ?s4 = "?s3\<lparr>ring := ?k\<lparr>buffer_tail := buffer_tail ?k + 1\<rparr>, reader := Idle,
      taken := taken s @ [?c]\<rparr>"
    from False assms have c: "c = ?c" and k': "k' = ?k\<lparr>buffer_tail := buffer_tail ?k + 1\<rparr>"
      by (auto simp: keyboard_pop_def)
    have "?c \<noteq> 0"
      using False assms(3) pending_hd_cell [of ?k] head_ne_tail [of ?k]
        hd_in_set [of "pending ?k"]
      by (auto simp: ring_ok_def simp del: hd_in_set)
    have "kb_step ?s1 ?s2" by (rule kb_step.nonempty) (use False in simp_all)
    then have s2: "kb_quiet s ?s2" by (rule kb_quiet.trans [OF s1]) simp
    have "kb_step ?s2 ?s3" using kb_step.load_char [of ?s2] by simp
    then have s3: "kb_quiet s ?s3" by (rule kb_quiet.trans [OF s2]) simp
    have "kb_step ?s3 ?s4" using kb_step.store_tail [of ?s3 ?c] by simp
    then have "kb_quiet s ?s4" by (rule kb_quiet.trans [OF s3]) simp
    moreover have "?s4 = s\<lparr>ring := k', taken := taken s @ filter (\<lambda>c. c \<noteq> 0) [c]\<rparr>"
      using assms(1) c k' \<open>?c \<noteq> 0\<close> by (cases s) simp
    ultimately show ?thesis by simp
  qed
qed

section \<open>Properties\<close>

text \<open>
  C9 (keyboard_no_lost_input): however the keyboard interrupt is interleaved with the loads
  and stores of \<open>keyboard_pop\<close>, the characters the shell has taken, followed by those still in
  the ring, are exactly the characters the handler accepted, in order: none lost, none
  duplicated, none reordered, and none is NUL.
\<close>

theorem keyboard_no_lost_input:
  assumes "kb_reachable s"
  shows "taken s @ pending (ring s) = queued s \<and> 0 \<notin> set (queued s) \<and> length (pending (ring s)) \<le> 255"
proof -
  have inv: "kb_inv s" by (rule kb_reachable_inv [OF assms])
  have "0 \<notin> set (queued s)" using assms
  proof (induction rule: kb_reachable.induct)
    case start
    then show ?case by (simp add: kb_start_def)
  next
    case (step s t)
    from step(2,3) show ?case
      by (cases rule: kb_step.cases) (auto simp: accepted_def translate_chars)
  qed
  with inv kbd_queue.contents_bound [of "ring s"] show ?thesis by (simp add: kb_inv_def)
qed

lemma keyboard_no_lost_input_witness:
  "\<exists>s. kb_reachable s \<and> reader s = Got_head 0 \<and> taken s @ pending (ring s) = queued s"
proof -
  let ?s = "kb_start\<lparr>reader := Got_head (buffer_head (ring kb_start))\<rparr>"
  let ?t = "?s\<lparr>ring := fst (on_scan_code 0x23 (ring ?s, [])), queued := queued ?s @ accepted 0x23 (ring ?s)\<rparr>"
  have "kb_reachable ?s"
    by (intro kb_reachable.step [OF kb_reachable.start] kb_step.load_head) (simp add: kb_start_def)
  then have t: "kb_reachable ?t" by (rule kb_reachable.step [OF _ kb_step.irq])
  have "reader ?t = Got_head 0" by (simp add: kb_start_def keyboard_init_def)
  with t keyboard_no_lost_input [OF t] show ?thesis by blast
qed

text \<open>
  The small steps are those of the sources: when no interrupt
  comes in between, running them from an idle reader is the same as one call of
  \<open>keyboard_pop\<close>, with the character it returns recorded as taken unless it is NUL.
\<close>

lemma keyboard_pop_atomic_steps:
  assumes "reader s = Idle" and "ring_ok (ring s)"
  shows "kb_quiet s (s\<lparr>ring := snd (keyboard_pop (ring s)),
    taken := taken s @ filter (\<lambda>c. c \<noteq> 0) [fst (keyboard_pop (ring s))]\<rparr>)"
  by (rule quiet_pop [OF assms(1) prod.collapse [symmetric] assms(2)])

lemma keyboard_pop_atomic_steps_witness:
  "kb_quiet kb_start (kb_start\<lparr>ring := snd (keyboard_pop (ring kb_start)),
     taken := taken kb_start @ filter (\<lambda>c. c \<noteq> 0) [fst (keyboard_pop (ring kb_start))]\<rparr>)"
  by (rule keyboard_pop_atomic_steps) (simp_all add: kb_start_def ring_ok_init)

end
