(* ===== verification/Number_Format.thy ===== *)
theory Number_Format
  imports Prelude
begin

text \<open>
  How the kernel prints numbers. kernel/src/terminal.c and kernel/src/serial.c contain the
  same loops: the digits of a decimal number into a local buffer, least significant first,
  and the two nibbles of a byte through a digit string. The loops are modelled once here,
  and proved equal to the usual numerals of natural numbers. \<open>char_sink\<close> is the interface
  the two output devices share; its lemmas say that printing digit by digit is writing the
  numeral as a string.
\<close>

section \<open>The digit loops\<close>

text \<open>
  The content of the local buffer after the loop, from index 0 up; the sources then print it
  from the top index down. The 32-bit and the 64-bit routine differ in the type of the
  value and in the size of the buffer, 11 and 21 bytes.
\<close>

lemma div_10_less_u64: "(v :: u64) \<noteq> 0 \<Longrightarrow> unat (v div 10) < unat v"
  by (simp add: unat_div unat_gt_0)

lemma div_10_less_u32: "(v :: u32) \<noteq> 0 \<Longrightarrow> unat (v div 10) < unat v"
  by (simp add: unat_div unat_gt_0)

function fill_decimal64 :: "u64 \<Rightarrow> bytes" where
  "fill_decimal64 value =
     (if value > 0 then ucast (0x30 + value mod 10) # fill_decimal64 (value div 10) else [])"
  by pat_completeness auto
termination
  by (relation "measure unat") (auto simp: div_10_less_u64 word_greater_zero_iff)

function fill_decimal32 :: "u32 \<Rightarrow> bytes" where
  "fill_decimal32 value =
     (if value > 0 then ucast (0x30 + value mod 10) # fill_decimal32 (value div 10) else [])"
  by pat_completeness auto
termination
  by (relation "measure unat") (auto simp: div_10_less_u32 word_greater_zero_iff)

declare fill_decimal64.simps [simp del] fill_decimal32.simps [simp del]

text \<open>The digit string \<open>"0123456789ABCDEF"\<close> indexed by a nibble.\<close>

definition nibble_char :: "u8 \<Rightarrow> u8" where
  "nibble_char value = chars ''0123456789ABCDEF'' ! unat (value AND 0x0F)"

section \<open>Numerals\<close>

fun dec_numeral :: "nat \<Rightarrow> bytes" where
  "dec_numeral n =
     (if n < 10 then [of_nat (48 + n)] else dec_numeral (n div 10) @ [of_nat (48 + n mod 10)])"

declare dec_numeral.simps [simp del]

definition dec_value :: "bytes \<Rightarrow> nat" where
  "dec_value = foldl (\<lambda>n c. 10 * n + (unat c - 48)) 0"

definition is_digit :: "u8 \<Rightarrow> bool" where
  "is_digit c \<longleftrightarrow> 48 \<le> unat c \<and> unat c \<le> 57"

definition hex_numeral8 :: "u8 \<Rightarrow> bytes" where
  "hex_numeral8 v = [chars ''0123456789ABCDEF'' ! (unat v div 16),
                     chars ''0123456789ABCDEF'' ! (unat v mod 16)]"

definition hex_numeral32 :: "u32 \<Rightarrow> bytes" where
  "hex_numeral32 v = chars ''0x'' @ concat (map hex_numeral8 (rev (le_bytes 4 (unat v))))"

lemma dec_value_snoc: "dec_value (ds @ [c]) = 10 * dec_value ds + (unat c - 48)"
  by (simp add: dec_value_def)

lemma dec_value_numeral: "dec_value (dec_numeral n) = n"
proof (induction n rule: dec_numeral.induct)
  case (1 n)
  show ?case
  proof (cases "n < 10")
    case True
    then show ?thesis by (subst dec_numeral.simps) (simp add: dec_value_def del: of_nat_add)
  next
    case False
    with 1 show ?thesis
      by (subst dec_numeral.simps) (simp add: dec_value_snoc del: of_nat_add)
  qed
qed

lemma dec_numeral_digits: "c \<in> set (dec_numeral n) \<Longrightarrow> is_digit c"
proof (induction n rule: dec_numeral.induct)
  case (1 n)
  show ?case
  proof (cases "n < 10")
    case True
    with 1(2) show ?thesis
      by (subst (asm) dec_numeral.simps) (simp add: is_digit_def del: of_nat_add)
  next
    case False
    with 1(2) have "c \<in> set (dec_numeral (n div 10)) \<or> c = of_nat (48 + n mod 10)"
      by (subst (asm) dec_numeral.simps) auto
    with 1(1) False show ?thesis by (auto simp: is_digit_def simp del: of_nat_add)
  qed
qed

lemma dec_numeral_length: "0 < k \<Longrightarrow> n < 10 ^ k \<Longrightarrow> length (dec_numeral n) \<le> k"
proof (induction n arbitrary: k rule: dec_numeral.induct)
  case (1 n)
  show ?case
  proof (cases "n < 10")
    case True
    with 1(2) show ?thesis by (subst dec_numeral.simps) simp
  next
    case False
    then obtain j where k: "k = Suc j" and "0 < j"
      using 1(2,3) by (cases k; cases "k - 1") auto
    then have "n div 10 < 10 ^ j" using 1(3) by auto
    with 1(1) False \<open>0 < j\<close> k show ?thesis by (subst dec_numeral.simps) simp
  qed
qed

text \<open>The loops fill the buffer with the numeral, reversed.\<close>

lemma digit_cast:
  "ucast (0x30 + (v :: u64) mod 10) = (of_nat (48 + unat v mod 10) :: u8)"
  "ucast (0x30 + (w :: u32) mod 10) = (of_nat (48 + unat w mod 10) :: u8)"
proof -
  have "unat v mod 10 < 10" and "unat w mod 10 < 10" by simp_all
  then have "unat (0x30 + v mod 10) = 48 + unat v mod 10"
    and "unat (0x30 + w mod 10) = 48 + unat w mod 10"
    by (simp_all add: unat_word_ariths unat_mod)
  then show "ucast (0x30 + v mod 10) = (of_nat (48 + unat v mod 10) :: u8)"
    and "ucast (0x30 + w mod 10) = (of_nat (48 + unat w mod 10) :: u8)"
    by (metis of_nat_unat)+
qed

lemma div_10_zero:
  "(v :: u64) div 10 = 0 \<longleftrightarrow> unat v < 10"
  "(w :: u32) div 10 = 0 \<longleftrightarrow> unat w < 10"
proof -
  have "unat (v div 10) = unat v div 10" and "unat (w div 10) = unat w div 10"
    by (simp_all add: unat_div)
  then show "v div 10 = 0 \<longleftrightarrow> unat v < 10" and "w div 10 = 0 \<longleftrightarrow> unat w < 10"
    by (simp_all only: div_eq_0_iff unat_eq_0 [symmetric]) simp_all
qed

lemma fill_decimal64_numeral: "v \<noteq> 0 \<Longrightarrow> rev (fill_decimal64 v) = dec_numeral (unat v)"
proof (induction v rule: fill_decimal64.induct)
  case (1 v)
  then have step: "rev (fill_decimal64 v) =
      rev (fill_decimal64 (v div 10)) @ [of_nat (48 + unat v mod 10)]"
    by (subst fill_decimal64.simps) (simp add: digit_cast word_greater_zero_iff)
  show ?case
  proof (cases "v div 10 = 0")
    case True
    then have "unat v < 10" by (simp add: div_10_zero)
    then show ?thesis using step True
      by (subst dec_numeral.simps) (simp add: fill_decimal64.simps [of 0])
  next
    case False
    then have "\<not> unat v < 10" by (simp add: div_10_zero)
    with 1 False step show ?thesis
      by (subst dec_numeral.simps) (simp add: unat_div word_greater_zero_iff)
  qed
qed

lemma fill_decimal32_numeral: "v \<noteq> 0 \<Longrightarrow> rev (fill_decimal32 v) = dec_numeral (unat v)"
proof (induction v rule: fill_decimal32.induct)
  case (1 v)
  then have step: "rev (fill_decimal32 v) =
      rev (fill_decimal32 (v div 10)) @ [of_nat (48 + unat v mod 10)]"
    by (subst fill_decimal32.simps) (simp add: digit_cast word_greater_zero_iff)
  show ?case
  proof (cases "v div 10 = 0")
    case True
    then have "unat v < 10" by (simp add: div_10_zero)
    then show ?thesis using step True
      by (subst dec_numeral.simps) (simp add: fill_decimal32.simps [of 0])
  next
    case False
    then have "\<not> unat v < 10" by (simp add: div_10_zero)
    with 1 False step show ?thesis
      by (subst dec_numeral.simps) (simp add: unat_div word_greater_zero_iff)
  qed
qed

lemma dec_numeral_0: "dec_numeral 0 = [0x30]"
  by (subst dec_numeral.simps) simp

text \<open>The local buffers are large enough: 11 bytes for 32 bits, 21 bytes for 64 bits.\<close>

lemma fill_decimal64_fits: "length (fill_decimal64 v) \<le> 20"
proof (cases "v = 0")
  case True
  then show ?thesis by (simp add: fill_decimal64.simps)
next
  case False
  then have "length (fill_decimal64 v) = length (dec_numeral (unat v))"
    by (metis fill_decimal64_numeral length_rev)
  with dec_numeral_length [of 20 "unat v"] unat_u64_bound [of v] show ?thesis by simp
qed

lemma fill_decimal32_fits: "length (fill_decimal32 v) \<le> 10"
proof (cases "v = 0")
  case True
  then show ?thesis by (simp add: fill_decimal32.simps)
next
  case False
  then have "length (fill_decimal32 v) = length (dec_numeral (unat v))"
    by (metis fill_decimal32_numeral length_rev)
  with dec_numeral_length [of 10 "unat v"] unat_u32_bound [of v] show ?thesis by simp
qed

lemma nibble_char_low: "nibble_char v = chars ''0123456789ABCDEF'' ! (unat v mod 16)"
proof -
  have f: "(0x0F :: u8) = mask 4" by (simp add: mask_eq_exp_minus_1)
  have "unat (v AND 0x0F) = unat v mod 16"
    unfolding f by (simp add: take_bit_eq_mod unat_mod flip: take_bit_eq_mask)
  then show ?thesis by (simp add: nibble_char_def)
qed

lemma nibble_chars: "[nibble_char (drop_bit 4 v), nibble_char v] = hex_numeral8 v"
  using unat_u8_bound [of v]
  by (simp add: nibble_char_low hex_numeral8_def drop_bit_eq_div unat_div)

lemma byte_of_u32: "(ucast (drop_bit n (v :: u32)) :: u8) = of_nat (unat v div 2 ^ n)"
proof -
  have "unat (drop_bit n v) = unat v div 2 ^ n"
    by (simp only: unat_drop_bit_eq) (simp only: drop_bit_eq_div)
  then show ?thesis by (metis of_nat_unat)
qed

lemma hex_bytes:
  "rev (le_bytes 4 (unat (v :: u32))) =
     [ucast (drop_bit 24 v), ucast (drop_bit 16 v), ucast (drop_bit 8 v), ucast v]"
  using byte_of_u32 [of 0 v]
  by (simp add: byte_of_u32 le_bytes_unfold)

section \<open>The interface of an output device\<close>

text \<open>\<open>put_all\<close> writes characters one by one; a device may fail to return (\<open>None\<close>).\<close>

fun put_all :: "(u8 \<Rightarrow> 's \<Rightarrow> 's option) \<Rightarrow> bytes \<Rightarrow> 's \<Rightarrow> 's option" where
  "put_all put [] s = Some s"
| "put_all put (c # cs) s = Option.bind (put c s) (put_all put cs)"

lemma put_all_Nil [simp]: "put_all put [] = Some"
  by (rule ext) simp

lemma put_all_append:
  "put_all put (xs @ ys) s = Option.bind (put_all put xs s) (put_all put ys)"
  by (induction put xs s rule: put_all.induct) (auto split: bind_splits)

locale char_sink =
  fixes put :: "u8 \<Rightarrow> 's \<Rightarrow> 's option"
    and puts :: "bytes \<Rightarrow> 's \<Rightarrow> 's option"
  assumes puts_Nil: "puts [] s = Some s"
    and puts_Cons: "c \<noteq> 10 \<Longrightarrow> puts (c # cs) s = Option.bind (put c s) (puts cs)"
begin

lemma put_all_puts: "10 \<notin> set cs \<Longrightarrow> put_all put cs s = puts cs s"
  by (induction cs arbitrary: s) (auto simp: puts_Nil puts_Cons split: bind_splits)

lemma put_all_decimal64:
  "put_all put (if v = 0 then [0x30] else rev (fill_decimal64 v)) s = puts (dec_numeral (unat v)) s"
proof -
  have "10 \<notin> set (dec_numeral (unat v))"
    using dec_numeral_digits [of 10 "unat v"] by (auto simp: is_digit_def)
  then show ?thesis
    using put_all_puts [of "dec_numeral (unat v)" s]
    by (auto simp: fill_decimal64_numeral dec_numeral_0)
qed

lemma put_all_decimal32:
  "put_all put (if v = 0 then [0x30] else rev (fill_decimal32 v)) s = puts (dec_numeral (unat v)) s"
proof -
  have "10 \<notin> set (dec_numeral (unat v))"
    using dec_numeral_digits [of 10 "unat v"] by (auto simp: is_digit_def)
  then show ?thesis
    using put_all_puts [of "dec_numeral (unat v)" s]
    by (auto simp: fill_decimal32_numeral dec_numeral_0)
qed

end

end
