(* ===== verification/Terminal.thy ===== *)
theory Terminal
  imports Number_Format
begin

text \<open>
  The VGA text terminal, kernel/src/terminal.c. The text buffer at 0xB8000 is the field
  \<open>vga\<close>, a function from the cell index to the cell; an index past the 2000 visible cells is
  a write past the screen, which the properties exclude. The static counters are natural
  numbers: they start at 0, only grow by one, and are decremented under a test for 0.
\<close>

section \<open>State and operations\<close>

definition VGA_WIDTH :: nat where "VGA_WIDTH = 80"
definition VGA_HEIGHT :: nat where "VGA_HEIGHT = 25"

definition VGA_BLACK :: u8 where "VGA_BLACK = 0"
definition VGA_BLUE :: u8 where "VGA_BLUE = 1"
definition VGA_LIGHT_GREY :: u8 where "VGA_LIGHT_GREY = 7"
definition VGA_LIGHT_CYAN :: u8 where "VGA_LIGHT_CYAN = 11"
definition VGA_LIGHT_BROWN :: u8 where "VGA_LIGHT_BROWN = 14"
definition VGA_WHITE :: u8 where "VGA_WHITE = 15"

record terminal =
  vga :: "nat \<Rightarrow> u16"
  terminal_row :: nat
  terminal_column :: nat
  terminal_color :: u8
  reserved_rows :: nat

definition vga_entry :: "u8 \<Rightarrow> u8 \<Rightarrow> u16" where
  "vga_entry character color = ucast character OR push_bit 8 (ucast color)"

definition vga_color :: "u8 \<Rightarrow> u8 \<Rightarrow> u8" where
  "vga_color foreground background = foreground OR push_bit 4 background"

definition terminal_put_entry_at :: "u8 \<Rightarrow> u8 \<Rightarrow> nat \<Rightarrow> nat \<Rightarrow> terminal \<Rightarrow> terminal" where
  "terminal_put_entry_at character color x y t =
     t\<lparr>vga := (vga t)(y * VGA_WIDTH + x := vga_entry character color)\<rparr>"

definition terminal_set_cursor :: "nat \<Rightarrow> nat \<Rightarrow> terminal \<Rightarrow> terminal" where
  "terminal_set_cursor row column t = t\<lparr>terminal_row := row, terminal_column := column\<rparr>"

definition terminal_fill_line :: "nat \<Rightarrow> u8 \<Rightarrow> terminal \<Rightarrow> terminal" where
  "terminal_fill_line row color t =
     fold (\<lambda>column. terminal_put_entry_at 0x20 color column row) [0..<VGA_WIDTH] t"

fun terminal_write_at :: "nat \<Rightarrow> nat \<Rightarrow> u8 \<Rightarrow> bytes \<Rightarrow> terminal \<Rightarrow> terminal" where
  "terminal_write_at row column color [] t = t"
| "terminal_write_at row column color (c # cs) t =
     (if column < VGA_WIDTH then
        terminal_write_at row (column + 1) color cs (terminal_put_entry_at c color column row t)
      else t)"

text \<open>The inner loop of \<open>terminal_scroll\<close>: one line takes the cells of the line below.\<close>

definition terminal_scroll_line :: "nat \<Rightarrow> terminal \<Rightarrow> terminal" where
  "terminal_scroll_line row t =
     fold (\<lambda>column t. t\<lparr>vga := (vga t)(row * VGA_WIDTH + column :=
             vga t ((row + 1) * VGA_WIDTH + column))\<rparr>) [0..<VGA_WIDTH] t"

definition terminal_scroll :: "terminal \<Rightarrow> terminal" where
  "terminal_scroll t =
     (let t1 = fold terminal_scroll_line [reserved_rows t..<VGA_HEIGHT - 1] t;
          t2 = terminal_fill_line (VGA_HEIGHT - 1) (terminal_color t) t1
      in t2\<lparr>terminal_row := VGA_HEIGHT - 1, terminal_column := 0\<rparr>)"

definition terminal_newline :: "terminal \<Rightarrow> terminal" where
  "terminal_newline t =
     (let t1 = t\<lparr>terminal_column := 0, terminal_row := terminal_row t + 1\<rparr>
      in if terminal_row t1 \<ge> VGA_HEIGHT then terminal_scroll t1 else t1)"

definition header_title :: bytes where
  "header_title = chars ''SNSX ExOS :: Sovereign Neural Systems Experience Operating System''"

definition header_border :: bytes where
  "header_border = chars
     ''+----------------------------------------------------------------------------+''"

definition header_kernel :: bytes where
  "header_kernel = chars
     ''| Kernel : Aurora Core x64 0.1  | Boot : Custom BIOS chain | UI : Aurora TTY |''"

definition header_commands :: bytes where
  "header_commands = chars
     ''| Commands: help about system apps learn drivers network roadmap clear reboot |''"

definition header_vision :: bytes where
  "header_vision = chars
     ''| Vision  : Custom kernel, native shell, serial logs, clean-room expansion    |''"

definition terminal_draw_header :: "terminal \<Rightarrow> terminal" where
  "terminal_draw_header t =
     (let bar_color = vga_color VGA_WHITE VGA_BLUE;
          brand_color = vga_color VGA_LIGHT_CYAN VGA_BLACK;
          accent_color = vga_color VGA_LIGHT_BROWN VGA_BLACK;
          copy_color = vga_color VGA_LIGHT_GREY VGA_BLACK;
          t0 = t\<lparr>reserved_rows := 6\<rparr>;
          t1 = terminal_write_at 0 2 bar_color header_title (terminal_fill_line 0 bar_color t0);
          t2 = terminal_write_at 1 2 brand_color header_border
                 (terminal_fill_line 1 (terminal_color t) t1);
          t3 = terminal_write_at 2 2 accent_color header_kernel
                 (terminal_fill_line 2 (terminal_color t) t2);
          t4 = terminal_write_at 3 2 copy_color header_commands
                 (terminal_fill_line 3 (terminal_color t) t3);
          t5 = terminal_write_at 4 2 brand_color header_vision
                 (terminal_fill_line 4 (terminal_color t) t4);
          t6 = terminal_write_at 5 2 brand_color header_border
                 (terminal_fill_line 5 (terminal_color t) t5)
      in terminal_set_cursor (reserved_rows t6) 0 t6)"

definition terminal_clear :: "terminal \<Rightarrow> terminal" where
  "terminal_clear t =
     terminal_set_cursor 0 0
       (fold (\<lambda>row. terminal_fill_line row (terminal_color t)) [0..<VGA_HEIGHT] t)"

definition terminal_init :: "terminal \<Rightarrow> terminal" where
  "terminal_init t =
     terminal_draw_header (terminal_clear
       (t\<lparr>terminal_color := vga_color VGA_LIGHT_GREY VGA_BLACK, reserved_rows := 0\<rparr>))"

definition terminal_clear_shell :: "terminal \<Rightarrow> terminal" where
  "terminal_clear_shell t =
     terminal_set_cursor (reserved_rows t) 0
       (fold (\<lambda>row. terminal_fill_line row (terminal_color t)) [reserved_rows t..<VGA_HEIGHT] t)"

definition terminal_write_char :: "u8 \<Rightarrow> terminal \<Rightarrow> terminal" where
  "terminal_write_char character t =
     (if character = 10 then terminal_newline t
      else if character = 13 then t\<lparr>terminal_column := 0\<rparr>
      else
        (let t1 = (if terminal_column t \<ge> VGA_WIDTH then terminal_newline t else t);
             t2 = terminal_put_entry_at character (terminal_color t1)
                    (terminal_column t1) (terminal_row t1) t1
         in t2\<lparr>terminal_column := terminal_column t2 + 1\<rparr>))"

definition terminal_write :: "bytes \<Rightarrow> terminal \<Rightarrow> terminal" where
  "terminal_write text t = fold terminal_write_char text t"

definition terminal_writeln :: "bytes \<Rightarrow> terminal \<Rightarrow> terminal" where
  "terminal_writeln text t = terminal_write_char 10 (terminal_write text t)"

definition terminal_backspace :: "terminal \<Rightarrow> terminal" where
  "terminal_backspace t =
     (if terminal_column t = 0 then t
      else (let t1 = t\<lparr>terminal_column := terminal_column t - 1\<rparr>
            in terminal_put_entry_at 0x20 (terminal_color t1)
                 (terminal_column t1) (terminal_row t1) t1))"

definition terminal_prompt :: "terminal \<Rightarrow> terminal" where
  "terminal_prompt t =
     fold (\<lambda>c t. (terminal_put_entry_at c (vga_color VGA_LIGHT_CYAN VGA_BLACK)
                   (terminal_column t) (terminal_row t) t)
                  \<lparr>terminal_column := terminal_column t + 1\<rparr>)
       (chars ''snsx> '') t"

definition terminal_write_nibble :: "u8 \<Rightarrow> terminal \<Rightarrow> terminal" where
  "terminal_write_nibble value t = terminal_write_char (nibble_char value) t"

definition terminal_write_hex8 :: "u8 \<Rightarrow> terminal \<Rightarrow> terminal" where
  "terminal_write_hex8 value t =
     terminal_write_nibble value (terminal_write_nibble (drop_bit 4 value) t)"

definition terminal_write_hex32 :: "u32 \<Rightarrow> terminal \<Rightarrow> terminal" where
  "terminal_write_hex32 value t =
     (let t1 = terminal_write (chars ''0x'') t;
          t2 = terminal_write_hex8 (ucast (drop_bit 24 value)) t1;
          t3 = terminal_write_hex8 (ucast (drop_bit 16 value)) t2;
          t4 = terminal_write_hex8 (ucast (drop_bit 8 value)) t3
      in terminal_write_hex8 (ucast value) t4)"

definition terminal_write_uint :: "u32 \<Rightarrow> terminal \<Rightarrow> terminal" where
  "terminal_write_uint value t =
     (if value = 0 then terminal_write_char 0x30 t
      else fold terminal_write_char (rev (fill_decimal32 value)) t)"

definition terminal_write_uint64 :: "u64 \<Rightarrow> terminal \<Rightarrow> terminal" where
  "terminal_write_uint64 value t =
     (if value = 0 then terminal_write_char 0x30 t
      else fold terminal_write_char (rev (fill_decimal64 value)) t)"

lemmas vga_dims = VGA_WIDTH_def VGA_HEIGHT_def

section \<open>The shape of the state\<close>

text \<open>
  \<open>term_ok\<close>: the cursor is in the shell area or just past the end of one of its lines.
\<close>

definition term_ok :: "terminal \<Rightarrow> bool" where
  "term_ok t \<longleftrightarrow>
     reserved_rows t \<le> terminal_row t \<and> terminal_row t < VGA_HEIGHT \<and>
     terminal_column t \<le> VGA_WIDTH"

text \<open>\<open>touches t t' R\<close>: the two terminals agree on every cell whose index is outside \<open>R\<close>.\<close>

definition touches :: "terminal \<Rightarrow> terminal \<Rightarrow> nat set \<Rightarrow> bool" where
  "touches t t' R \<longleftrightarrow> (\<forall>i. i \<notin> R \<longrightarrow> vga t' i = vga t i)"

lemma touches_refl [simp]: "touches t t R"
  by (simp add: touches_def)

lemma touches_trans: "touches a b R \<Longrightarrow> touches b c R \<Longrightarrow> touches a c R"
  by (simp add: touches_def)

lemma touches_mono: "touches a b R \<Longrightarrow> R \<subseteq> S \<Longrightarrow> touches a b S"
  by (auto simp: touches_def)

definition row_cells :: "nat \<Rightarrow> nat set" where
  "row_cells r = {r * VGA_WIDTH..<(r + 1) * VGA_WIDTH}"

definition shell_area :: "terminal \<Rightarrow> nat set" where
  "shell_area t = {reserved_rows t * VGA_WIDTH..<VGA_HEIGHT * VGA_WIDTH}"

lemma cell_index_eq:
  "c < VGA_WIDTH \<Longrightarrow> d < VGA_WIDTH \<Longrightarrow>
     r * VGA_WIDTH + c = q * VGA_WIDTH + d \<longleftrightarrow> r = q \<and> c = d"
  using arg_cong [of "r * 80 + c" "q * 80 + d" "\<lambda>i. i div 80"]
  by (fastforce simp: VGA_WIDTH_def)

lemma cell_in_shell:
  "reserved_rows t \<le> r \<Longrightarrow> r < VGA_HEIGHT \<Longrightarrow> c < VGA_WIDTH \<Longrightarrow>
     r * VGA_WIDTH + c \<in> shell_area t"
  unfolding shell_area_def vga_dims by auto

lemma vga_same: "f = vga t \<Longrightarrow> t\<lparr>vga := f\<rparr> = t"
  by simp

section \<open>Closed forms of the drawing loops\<close>

named_theorems term_fields \<open>fields that an operation leaves unchanged\<close>

lemma put_entry_vga:
  "vga (terminal_put_entry_at c col x y t) i =
     (if i = y * VGA_WIDTH + x then vga_entry c col else vga t i)"
  by (simp add: terminal_put_entry_at_def)

lemma put_entry_fields [term_fields, simp]:
  "terminal_row (terminal_put_entry_at c col x y t) = terminal_row t"
  "terminal_column (terminal_put_entry_at c col x y t) = terminal_column t"
  "terminal_color (terminal_put_entry_at c col x y t) = terminal_color t"
  "reserved_rows (terminal_put_entry_at c col x y t) = reserved_rows t"
  by (simp_all add: terminal_put_entry_at_def)

lemma fill_prefix:
  "fold (\<lambda>column. terminal_put_entry_at 0x20 color column row) [0..<n] t =
     t\<lparr>vga := (\<lambda>i. if row * VGA_WIDTH \<le> i \<and> i < row * VGA_WIDTH + n
                   then vga_entry 0x20 color else vga t i)\<rparr>"
  by (induction n) (auto simp: terminal_put_entry_at_def fun_eq_iff intro!: terminal.equality)

lemma terminal_fill_line_eq:
  "terminal_fill_line row color t =
     t\<lparr>vga := (\<lambda>i. if i \<in> row_cells row then vga_entry 0x20 color else vga t i)\<rparr>"
  by (simp add: terminal_fill_line_def fill_prefix row_cells_def algebra_simps cong: if_cong)

lemma fill_lines_eq:
  "a \<le> b \<Longrightarrow> fold (\<lambda>row. terminal_fill_line row color) [a..<b] t =
     t\<lparr>vga := (\<lambda>i. if a * VGA_WIDTH \<le> i \<and> i < b * VGA_WIDTH
                   then vga_entry 0x20 color else vga t i)\<rparr>"
proof (induction b)
  case 0
  then show ?case by simp
next
  case (Suc b)
  show ?case
  proof (cases "a = Suc b")
    case True
    then show ?thesis by simp (rule vga_same [symmetric], auto simp: fun_eq_iff)
  next
    case False
    with Suc show ?thesis
      by (auto simp: terminal_fill_line_eq row_cells_def fun_eq_iff VGA_WIDTH_def)
  qed
qed

lemma terminal_write_at_fields [term_fields, simp]:
  "terminal_row (terminal_write_at row column color s t) = terminal_row t"
  "terminal_column (terminal_write_at row column color s t) = terminal_column t"
  "terminal_color (terminal_write_at row column color s t) = terminal_color t"
  "reserved_rows (terminal_write_at row column color s t) = reserved_rows t"
  by (induction row column color s t rule: terminal_write_at.induct) simp_all

lemma terminal_write_at_vga:
  "column \<le> VGA_WIDTH \<Longrightarrow> vga (terminal_write_at row column color s t) i =
     (if row * VGA_WIDTH + column \<le> i \<and> i < row * VGA_WIDTH + min VGA_WIDTH (column + length s)
      then vga_entry (s ! (i - (row * VGA_WIDTH + column))) color else vga t i)"
proof (induction row column color s t rule: terminal_write_at.induct)
  case (1 row column color t)
  then show ?case by auto
next
  case (2 row column color c cs t)
  show ?case
  proof (cases "column < VGA_WIDTH")
    case True
    consider "i = row * VGA_WIDTH + column" | "i < row * VGA_WIDTH + column"
      | "row * VGA_WIDTH + column < i" by linarith
    then show ?thesis
    proof cases
      case 3
      then have "i - (row * VGA_WIDTH + column) = Suc (i - (row * VGA_WIDTH + (column + 1)))"
        by simp
      with 3 2(1) [OF True] True show ?thesis by (simp add: put_entry_vga Suc_le_eq)
    qed (use 2(1) [OF True] True in \<open>simp_all add: put_entry_vga\<close>)
  next
    case False
    with 2 show ?thesis by auto
  qed
qed

text \<open>Scrolling moves every shell line up by one and blanks the last one.\<close>

lemma scroll_row:
  "n \<le> VGA_WIDTH \<Longrightarrow>
     fold (\<lambda>column t. t\<lparr>vga := (vga t)(row * VGA_WIDTH + column :=
             vga t ((row + 1) * VGA_WIDTH + column))\<rparr>) [0..<n] t =
       t\<lparr>vga := (\<lambda>i. if row * VGA_WIDTH \<le> i \<and> i < row * VGA_WIDTH + n
                     then vga t (i + VGA_WIDTH) else vga t i)\<rparr>"
proof (induction n)
  case 0
  then show ?case by simp (rule vga_same [symmetric], auto simp: fun_eq_iff)
next
  case (Suc n)
  then show ?case by (auto simp: fun_eq_iff algebra_simps intro!: terminal.equality)
qed

lemma terminal_scroll_line_eq:
  "terminal_scroll_line row t =
     t\<lparr>vga := (\<lambda>i. if i \<in> row_cells row then vga t (i + VGA_WIDTH) else vga t i)\<rparr>"
  unfolding terminal_scroll_line_def
  by (subst scroll_row) (simp_all add: row_cells_def add.commute)

lemma scroll_rows:
  "a \<le> b \<Longrightarrow> fold terminal_scroll_line [a..<b] t =
     t\<lparr>vga := (\<lambda>i. if a * VGA_WIDTH \<le> i \<and> i < b * VGA_WIDTH
                   then vga t (i + VGA_WIDTH) else vga t i)\<rparr>"
proof (induction b)
  case 0
  then show ?case by simp
next
  case (Suc b)
  show ?case
  proof (cases "a = Suc b")
    case True
    then show ?thesis by simp (rule vga_same [symmetric], auto simp: fun_eq_iff)
  next
    case False
    with Suc show ?thesis
      by (auto simp: terminal_scroll_line_eq row_cells_def fun_eq_iff VGA_WIDTH_def)
  qed
qed

lemma terminal_scroll_eq:
  "reserved_rows t < VGA_HEIGHT \<Longrightarrow> terminal_scroll t =
     t\<lparr>vga := (\<lambda>i.
          if reserved_rows t * VGA_WIDTH \<le> i \<and> i < (VGA_HEIGHT - 1) * VGA_WIDTH
            then vga t (i + VGA_WIDTH)
          else if i \<in> row_cells (VGA_HEIGHT - 1) then vga_entry 0x20 (terminal_color t)
          else vga t i),
       terminal_row := VGA_HEIGHT - 1, terminal_column := 0\<rparr>"
  unfolding terminal_scroll_def Let_def
  by (subst scroll_rows)
    (auto simp: terminal_fill_line_eq row_cells_def fun_eq_iff vga_dims intro!: terminal.equality)

end
