(* ===== verification/Terminal_Console.thy ===== *)
theory Terminal_Console
  imports Terminal
begin

text \<open>
  What the terminal promises: a console that is a list of lines below the header, with a
  cursor, that drops its first line when it is full. \<open>console_of\<close> reads it off the VGA
  buffer, and each operation of kernel/src/terminal.c that the shell uses is shown to be the
  operation of the same name on the console, to stay inside the shell area and to keep the
  header. \<open>term_effect\<close> collects what one operation keeps; the locale \<open>screen_op\<close> lifts
  it, once, to any sequence of such operations.
\<close>

section \<open>The abstract console\<close>

record console =
  lines :: "u16 list list"
  crow :: nat
  ccol :: nat
  attr :: u8

definition blank_line :: "u8 \<Rightarrow> u16 list" where
  "blank_line a = replicate VGA_WIDTH (vga_entry 0x20 a)"

definition console_newline :: "console \<Rightarrow> console" where
  "console_newline k =
     (if crow k + 1 < length (lines k) then k\<lparr>crow := crow k + 1, ccol := 0\<rparr>
      else k\<lparr>lines := tl (lines k) @ [blank_line (attr k)], ccol := 0\<rparr>)"

definition console_set_cell :: "u8 \<Rightarrow> u8 \<Rightarrow> nat \<Rightarrow> console \<Rightarrow> console" where
  "console_set_cell c a col k =
     k\<lparr>lines := (lines k)[crow k := (lines k ! crow k)[col := vga_entry c a]]\<rparr>"

definition console_write_char :: "u8 \<Rightarrow> console \<Rightarrow> console" where
  "console_write_char c k =
     (if c = 10 then console_newline k
      else if c = 13 then k\<lparr>ccol := 0\<rparr>
      else (let k1 = (if VGA_WIDTH \<le> ccol k then console_newline k else k)
            in (console_set_cell c (attr k1) (ccol k1) k1)\<lparr>ccol := ccol k1 + 1\<rparr>))"

definition console_backspace :: "console \<Rightarrow> console" where
  "console_backspace k =
     (if ccol k = 0 then k
      else (console_set_cell 0x20 (attr k) (ccol k - 1) k)\<lparr>ccol := ccol k - 1\<rparr>)"

definition console_write :: "bytes \<Rightarrow> console \<Rightarrow> console" where
  "console_write s k = fold console_write_char s k"

section \<open>Reading the console off the screen\<close>

definition row_of :: "terminal \<Rightarrow> nat \<Rightarrow> u16 list" where
  "row_of t r = map (\<lambda>c. vga t (r * VGA_WIDTH + c)) [0..<VGA_WIDTH]"

definition console_of :: "terminal \<Rightarrow> console" where
  "console_of t =
     \<lparr>lines = map (row_of t) [reserved_rows t..<VGA_HEIGHT],
      crow = terminal_row t - reserved_rows t,
      ccol = terminal_column t,
      attr = terminal_color t\<rparr>"

text \<open>What every operation on the shell area keeps, besides its own effect.\<close>

definition term_effect :: "terminal \<Rightarrow> terminal \<Rightarrow> bool" where
  "term_effect t t' \<longleftrightarrow>
     term_ok t' \<and> reserved_rows t' = reserved_rows t \<and> terminal_color t' = terminal_color t \<and>
     touches t t' (shell_area t)"

lemma term_effect_refl: "term_ok t \<Longrightarrow> term_effect t t"
  by (simp add: term_effect_def)

lemma term_effect_trans: "term_effect a b \<Longrightarrow> term_effect b c \<Longrightarrow> term_effect a c"
  by (auto simp: term_effect_def shell_area_def intro: touches_trans)

lemma length_row_of [simp]: "length (row_of t r) = VGA_WIDTH"
  by (simp add: row_of_def)

lemma row_of_cong:
  "(\<And>c. c < VGA_WIDTH \<Longrightarrow> vga t (r * VGA_WIDTH + c) = vga t' (q * VGA_WIDTH + c)) \<Longrightarrow>
     row_of t r = row_of t' q"
  by (simp add: row_of_def)

lemma row_of_put:
  assumes "x < VGA_WIDTH"
  shows "row_of (terminal_put_entry_at c a x y t) r =
    (if r = y then (row_of t r)[x := vga_entry c a] else row_of t r)"
  using assms
  by (auto simp: row_of_def put_entry_vga cell_index_eq nth_list_update intro!: nth_equalityI)

lemma lines_nth:
  "i < VGA_HEIGHT - reserved_rows t \<Longrightarrow> lines (console_of t) ! i = row_of t (reserved_rows t + i)"
  by (simp add: console_of_def)

lemma console_of_fields [simp]:
  "ccol (console_of t) = terminal_column t" "attr (console_of t) = terminal_color t"
  by (simp_all add: console_of_def)

lemma row_of_column [simp]: "row_of (t\<lparr>terminal_column := n\<rparr>) = row_of t"
  by (simp add: row_of_def fun_eq_iff)

lemma console_of_column [simp]:
  "console_of (t\<lparr>terminal_column := n\<rparr>) = (console_of t)\<lparr>ccol := n\<rparr>"
  by (simp add: console_of_def row_of_def [abs_def])

lemma length_lines: "length (lines (console_of t)) = VGA_HEIGHT - reserved_rows t"
  by (simp add: console_of_def)

section \<open>The operations refine the console\<close>

lemma set_cell_refines:
  assumes "term_ok t" and "x < VGA_WIDTH"
  shows "console_of (terminal_put_entry_at c a x (terminal_row t) t) =
    console_set_cell c a x (console_of t)"
proof (rule console.equality)
  have row: "reserved_rows t \<le> terminal_row t" "terminal_row t < VGA_HEIGHT"
    using assms(1) by (simp_all add: term_ok_def)
  show "lines (console_of (terminal_put_entry_at c a x (terminal_row t) t)) =
      lines (console_set_cell c a x (console_of t))"
    using row assms(2)
    by (auto simp: console_of_def console_set_cell_def row_of_put nth_list_update
        intro!: nth_equalityI)
qed (simp_all add: console_of_def console_set_cell_def)

lemma put_effect:
  assumes "term_ok t" and "x < VGA_WIDTH"
  shows "term_effect t (terminal_put_entry_at c a x (terminal_row t) t)"
  using assms cell_in_shell [of t "terminal_row t" x]
  by (auto simp: term_effect_def term_ok_def touches_def put_entry_vga)

lemma scroll_lines:
  assumes "reserved_rows t < VGA_HEIGHT"
  shows "map (row_of (terminal_scroll t)) [reserved_rows t..<VGA_HEIGHT] =
    tl (map (row_of t) [reserved_rows t..<VGA_HEIGHT]) @ [blank_line (terminal_color t)]"
proof -
  have up: "row_of (terminal_scroll t) r = row_of t (Suc r)"
    if "reserved_rows t \<le> r" "r < VGA_HEIGHT - 1" for r
  proof (rule row_of_cong)
    fix c
    assume "c < VGA_WIDTH"
    moreover have "r * VGA_WIDTH + c < (VGA_HEIGHT - 1) * VGA_WIDTH"
      using that \<open>c < VGA_WIDTH\<close> unfolding vga_dims by linarith
    moreover have "reserved_rows t * VGA_WIDTH \<le> r * VGA_WIDTH + c"
      using that unfolding vga_dims by linarith
    ultimately show "vga (terminal_scroll t) (r * VGA_WIDTH + c) = vga t (Suc r * VGA_WIDTH + c)"
      using assms by (simp add: terminal_scroll_eq add.commute add.left_commute)
  qed
  have last: "row_of (terminal_scroll t) (VGA_HEIGHT - 1) = blank_line (terminal_color t)"
    using assms
    by (auto simp: row_of_def blank_line_def terminal_scroll_eq row_cells_def vga_dims
        intro!: nth_equalityI)
  have "[reserved_rows t..<VGA_HEIGHT] = [reserved_rows t..<VGA_HEIGHT - 1] @ [VGA_HEIGHT - 1]"
    using assms by (metis Suc_diff_1 VGA_HEIGHT_def less_Suc_eq_le upt_Suc_append zero_less_numeral)
  then have "map (row_of (terminal_scroll t)) [reserved_rows t..<VGA_HEIGHT] =
      map (\<lambda>r. row_of t (Suc r)) [reserved_rows t..<VGA_HEIGHT - 1] @ [blank_line (terminal_color t)]"
    using up last by simp
  also have "map (\<lambda>r. row_of t (Suc r)) [reserved_rows t..<VGA_HEIGHT - 1] =
      tl (map (row_of t) [reserved_rows t..<VGA_HEIGHT])"
    using assms by (auto intro!: nth_equalityI simp: nth_tl)
  finally show ?thesis .
qed

lemma newline_refines:
  assumes "term_ok t"
  shows "console_of (terminal_newline t) = console_newline (console_of t)"
    and "term_effect t (terminal_newline t)"
    and "terminal_column (terminal_newline t) = 0"
proof -
  have row: "reserved_rows t \<le> terminal_row t" "terminal_row t < VGA_HEIGHT"
    using assms by (simp_all add: term_ok_def)
  define t1 where "t1 = t\<lparr>terminal_column := 0, terminal_row := Suc (terminal_row t)\<rparr>"
  have t1: "row_of t1 = row_of t" "reserved_rows t1 = reserved_rows t" "vga t1 = vga t"
    "terminal_color t1 = terminal_color t" "terminal_column t1 = 0"
    "terminal_row t1 = Suc (terminal_row t)"
    by (simp_all add: t1_def row_of_def fun_eq_iff)
  have nl: "terminal_newline t = (if Suc (terminal_row t) < VGA_HEIGHT then t1 else terminal_scroll t1)"
    by (simp add: terminal_newline_def t1_def)
  have sc: "terminal_row (terminal_scroll t1) = VGA_HEIGHT - 1"
    "terminal_column (terminal_scroll t1) = 0"
    "reserved_rows (terminal_scroll t1) = reserved_rows t"
    "terminal_color (terminal_scroll t1) = terminal_color t"
    using row by (simp_all add: terminal_scroll_eq t1)
  have "touches t (terminal_scroll t1) (shell_area t)"
    using row by (auto simp: touches_def shell_area_def terminal_scroll_eq row_cells_def vga_dims t1)
  then show "term_effect t (terminal_newline t)"
    using row by (auto simp: nl term_effect_def term_ok_def sc t1 touches_def vga_dims)
  show "terminal_column (terminal_newline t) = 0" by (simp add: nl sc t1)
  show "console_of (terminal_newline t) = console_newline (console_of t)"
  proof (cases "Suc (terminal_row t) < VGA_HEIGHT")
    case True
    with row show ?thesis by (auto simp: nl console_of_def console_newline_def t1)
  next
    case False
    then have "terminal_row t = VGA_HEIGHT - 1" using row by simp
    with False row show ?thesis
      using scroll_lines [of t1] by (auto simp: nl console_of_def console_newline_def t1 sc)
  qed
qed

lemma write_char_refines:
  assumes "term_ok t"
  shows "console_of (terminal_write_char c t) = console_write_char c (console_of t)"
    and "term_effect t (terminal_write_char c t)"
proof -
  define t1 where "t1 = (if VGA_WIDTH \<le> terminal_column t then terminal_newline t else t)"
  define k1 where "k1 = (if VGA_WIDTH \<le> ccol (console_of t)
    then console_newline (console_of t) else console_of t)"
  have k1: "console_of t1 = k1"
    by (simp add: t1_def k1_def newline_refines(1) [OF assms])
  have eff: "term_effect t t1"
    using newline_refines(2) [OF assms] assms by (simp add: t1_def term_effect_refl)
  then have ok: "term_ok t1" by (simp add: term_effect_def)
  have col: "terminal_column t1 < VGA_WIDTH"
    using newline_refines(3) [OF assms] by (simp add: t1_def VGA_WIDTH_def)
  let ?t2 = "terminal_put_entry_at c (terminal_color t1) (terminal_column t1) (terminal_row t1) t1"
  have plain: "terminal_write_char c t = ?t2\<lparr>terminal_column := terminal_column t1 + 1\<rparr>"
    if "c \<noteq> 10" "c \<noteq> 13"
    using that by (simp add: terminal_write_char_def t1_def Let_def)
  have fields: "terminal_color t1 = attr k1" "terminal_column t1 = ccol k1"
    using k1 by auto
  have "console_of (?t2\<lparr>terminal_column := terminal_column t1 + 1\<rparr>) =
      (console_set_cell c (attr k1) (ccol k1) k1)\<lparr>ccol := ccol k1 + 1\<rparr>"
    using set_cell_refines [OF ok col, of c "terminal_color t1"] k1 fields by simp
  moreover have "console_write_char c (console_of t) =
      (console_set_cell c (attr k1) (ccol k1) k1)\<lparr>ccol := ccol k1 + 1\<rparr>"
    if "c \<noteq> 10" "c \<noteq> 13"
    using that by (simp add: console_write_char_def k1_def Let_def)
  moreover have "console_of (terminal_write_char c t) = console_write_char c (console_of t)"
    if "c = 10 \<or> c = 13"
    using that newline_refines(1) [OF assms]
    by (auto simp: terminal_write_char_def console_write_char_def)
  ultimately show "console_of (terminal_write_char c t) = console_write_char c (console_of t)"
    using plain by (cases "c = 10 \<or> c = 13") auto
  have "term_effect t1 (?t2\<lparr>terminal_column := terminal_column t1 + 1\<rparr>)"
    using put_effect [OF ok col, of c "terminal_color t1"] col
    by (simp add: term_effect_def term_ok_def touches_def)
  with eff have "term_effect t (?t2\<lparr>terminal_column := terminal_column t1 + 1\<rparr>)"
    by (rule term_effect_trans)
  moreover have "term_effect t (terminal_write_char c t)" if "c = 10 \<or> c = 13"
    using that newline_refines(2) [OF assms] assms
    by (auto simp: terminal_write_char_def term_effect_def term_ok_def touches_def)
  ultimately show "term_effect t (terminal_write_char c t)"
    using plain by (cases "c = 10 \<or> c = 13") auto
qed

lemma backspace_refines:
  assumes "term_ok t"
  shows "console_of (terminal_backspace t) = console_backspace (console_of t)"
    and "term_effect t (terminal_backspace t)"
proof -
  let ?t = "t\<lparr>terminal_column := terminal_column t - 1\<rparr>"
  have ok: "term_ok ?t" using assms by (auto simp: term_ok_def)
  have cof: "console_of ?t = (console_of t)\<lparr>ccol := ccol (console_of t) - 1\<rparr>"
    by simp
  have bk: "terminal_backspace t =
      terminal_put_entry_at 0x20 (terminal_color t) (terminal_column t - 1) (terminal_row t) ?t"
    if "terminal_column t \<noteq> 0"
    using that by (simp add: terminal_backspace_def Let_def)
  have col: "terminal_column t - 1 < VGA_WIDTH" if "terminal_column t \<noteq> 0"
    using that assms by (auto simp: term_ok_def)
  show "console_of (terminal_backspace t) = console_backspace (console_of t)"
    using set_cell_refines [OF ok col, of "0x20" "terminal_color t"]
    by (cases "terminal_column t = 0")
      (simp_all add: bk cof console_backspace_def console_set_cell_def terminal_backspace_def
        console_of_def)
  show "term_effect t (terminal_backspace t)"
    using put_effect [OF ok col, of "0x20" "terminal_color t"] assms
    by (cases "terminal_column t = 0")
      (auto simp: bk terminal_backspace_def term_effect_def touches_def shell_area_def)
qed

section \<open>Sequences of operations\<close>

text \<open>
  Any operation with \<open>term_effect\<close> whose console counterpart is known can be composed:
  printing a string, a number or a line is a sequence of \<open>terminal_write_char\<close>.
\<close>

locale screen_op =
  fixes op :: "'a \<Rightarrow> terminal \<Rightarrow> terminal"
    and console_op :: "'a \<Rightarrow> console \<Rightarrow> console"
  assumes op_refines: "term_ok t \<Longrightarrow> console_of (op a t) = console_op a (console_of t)"
    and op_effect: "term_ok t \<Longrightarrow> term_effect t (op a t)"
begin

lemma fold_effect: "term_ok t \<Longrightarrow> term_effect t (fold op as t)"
proof (induction as arbitrary: t)
  case Nil
  then show ?case by (simp add: term_effect_refl)
next
  case (Cons a as)
  have "term_effect t (op a t)" by (rule op_effect [OF Cons.prems])
  moreover from this have "term_effect (op a t) (fold op as (op a t))"
    by (intro Cons.IH) (simp add: term_effect_def)
  ultimately show ?case by (simp add: term_effect_trans)
qed

lemma fold_refines: "term_ok t \<Longrightarrow> console_of (fold op as t) = fold console_op as (console_of t)"
proof (induction as arbitrary: t)
  case Nil
  then show ?case by simp
next
  case (Cons a as)
  then have "term_ok (op a t)" using op_effect [OF Cons.prems] by (simp add: term_effect_def)
  with Cons.IH [OF this] op_refines [OF Cons.prems] show ?case by simp
qed

end

interpretation write_op: screen_op terminal_write_char console_write_char
  by unfold_locales (simp_all add: write_char_refines)

lemma write_refines:
  "term_ok t \<Longrightarrow> console_of (terminal_write s t) = console_write s (console_of t)"
  unfolding terminal_write_def console_write_def by (rule write_op.fold_refines)

lemma write_effect: "term_ok t \<Longrightarrow> term_effect t (terminal_write s t)"
  unfolding terminal_write_def by (rule write_op.fold_effect)

lemma terminal_writeln_write: "terminal_writeln s = terminal_write (s @ [10])"
  by (simp add: terminal_writeln_def terminal_write_def fun_eq_iff)

lemma terminal_write_append: "terminal_write (s @ s') t = terminal_write s' (terminal_write s t)"
  by (simp add: terminal_write_def)

section \<open>Numbers on the terminal\<close>

interpretation term_sink: char_sink "\<lambda>c t. Some (terminal_write_char c t)"
    "\<lambda>s t. Some (terminal_write s t)"
  by unfold_locales (simp_all add: terminal_write_def)

lemma put_all_terminal:
  "put_all (\<lambda>c t. Some (terminal_write_char c t)) s t = Some (terminal_write s t)"
  by (induction s arbitrary: t) (simp_all add: terminal_write_def)

lemma write_uint64_numeral: "terminal_write_uint64 v = terminal_write (dec_numeral (unat v))"
  by (rule ext, cases "v = 0")
    (simp_all add: terminal_write_uint64_def dec_numeral_0 fill_decimal64_numeral terminal_write_def)

lemma write_uint_numeral: "terminal_write_uint v = terminal_write (dec_numeral (unat v))"
  by (rule ext, cases "v = 0")
    (simp_all add: terminal_write_uint_def dec_numeral_0 fill_decimal32_numeral terminal_write_def)

lemma write_hex8_numeral: "terminal_write_hex8 v = terminal_write (hex_numeral8 v)"
  by (rule ext)
    (simp add: terminal_write_hex8_def terminal_write_nibble_def terminal_write_def
      flip: nibble_chars)

lemma write_hex32_numeral: "terminal_write_hex32 v = terminal_write (hex_numeral32 v)"
  by (rule ext)
    (simp add: terminal_write_hex32_def hex_numeral32_def hex_bytes write_hex8_numeral
      terminal_write_append Let_def)

section \<open>Properties\<close>

text \<open>A terminal with a blank screen and a header of six rows, for the witnesses.\<close>

definition blank_terminal :: terminal where
  "blank_terminal = \<lparr>vga = (\<lambda>_. vga_entry 0x20 7), terminal_row = 6, terminal_column = 0,
     terminal_color = 7, reserved_rows = 6\<rparr>"

lemma blank_terminal_ok: "term_ok blank_terminal"
  by (simp add: term_ok_def blank_terminal_def vga_dims)

text \<open>
  C16 (terminal_write_refines): printing any text, with its newlines, carriage returns, line
  wraps and scrolling, does to the screen what the abstract console does to its lines, and
  \<open>terminal_backspace\<close> what the console's does.
\<close>

theorem terminal_write_refines:
  assumes "term_ok t"
  shows "console_of (terminal_write s t) = console_write s (console_of t) \<and>
    console_of (terminal_writeln s t) = console_write (s @ [10]) (console_of t) \<and>
    console_of (terminal_backspace t) = console_backspace (console_of t)"
  using write_refines [OF assms] backspace_refines(1) [OF assms] by (simp add: terminal_writeln_write)

lemma terminal_write_refines_witness:
  "crow (console_of (terminal_write [10, 10] blank_terminal)) = 2"
proof -
  have "length (lines (console_of blank_terminal)) = 19" "crow (console_of blank_terminal) = 0"
    by (simp_all add: console_of_def blank_terminal_def vga_dims)
  with terminal_write_refines [OF blank_terminal_ok, of "[10, 10]"] show ?thesis
    by (simp add: console_write_def console_write_char_def console_newline_def)
qed

text \<open>
  C22 (terminal_stays_in_shell_area): whatever is printed or erased, and however often the
  screen scrolls, no cell outside the shell area is written: neither the header rows nor
  anything past the 2000 cells of the screen; and the cursor stays where the next write is in
  bounds.
\<close>

theorem terminal_stays_in_shell_area:
  assumes "term_ok t" and "i < reserved_rows t * VGA_WIDTH \<or> VGA_HEIGHT * VGA_WIDTH \<le> i"
  shows "vga (terminal_write s t) i = vga t i \<and> vga (terminal_backspace t) i = vga t i \<and>
    term_ok (terminal_write s t) \<and> term_ok (terminal_backspace t) \<and>
    reserved_rows (terminal_write s t) = reserved_rows t"
proof -
  have "i \<notin> shell_area t" using assms(2) by (auto simp: shell_area_def)
  with write_effect [OF assms(1), of s] backspace_refines(2) [OF assms(1)] show ?thesis
    by (auto simp: term_effect_def touches_def)
qed

lemma terminal_stays_in_shell_area_witness:
  "vga (terminal_write (replicate 5000 65) blank_terminal) 479 = vga_entry 0x20 7"
  using terminal_stays_in_shell_area [OF blank_terminal_ok, of 479 "replicate 5000 65"]
  by (simp add: blank_terminal_def vga_dims)

text \<open>
  C34 (terminal_numbers): the number routines print the shortest decimal numeral of the number
  and the fixed-width upper-case hexadecimal one; the digits they collect fit in the local
  buffers of 21 and 11 bytes, and reading the decimal numeral back gives the number.
\<close>

theorem terminal_numbers:
  "terminal_write_uint64 v t = terminal_write (dec_numeral (unat v)) t \<and>
   terminal_write_uint w t = terminal_write (dec_numeral (unat w)) t \<and>
   terminal_write_hex8 b t = terminal_write (hex_numeral8 b) t \<and>
   terminal_write_hex32 w t = terminal_write (hex_numeral32 w) t \<and>
   dec_value (dec_numeral (unat v)) = unat v \<and>
   length (fill_decimal64 v) < 21 \<and> length (fill_decimal32 w) < 11"
  using fill_decimal64_fits [of v] fill_decimal32_fits [of w] dec_value_numeral [of "unat v"]
  by (simp add: write_uint64_numeral write_uint_numeral write_hex8_numeral write_hex32_numeral)

end
