(* ===== verification/Serial.thy ===== *)
theory Serial
  imports Port_IO Number_Format
begin

text \<open>
  The COM1 driver, kernel/src/serial.c. \<open>serial_write_char\<close> polls the line status register
  until the transmitter is empty: it returns exactly when the device reports so after
  finitely many polls (\<open>gets_ready\<close>), and \<open>None\<close> is a poll that never ends.
\<close>

definition COM1_PORT :: u16 where "COM1_PORT = 0x3F8"
definition LINE_STATUS :: u16 where "LINE_STATUS = 0x3FD"

definition serial_init :: "history \<Rightarrow> history" where
  "serial_init tr =
     (let t1 = outb (COM1_PORT + 1) 0x00 tr;
          t2 = outb (COM1_PORT + 3) 0x80 t1;
          t3 = outb (COM1_PORT + 0) 0x03 t2;
          t4 = outb (COM1_PORT + 1) 0x00 t3;
          t5 = outb (COM1_PORT + 3) 0x03 t4;
          t6 = outb (COM1_PORT + 2) 0xC7 t5
      in outb (COM1_PORT + 4) 0x0B t6)"

partial_function (option) serial_write_char :: "device \<Rightarrow> u8 \<Rightarrow> history \<Rightarrow> history option" where
  "serial_write_char dev character tr =
     (case inb dev (COM1_PORT + 5) tr of (status, tr') \<Rightarrow>
        if status AND 0x20 = 0 then serial_write_char dev character tr'
        else Some (outb COM1_PORT character tr'))"

fun serial_write :: "device \<Rightarrow> bytes \<Rightarrow> history \<Rightarrow> history option" where
  "serial_write dev [] tr = Some tr"
| "serial_write dev (c # cs) tr =
     do { tr1 \<leftarrow> (if c = 10 then serial_write_char dev 13 tr else Some tr);
          tr2 \<leftarrow> serial_write_char dev c tr1;
          serial_write dev cs tr2 }"

definition serial_writeln :: "device \<Rightarrow> bytes \<Rightarrow> history \<Rightarrow> history option" where
  "serial_writeln dev text tr =
     do { tr1 \<leftarrow> serial_write dev text tr; serial_write dev [10] tr1 }"

definition serial_write_nibble :: "device \<Rightarrow> u8 \<Rightarrow> history \<Rightarrow> history option" where
  "serial_write_nibble dev value = serial_write_char dev (nibble_char value)"

definition serial_write_hex8 :: "device \<Rightarrow> u8 \<Rightarrow> history \<Rightarrow> history option" where
  "serial_write_hex8 dev value tr =
     do { tr1 \<leftarrow> serial_write_nibble dev (drop_bit 4 value) tr;
          serial_write_nibble dev value tr1 }"

definition serial_write_hex32 :: "device \<Rightarrow> u32 \<Rightarrow> history \<Rightarrow> history option" where
  "serial_write_hex32 dev value tr =
     do { tr1 \<leftarrow> serial_write dev (chars ''0x'') tr;
          tr2 \<leftarrow> serial_write_hex8 dev (ucast (drop_bit 24 value)) tr1;
          tr3 \<leftarrow> serial_write_hex8 dev (ucast (drop_bit 16 value)) tr2;
          tr4 \<leftarrow> serial_write_hex8 dev (ucast (drop_bit 8 value)) tr3;
          serial_write_hex8 dev (ucast value) tr4 }"

definition serial_write_uint64 :: "device \<Rightarrow> u64 \<Rightarrow> history \<Rightarrow> history option" where
  "serial_write_uint64 dev value tr =
     (if value = 0 then serial_write_char dev 0x30 tr
      else put_all (serial_write_char dev) (rev (fill_decimal64 value)) tr)"

section \<open>When a write returns\<close>

text \<open>The transmitter reports itself empty after finitely many polls from this history.\<close>

inductive gets_ready :: "device \<Rightarrow> history \<Rightarrow> bool" for dev where
  now: "dev_in8 dev tr LINE_STATUS AND 0x20 \<noteq> 0 \<Longrightarrow> gets_ready dev tr"
| later: "gets_ready dev (tr @ [In8 LINE_STATUS (dev_in8 dev tr LINE_STATUS)]) \<Longrightarrow> gets_ready dev tr"

text \<open>The ports of the serial line.\<close>

definition uart_ports :: "u16 set" where
  "uart_ports = {0x3F8, 0x3F9, 0x3FA, 0x3FB, 0x3FC, 0x3FD}"

abbreviation uart_only :: "history \<Rightarrow> history \<Rightarrow> bool" where
  "uart_only \<equiv> only_ports uart_ports"

lemma uart_members [simp]: "COM1_PORT \<in> uart_ports" "LINE_STATUS \<in> uart_ports"
  by (simp_all add: uart_ports_def COM1_PORT_def LINE_STATUS_def)

lemma serial_init_uart: "uart_only tr (serial_init tr)"
  by (simp add: only_ports_def serial_init_def outb_def Let_def COM1_PORT_def uart_ports_def)

definition uart_live :: "device \<Rightarrow> bool" where
  "uart_live dev \<longleftrightarrow> (\<forall>tr. gets_ready dev tr)"

lemma serial_write_char_step:
  "serial_write_char dev c tr =
     (let v = dev_in8 dev tr LINE_STATUS; tr' = tr @ [In8 LINE_STATUS v]
      in if v AND 0x20 = 0 then serial_write_char dev c tr' else Some (outb COM1_PORT c tr'))"
  by (subst serial_write_char.simps)
    (simp add: inb_def Let_def COM1_PORT_def LINE_STATUS_def)

lemma serial_write_char_returns:
  "gets_ready dev tr \<Longrightarrow>
     \<exists>tr'. serial_write_char dev c tr = Some tr' \<and> uart_only tr tr' \<and>
       out_bytes COM1_PORT tr' = out_bytes COM1_PORT tr @ [c]"
proof (induction rule: gets_ready.induct)
  case (now tr)
  then show ?case
    by (subst serial_write_char_step) (auto simp: Let_def outb_def only_ports_def)
next
  case (later tr)
  show ?case
  proof (cases "dev_in8 dev tr LINE_STATUS AND 0x20 = 0")
    case False
    then show ?thesis
      by (subst serial_write_char_step) (auto simp: Let_def outb_def only_ports_def)
  next
    case True
    let ?tr = "tr @ [In8 LINE_STATUS (dev_in8 dev tr LINE_STATUS)]"
    have "uart_only tr ?tr" by (simp add: only_ports_append)
    with later.IH True show ?thesis
      by (subst serial_write_char_step) (auto simp: Let_def intro: only_ports_trans)
  qed
qed

lemma serial_write_char_only_when_ready:
  assumes ret: "serial_write_char dev c tr = Some tr'"
  shows "gets_ready dev tr"
proof (rule serial_write_char.raw_induct [where P = "\<lambda>dev c tr tr'. gets_ready dev tr", OF _ ret])
  fix f dev c tr tr'
  assume IH: "\<And>dev c tr tr'. f dev c tr = Some tr' \<Longrightarrow> gets_ready dev tr"
    and eq: "(case inb dev (COM1_PORT + 5) tr of (status, tr'') \<Rightarrow>
        if status AND 0x20 = 0 then f dev c tr'' else Some (outb COM1_PORT c tr'')) = Some tr'"
  have port: "COM1_PORT + 5 = LINE_STATUS" by (simp add: COM1_PORT_def LINE_STATUS_def)
  show "gets_ready dev tr"
  proof (cases "dev_in8 dev tr LINE_STATUS AND 0x20 = 0")
    case True
    with eq have "f dev c (tr @ [In8 LINE_STATUS (dev_in8 dev tr LINE_STATUS)]) = Some tr'"
      by (simp add: inb_def Let_def port)
    then have "gets_ready dev (tr @ [In8 LINE_STATUS (dev_in8 dev tr LINE_STATUS)])" by (rule IH)
    then show ?thesis by (rule gets_ready.later)
  next
    case False
    then show ?thesis by (rule gets_ready.now)
  qed
qed

section \<open>What arrives at the other end\<close>

text \<open>Each newline is sent as a carriage return and a newline.\<close>

fun crlf :: "bytes \<Rightarrow> bytes" where
  "crlf [] = []"
| "crlf (c # cs) = (if c = 10 then [13, 10] else [c]) @ crlf cs"

lemma crlf_append: "crlf (xs @ ys) = crlf xs @ crlf ys"
  by (induction xs) auto

lemma crlf_plain: "10 \<notin> set xs \<Longrightarrow> crlf xs = xs"
  by (induction xs) auto

text \<open>
  \<open>sends dev f s\<close>: on a live transmitter the action \<open>f\<close> returns, accesses no port but those of
  the serial line, and sends the bytes \<open>s\<close>.
\<close>

definition sends :: "device \<Rightarrow> (history \<Rightarrow> history option) \<Rightarrow> bytes \<Rightarrow> bool" where
  "sends dev f s \<longleftrightarrow>
     (\<forall>tr. \<exists>tr'. f tr = Some tr' \<and> uart_only tr tr' \<and>
        out_bytes COM1_PORT tr' = out_bytes COM1_PORT tr @ s)"

lemma sends_char: "uart_live dev \<Longrightarrow> sends dev (serial_write_char dev c) [c]"
  by (simp add: sends_def uart_live_def serial_write_char_returns)

lemma sends_return: "sends dev Some []"
  by (simp add: sends_def)

lemma sends_seq:
  assumes "sends dev f s" and "sends dev g s'"
  shows "sends dev (\<lambda>tr. Option.bind (f tr) g) (s @ s')"
  unfolding sends_def
proof
  fix tr
  obtain tr1 where 1: "f tr = Some tr1" "uart_only tr tr1"
    "out_bytes COM1_PORT tr1 = out_bytes COM1_PORT tr @ s"
    using assms(1) by (auto simp: sends_def)
  obtain tr2 where 2: "g tr1 = Some tr2" "uart_only tr1 tr2"
    "out_bytes COM1_PORT tr2 = out_bytes COM1_PORT tr1 @ s'"
    using assms(2) by (auto simp: sends_def)
  from 1 2 show "\<exists>tr'. Option.bind (f tr) g = Some tr' \<and> uart_only tr tr' \<and>
      out_bytes COM1_PORT tr' = out_bytes COM1_PORT tr @ s @ s'"
    by (auto intro: only_ports_trans)
qed

lemma sends_write: "uart_live dev \<Longrightarrow> sends dev (serial_write dev s) (crlf s)"
proof (induction s)
  case Nil
  then show ?case by (simp add: sends_def)
next
  case (Cons c cs)
  have "serial_write dev (c # cs) = (\<lambda>tr. Option.bind
      ((\<lambda>tr. Option.bind ((if c = 10 then serial_write_char dev 13 else Some) tr)
         (serial_write_char dev c)) tr) (serial_write dev cs))"
    by (rule ext) simp
  moreover have "sends dev (if c = 10 then serial_write_char dev 13 else Some)
      (if c = 10 then [13] else [])"
    using Cons.prems by (simp add: sends_char sends_return)
  from sends_seq [OF sends_seq [OF this sends_char [OF Cons.prems]] Cons.IH [OF Cons.prems]]
  have "sends dev (\<lambda>tr. Option.bind
      ((\<lambda>tr. Option.bind ((if c = 10 then serial_write_char dev 13 else Some) tr)
         (serial_write_char dev c)) tr) (serial_write dev cs))
      (((if c = 10 then [13] else []) @ [c]) @ crlf cs)" .
  ultimately show ?case by (auto split: if_splits)
qed

lemma sends_writeln: "uart_live dev \<Longrightarrow> sends dev (serial_writeln dev s) (crlf s @ [13, 10])"
  using sends_seq [OF sends_write sends_write, of dev s "[10]"]
  by (simp add: serial_writeln_def [abs_def])

interpretation serial_sink: char_sink "serial_write_char dev" "serial_write dev" for dev
  by unfold_locales simp_all

lemma serial_uint64_numeral: "serial_write_uint64 dev v = serial_write dev (dec_numeral (unat v))"
proof
  fix tr
  show "serial_write_uint64 dev v tr = serial_write dev (dec_numeral (unat v)) tr"
    using serial_sink.put_all_decimal64 [of dev v tr]
    by (auto simp: serial_write_uint64_def)
qed

lemma sends_uint64:
  assumes "uart_live dev"
  shows "sends dev (serial_write_uint64 dev v) (dec_numeral (unat v))"
proof -
  have "10 \<notin> set (dec_numeral (unat v))"
    using dec_numeral_digits [of 10 "unat v"] by (auto simp: is_digit_def)
  then show ?thesis
    using sends_write [OF assms, of "dec_numeral (unat v)"]
    by (simp add: serial_uint64_numeral crlf_plain)
qed

section \<open>Properties\<close>

text \<open>
  C33 (serial_write_char_iff_ready): \<open>serial_write_char\<close> returns exactly when the line status
  register reports an empty transmitter after finitely many polls; when it returns it has sent
  the one character, and otherwise it polls forever.
\<close>

theorem serial_write_char_iff_ready:
  "(serial_write_char dev c tr \<noteq> None \<longleftrightarrow> gets_ready dev tr) \<and>
   (\<forall>tr'. serial_write_char dev c tr = Some tr' \<longrightarrow>
      out_bytes COM1_PORT tr' = out_bytes COM1_PORT tr @ [c])"
  using serial_write_char_returns [of dev tr c] serial_write_char_only_when_ready [of dev c tr]
  by fastforce

lemma serial_write_char_iff_ready_witness:
  "serial_write_char \<lparr>dev_in8 = \<lambda>_ _. 0, dev_in16 = \<lambda>_ _. 0\<rparr> 65 [] = None \<and>
   serial_write_char \<lparr>dev_in8 = \<lambda>_ _. 0x20, dev_in16 = \<lambda>_ _. 0\<rparr> 65 [] \<noteq> None"
proof -
  let ?dev = "\<lparr>dev_in8 = \<lambda>_ _. 0, dev_in16 = \<lambda>_ _. 0\<rparr>"
  have "gets_ready ?dev tr \<Longrightarrow> False" for tr by (induction rule: gets_ready.induct) simp_all
  moreover have "gets_ready \<lparr>dev_in8 = \<lambda>_ _. 0x20, dev_in16 = \<lambda>_ _. 0\<rparr> []"
    by (rule gets_ready.now) simp
  ultimately show ?thesis using serial_write_char_iff_ready by blast
qed

text \<open>
  On a transmitter that always becomes ready again, \<open>serial_writeln\<close>
  and \<open>serial_write_uint64\<close> return and send exactly the text with every newline as carriage
  return and newline, a line end, and the shortest decimal numeral of the number.
\<close>

lemma serial_log_lines:
  assumes "uart_live dev"
  shows "(\<exists>tr'. serial_writeln dev s tr = Some tr' \<and>
      out_bytes COM1_PORT tr' = out_bytes COM1_PORT tr @ crlf s @ [13, 10]) \<and>
    (\<exists>tr'. serial_write_uint64 dev v tr = Some tr' \<and>
      out_bytes COM1_PORT tr' = out_bytes COM1_PORT tr @ dec_numeral (unat v) \<and>
      dec_value (dec_numeral (unat v)) = unat v)"
  using sends_writeln [OF assms, of s] sends_uint64 [OF assms, of v] dec_value_numeral [of "unat v"]
  unfolding sends_def by blast

lemma serial_log_lines_witness:
  "\<exists>tr'. serial_writeln \<lparr>dev_in8 = \<lambda>_ _. 0x20, dev_in16 = \<lambda>_ _. 0\<rparr> (chars ''up'') [] = Some tr' \<and>
     out_bytes COM1_PORT tr' = chars ''up'' @ [13, 10]"
proof -
  have "uart_live \<lparr>dev_in8 = \<lambda>_ _. 0x20, dev_in16 = \<lambda>_ _. 0\<rparr>"
    by (simp add: uart_live_def gets_ready.now)
  from serial_log_lines [OF this, of "chars ''up''" "[]"] show ?thesis
    by (simp add: chars_def)
qed

end
