(* ===== verification/Boot_Info.thy ===== *)
theory Boot_Info
  imports Prelude
begin

text \<open>
  The structure the boot loader hands to the kernel, kernel/include/boot_info.h. A
  \<open>const BootInfo *\<close> that may be null is an option.
\<close>

record BootInfo =
  magic :: u32
  stage2_sectors :: u32
  kernel_sectors :: u32
  boot_flags :: u32
  boot_drive :: u8
  boot_reserved :: bytes
  boot_appfs_lba :: u32
  boot_appfs_sectors :: u32
  mapped_memory_mb :: u32

definition SNSX_BOOTINFO_MAGIC :: u32 where "SNSX_BOOTINFO_MAGIC = 0x534E5358"

end
