(* ===== verification/Page_Allocator.thy ===== *)
theory Page_Allocator
  imports Phys_Memory
begin

text \<open>
  The physical page allocator, the first half of kernel/src/memory.c: a bitmap with one bit
  per 4 KiB page and a first-fit search for a run of free pages. Page numbers are natural
  numbers below 16384; addresses and byte counts keep their 64 bits.
\<close>

section \<open>State and operations\<close>

definition SNSX_PAGE_SIZE :: u64 where "SNSX_PAGE_SIZE = 4096"
definition SNSX_APP_WINDOW_START :: u64 where "SNSX_APP_WINDOW_START = 0x00400000"
definition SNSX_APP_WINDOW_SIZE :: u64 where "SNSX_APP_WINDOW_SIZE = 0x00400000"
definition SNSX_MAX_PAGES :: nat where "SNSX_MAX_PAGES = 16384"
definition SNSX_HEAP_PAGES :: u64 where "SNSX_HEAP_PAGES = 256"

record memory_state =
  page_bitmap :: bytes
  total_page_count :: u64
  heap_head :: u64
  heap_total_bytes :: u64

definition memory_zero :: memory_state where
  "memory_zero = \<lparr>page_bitmap = replicate (SNSX_MAX_PAGES div 8) 0, total_page_count = 0,
     heap_head = 0, heap_total_bytes = 0\<rparr>"

definition align_down_uintptr :: "u64 \<Rightarrow> u64 \<Rightarrow> u64" where
  "align_down_uintptr value alignment = value AND NOT (alignment - 1)"

definition align_up_uintptr :: "u64 \<Rightarrow> u64 \<Rightarrow> u64" where
  "align_up_uintptr value alignment = (value + alignment - 1) AND NOT (alignment - 1)"

definition bitmap_test :: "memory_state \<Rightarrow> nat \<Rightarrow> bool" where
  "bitmap_test mm index \<longleftrightarrow> (page_bitmap mm ! (index div 8)) AND push_bit (index mod 8) 1 \<noteq> 0"

definition bitmap_set :: "nat \<Rightarrow> bool \<Rightarrow> memory_state \<Rightarrow> memory_state" where
  "bitmap_set index used mm =
     (let mask = push_bit (index mod 8) 1; old = page_bitmap mm ! (index div 8) in
      mm\<lparr>page_bitmap := (page_bitmap mm)[index div 8 :=
          (if used then old OR mask else old AND NOT mask)]\<rparr>)"

definition mark_range :: "u64 \<Rightarrow> u64 \<Rightarrow> bool \<Rightarrow> memory_state \<Rightarrow> memory_state" where
  "mark_range start stop used mm =
     (let first_page = unat (align_down_uintptr start SNSX_PAGE_SIZE div SNSX_PAGE_SIZE);
          last_page0 = unat (align_up_uintptr stop SNSX_PAGE_SIZE div SNSX_PAGE_SIZE);
          last_page = (if last_page0 > unat (total_page_count mm)
                       then unat (total_page_count mm) else last_page0)
      in fold (\<lambda>page. bitmap_set page used) [first_page..<last_page] mm)"

definition count_used_pages :: "memory_state \<Rightarrow> nat" where
  "count_used_pages mm =
     fold (\<lambda>page n. if bitmap_test mm page then n + 1 else n)
       [0..<unat (total_page_count mm)] 0"

text \<open>
  The search loop of \<open>page_alloc\<close>: \<open>page\<close> is the loop variable, \<open>run_start\<close> and \<open>run_length\<close>
  the run of free pages that ends just before it.
\<close>

function page_scan :: "memory_state \<Rightarrow> nat \<Rightarrow> nat \<Rightarrow> nat \<Rightarrow> nat \<Rightarrow> nat option" where
  "page_scan mm page_count page run_start run_length =
     (if page < unat (total_page_count mm) then
        (if \<not> bitmap_test mm page then
           (let run_start' = (if run_length = 0 then page else run_start);
                run_length' = run_length + 1
            in if run_length' = page_count then Some run_start'
               else page_scan mm page_count (page + 1) run_start' run_length')
         else page_scan mm page_count (page + 1) run_start 0)
      else None)"
  by pat_completeness auto
termination
  by (relation "measure (\<lambda>(mm, n, page, rs, rl). unat (total_page_count mm) - page)") auto

declare page_scan.simps [simp del]

definition page_alloc :: "u64 \<Rightarrow> memory_state \<Rightarrow> u64 \<times> memory_state" where
  "page_alloc page_count mm =
     (if page_count = 0 then (0, mm)
      else (case page_scan mm (unat page_count) 0 0 0 of
              None \<Rightarrow> (0, mm)
            | Some run_start \<Rightarrow>
                (of_nat run_start * SNSX_PAGE_SIZE,
                 fold (\<lambda>mark. bitmap_set mark True)
                   [run_start..<run_start + unat page_count] mm)))"

text \<open>
  The loop of \<open>page_free\<close> runs while the index is below the count and the page below the
  total; both bounds are fixed, so it visits a prefix of the range.
\<close>

definition page_free :: "u64 \<Rightarrow> u64 \<Rightarrow> memory_state \<Rightarrow> memory_state" where
  "page_free address page_count mm =
     (if address = 0 \<or> page_count = 0 then mm
      else (let page = unat (address div SNSX_PAGE_SIZE) in
            fold (\<lambda>index. bitmap_set (page + index) False)
              [0..<min (unat page_count) (unat (total_page_count mm) - page)] mm))"

definition memory_total_bytes :: "memory_state \<Rightarrow> u64" where
  "memory_total_bytes mm = total_page_count mm * SNSX_PAGE_SIZE"

definition memory_used_bytes :: "memory_state \<Rightarrow> u64" where
  "memory_used_bytes mm = of_nat (count_used_pages mm) * SNSX_PAGE_SIZE"

definition memory_free_bytes :: "memory_state \<Rightarrow> u64" where
  "memory_free_bytes mm = memory_total_bytes mm - memory_used_bytes mm"

section \<open>The bitmap as a set of pages\<close>

definition bitmap_ok :: "memory_state \<Rightarrow> bool" where
  "bitmap_ok mm \<longleftrightarrow>
     length (page_bitmap mm) = SNSX_MAX_PAGES div 8 \<and> unat (total_page_count mm) \<le> SNSX_MAX_PAGES"

definition used_pages :: "memory_state \<Rightarrow> nat set" where
  "used_pages mm = {p. p < unat (total_page_count mm) \<and> bitmap_test mm p}"

lemma bitmap_test_bit: "bitmap_test mm i \<longleftrightarrow> bit (page_bitmap mm ! (i div 8)) (i mod 8)"
  by (simp add: bitmap_test_def bit_iff_and_push_bit_not_eq_0)

lemma bitmap_set_fields [simp]:
  "total_page_count (bitmap_set i b mm) = total_page_count mm"
  "heap_head (bitmap_set i b mm) = heap_head mm"
  "heap_total_bytes (bitmap_set i b mm) = heap_total_bytes mm"
  "length (page_bitmap (bitmap_set i b mm)) = length (page_bitmap mm)"
  by (simp_all add: bitmap_set_def Let_def)

lemma bitmap_test_set:
  assumes "length (page_bitmap mm) = SNSX_MAX_PAGES div 8" and "i < SNSX_MAX_PAGES"
  shows "bitmap_test (bitmap_set i b mm) j \<longleftrightarrow> (if j = i then b else bitmap_test mm j)"
proof (cases "j div 8 = i div 8")
  case True
  have len: "i div 8 < length (page_bitmap mm)"
    using assms by (auto simp: SNSX_MAX_PAGES_def)
  have "j = i \<longleftrightarrow> j mod 8 = i mod 8" using True by (metis div_mod_decomp)
  then show ?thesis
    using True len
    by (auto simp: bitmap_test_bit bitmap_set_def Let_def bit_simps)
next
  case False
  then have "j \<noteq> i" by auto
  with False show ?thesis by (auto simp: bitmap_test_bit bitmap_set_def Let_def)
qed

lemma fold_bitmap_set_fields [simp]:
  "total_page_count (fold (\<lambda>p. bitmap_set (f p) b) ps mm) = total_page_count mm"
  "heap_head (fold (\<lambda>p. bitmap_set (f p) b) ps mm) = heap_head mm"
  "heap_total_bytes (fold (\<lambda>p. bitmap_set (f p) b) ps mm) = heap_total_bytes mm"
  "length (page_bitmap (fold (\<lambda>p. bitmap_set (f p) b) ps mm)) = length (page_bitmap mm)"
  by (induction ps arbitrary: mm) simp_all

lemma bitmap_test_fold:
  assumes "length (page_bitmap mm) = SNSX_MAX_PAGES div 8" and "f ` set ps \<subseteq> {..<SNSX_MAX_PAGES}"
  shows "bitmap_test (fold (\<lambda>p. bitmap_set (f p) b) ps mm) j \<longleftrightarrow>
    (if j \<in> f ` set ps then b else bitmap_test mm j)"
  using assms
  by (induction ps arbitrary: mm) (auto simp: bitmap_test_set)

lemma bitmap_ok_fold [simp]:
  "bitmap_ok (fold (\<lambda>p. bitmap_set (f p) b) ps mm) \<longleftrightarrow> bitmap_ok mm"
  by (simp add: bitmap_ok_def)

lemma used_pages_fold:
  assumes "bitmap_ok mm" and "f ` set ps \<subseteq> {..<unat (total_page_count mm)}"
  shows "used_pages (fold (\<lambda>p. bitmap_set (f p) b) ps mm) =
    (if b then used_pages mm \<union> f ` set ps else used_pages mm - f ` set ps)"
proof -
  have "f ` set ps \<subseteq> {..<SNSX_MAX_PAGES}" using assms by (auto simp: bitmap_ok_def)
  then show ?thesis
    using assms bitmap_test_fold [of mm f ps b] by (auto simp: used_pages_def bitmap_ok_def)
qed

lemmas used_pages_fold_id = used_pages_fold [of _ "\<lambda>p. p", unfolded image_ident]

lemma finite_used_pages [simp]: "finite (used_pages mm)"
  by (simp add: used_pages_def)

lemma used_pages_bound: "used_pages mm \<subseteq> {..<unat (total_page_count mm)}"
  by (auto simp: used_pages_def)

lemma count_used_pages_card: "count_used_pages mm = card (used_pages mm)"
proof -
  have "fold (\<lambda>page n. if bitmap_test mm page then n + 1 else n) [0..<k] 0 =
      card {p. p < k \<and> bitmap_test mm p}" for k
  proof (induction k)
    case 0
    then show ?case by simp
  next
    case (Suc k)
    have "{p. p < Suc k \<and> bitmap_test mm p} =
        (if bitmap_test mm k then insert k {p. p < k \<and> bitmap_test mm p}
         else {p. p < k \<and> bitmap_test mm p})"
      by (auto simp: less_Suc_eq)
    with Suc show ?case by simp
  qed
  then show ?thesis by (simp add: count_used_pages_def used_pages_def)
qed

section \<open>Alignment\<close>

lemma clear_low_bits: "(x :: u64) AND NOT (mask n) = push_bit n (drop_bit n x)"
  by (rule bit_eqI) (auto simp: bit_simps)

lemma unat_clear_low_bits: "unat ((x :: u64) AND NOT (mask n)) = unat x div 2 ^ n * 2 ^ n"
proof -
  have "unat (push_bit n (drop_bit n x)) = take_bit 64 (push_bit n (drop_bit n (unat x)))"
    by (simp add: unsigned_push_bit_eq unat_drop_bit_eq)
  also have "\<dots> = unat x div 2 ^ n * 2 ^ n mod 2 ^ 64"
    by (simp only: push_bit_eq_mult drop_bit_eq_div take_bit_eq_mod)
  finally have "unat (push_bit n (drop_bit n x)) = unat x div 2 ^ n * 2 ^ n mod 2 ^ 64" .
  moreover have "unat x div 2 ^ n * 2 ^ n \<le> unat x" by simp
  then have "unat x div 2 ^ n * 2 ^ n < 2 ^ 64"
    by (rule le_less_trans) (use unat_u64_bound [of x] in simp)
  ultimately show ?thesis by (simp only: clear_low_bits mod_less)
qed

lemma unat_align_down:
  "unat (align_down_uintptr v 16) = unat v div 16 * 16"
  "unat (align_down_uintptr v SNSX_PAGE_SIZE) = unat v div 4096 * 4096"
proof -
  have "(16 - 1 :: u64) = mask 4" "(SNSX_PAGE_SIZE - 1 :: u64) = mask 12"
    by (simp_all add: mask_eq_exp_minus_1 SNSX_PAGE_SIZE_def)
  then show "unat (align_down_uintptr v 16) = unat v div 16 * 16"
  "unat (align_down_uintptr v SNSX_PAGE_SIZE) = unat v div 4096 * 4096"
    unfolding align_down_uintptr_def by (simp_all only: unat_clear_low_bits) simp_all
qed

lemma align_up_eq_down: "align_up_uintptr v al = align_down_uintptr (v + al - 1) al"
  by (simp add: align_up_uintptr_def align_down_uintptr_def)

lemma unat_align_up:
  "unat v + 15 < 18446744073709551616 \<Longrightarrow>
     unat (align_up_uintptr v 16) = (unat v + 15) div 16 * 16"
  "unat v + 4095 < 18446744073709551616 \<Longrightarrow>
     unat (align_up_uintptr v SNSX_PAGE_SIZE) = (unat v + 4095) div 4096 * 4096"
  using unat_add_of_nat_u64 [of v 15] unat_add_of_nat_u64 [of v 4095] add.commute [of v]
  by (simp_all add: align_up_eq_down unat_align_down, simp_all add: SNSX_PAGE_SIZE_def)

section \<open>First fit\<close>

text \<open>A run of \<open>n\<close> free pages below the total starts at page \<open>r\<close>.\<close>

definition free_run :: "memory_state \<Rightarrow> nat \<Rightarrow> nat \<Rightarrow> bool" where
  "free_run mm n r \<longleftrightarrow>
     r + n \<le> unat (total_page_count mm) \<and> (\<forall>p. r \<le> p \<and> p < r + n \<longrightarrow> \<not> bitmap_test mm p)"

definition is_first_run :: "memory_state \<Rightarrow> nat \<Rightarrow> nat option \<Rightarrow> bool" where
  "is_first_run mm n res \<longleftrightarrow>
     (case res of
        Some r \<Rightarrow> free_run mm n r \<and> (\<forall>r' < r. \<not> free_run mm n r')
      | None \<Rightarrow> \<forall>r. \<not> free_run mm n r)"

lemma page_scan_first:
  assumes "run_length < n" and "run_length \<le> page"
    and "run_length > 0 \<Longrightarrow> run_start = page - run_length"
    and "\<And>p. page - run_length \<le> p \<Longrightarrow> p < page \<Longrightarrow> \<not> bitmap_test mm p"
    and "\<And>r. r < page - run_length \<Longrightarrow> \<not> free_run mm n r"
  shows "is_first_run mm n (page_scan mm n page run_start run_length)"
  using assms
proof (induction mm n page run_start run_length rule: page_scan.induct)
  case (1 mm n page rs rl)
  note prems = 1(3-7)
  let ?r = "page - rl"
  show ?case
  proof (cases "page < unat (total_page_count mm)")
    case False
    have "\<not> free_run mm n r" for r
    proof (cases "r < ?r")
      case True
      then show ?thesis by (rule prems(5))
    next
      case False
      with \<open>\<not> page < _\<close> prems(1,2) show ?thesis by (auto simp: free_run_def)
    qed
    then show ?thesis
      using False by (subst page_scan.simps) (simp add: is_first_run_def)
  next
    case inside: True
    show ?thesis
    proof (cases "bitmap_test mm page")
      case True
      have "\<not> free_run mm n r" if "r < Suc page" for r
      proof (cases "r < ?r")
        case True
        then show ?thesis by (rule prems(5))
      next
        case False
        with that prems(1,2) \<open>bitmap_test mm page\<close> show ?thesis
          by (auto simp: free_run_def intro!: exI [of _ page])
      qed
      then have "is_first_run mm n (page_scan mm n (page + 1) rs 0)"
        using prems(1) by (intro 1(2) [OF inside]) (use True in auto)
      then show ?thesis using inside True by (subst page_scan.simps) simp
    next
      case free: False
      let ?rs = "if rl = 0 then page else rs"
      have rs: "?rs = ?r" using prems(3) by auto
      have run: "\<not> bitmap_test mm p" if "?r \<le> p" "p < Suc page" for p
        using that free prems(4) by (cases "p = page") auto
      show ?thesis
      proof (cases "rl + 1 = n")
        case True
        then have "free_run mm n ?r" using inside run prems(2) by (auto simp: free_run_def)
        with prems(5) show ?thesis
          using inside free True rs
          by (subst page_scan.simps) (simp add: is_first_run_def)
      next
        case False
        have "is_first_run mm n (page_scan mm n (page + 1) ?rs (rl + 1))"
          using prems(1,2,5) False rs run
          by (intro 1(1) [OF inside free refl refl False]) auto
        then show ?thesis using inside free False by (subst page_scan.simps) (simp add: Let_def)
      qed
    qed
  qed
qed

lemma page_scan_result: "0 < n \<Longrightarrow> is_first_run mm n (page_scan mm n 0 0 0)"
  by (rule page_scan_first) auto

section \<open>What the operations do to the set of used pages\<close>

text \<open>
  The allocator is sound when the bitmap has its size and page 0 is reserved, so that the
  address 0 of a failed call is not an address of a page.
\<close>

definition alloc_ok :: "memory_state \<Rightarrow> bool" where
  "alloc_ok mm \<longleftrightarrow> bitmap_ok mm \<and> bitmap_test mm 0"

definition page_addr :: "nat \<Rightarrow> u64" where
  "page_addr p = of_nat p * SNSX_PAGE_SIZE"

definition page_limit :: "memory_state \<Rightarrow> nat" where
  "page_limit mm = unat (total_page_count mm)"

lemma unat_page_addr: "p \<le> SNSX_MAX_PAGES \<Longrightarrow> unat (page_addr p) = p * 4096"
  by (simp add: page_addr_def SNSX_PAGE_SIZE_def SNSX_MAX_PAGES_def unat_word_ariths unat_of_nat)

lemma page_of_page_addr:
  "p \<le> SNSX_MAX_PAGES \<Longrightarrow> unat (page_addr p div SNSX_PAGE_SIZE) = p"
  by (simp add: unat_div unat_page_addr SNSX_PAGE_SIZE_def)

lemma page_addr_eq_0: "p \<le> SNSX_MAX_PAGES \<Longrightarrow> page_addr p = 0 \<longleftrightarrow> p = 0"
  using unat_page_addr [of p] by (auto simp: page_addr_def)

lemma page_alloc_cases:
  assumes "bitmap_ok mm" and "n \<noteq> 0"
  obtains (fail) "\<forall>r. \<not> free_run mm (unat n) r" and "page_alloc n mm = (0, mm)"
  | (run) r where "free_run mm (unat n) r" and "\<forall>r' < r. \<not> free_run mm (unat n) r'"
      and "page_alloc n mm =
        (page_addr r, fold (\<lambda>p. bitmap_set p True) [r..<r + unat n] mm)"
proof (cases "page_scan mm (unat n) 0 0 0")
  case None
  with page_scan_result [of "unat n" mm] assms(2) show ?thesis
    by (intro fail) (auto simp: is_first_run_def page_alloc_def unat_gt_0)
next
  case (Some r)
  with page_scan_result [of "unat n" mm] assms(2) show ?thesis
    by (intro run [of r]) (auto simp: is_first_run_def page_alloc_def page_addr_def unat_gt_0)
qed

lemma free_run_unused: "free_run mm n r \<Longrightarrow> used_pages mm \<inter> {r..<r + n} = {}"
  by (auto simp: free_run_def used_pages_def)

lemma used_pages_alloc:
  assumes "bitmap_ok mm" and "free_run mm n r"
  shows "used_pages (fold (\<lambda>p. bitmap_set p True) [r..<r + n] mm) = used_pages mm \<union> {r..<r + n}"
proof -
  have "set [r..<r + n] \<subseteq> {..<unat (total_page_count mm)}"
    using assms(2) by (auto simp: free_run_def)
  from used_pages_fold_id [OF assms(1) this, of True] show ?thesis by simp
qed

lemma bitmap_test_used: "bitmap_ok mm \<Longrightarrow> 0 \<in> used_pages mm \<Longrightarrow> bitmap_test mm 0"
  by (simp add: used_pages_def)

text \<open>
  The contract of a page allocator, as its clients rely on it: a successful call returns
  the address of a run of pages that were free, and only marks that run. A client that
  makes several calls gets pairwise disjoint runs, all disjoint from what was reserved
  before (\<open>alloc_seq\<close>).
\<close>

fun alloc_all :: "('n \<Rightarrow> 's \<Rightarrow> 'a \<times> 's) \<Rightarrow> 'n list \<Rightarrow> 's \<Rightarrow> 'a list \<times> 's" where
  "alloc_all alloc [] s = ([], s)"
| "alloc_all alloc (n # ns) s =
     (let (a, s1) = alloc n s; (as, s2) = alloc_all alloc ns s1 in (a # as, s2))"

locale page_provider =
  fixes alloc :: "u64 \<Rightarrow> 's \<Rightarrow> u64 \<times> 's"
    and used :: "'s \<Rightarrow> nat set"
    and limit :: "'s \<Rightarrow> nat"
    and ok :: "'s \<Rightarrow> bool"
    and page :: "u64 \<Rightarrow> nat"
  assumes alloc_null: "ok s \<Longrightarrow> alloc n s = (0, s') \<Longrightarrow> s' = s"
    and alloc_fresh: "ok s \<Longrightarrow> alloc n s = (a, s') \<Longrightarrow> a \<noteq> 0 \<Longrightarrow>
      used s \<inter> {page a..<page a + unat n} = {} \<and> page a + unat n \<le> limit s \<and>
      used s' = used s \<union> {page a..<page a + unat n} \<and> limit s' = limit s"
    and alloc_keeps_ok: "ok s \<Longrightarrow> alloc n s = (a, s') \<Longrightarrow> ok s'"
begin

definition run_pages :: "u64 \<Rightarrow> u64 \<Rightarrow> nat set" where
  "run_pages a n = (if a = 0 then {} else {page a..<page a + unat n})"

lemma alloc_step:
  assumes "ok s" and "alloc n s = (a, s')"
  shows "used s \<inter> run_pages a n = {}" and "used s' = used s \<union> run_pages a n" and "ok s'"
  using assms alloc_null [OF assms(1), of n s'] alloc_fresh [OF assms] alloc_keeps_ok [OF assms]
  by (cases "a = 0"; simp add: run_pages_def)+

lemma alloc_seq:
  assumes "ok s" and "alloc_all alloc ns s = (as, s')"
  shows "length as = length ns \<and> ok s' \<and>
    used s' = used s \<union> (\<Union>i < length ns. run_pages (as ! i) (ns ! i)) \<and>
    (\<forall>i < length ns. used s \<inter> run_pages (as ! i) (ns ! i) = {}) \<and>
    (\<forall>i < length ns. \<forall>j < i. run_pages (as ! i) (ns ! i) \<inter> run_pages (as ! j) (ns ! j) = {})"
  using assms
proof (induction ns arbitrary: s as)
  case Nil
  then show ?case by simp
next
  case (Cons n ns)
  obtain a s1 where 1: "alloc n s = (a, s1)" by fastforce
  obtain as1 where 2: "alloc_all alloc ns s1 = (as1, s')" and as: "as = a # as1"
    using Cons.prems(2) 1 by (auto split: prod.splits)
  note step = alloc_step [OF Cons.prems(1) 1]
  note rest = Cons.IH [OF step(3) 2]
  have "(\<Union>i < length (n # ns). run_pages (as ! i) ((n # ns) ! i)) =
      run_pages a n \<union> (\<Union>i < length ns. run_pages (as1 ! i) (ns ! i))"
    by (auto simp: as lessThan_Suc_eq_insert_0)
  moreover have "run_pages (as ! i) ((n # ns) ! i) \<inter> used s = {}" if "i < length (n # ns)" for i
    using that rest step by (cases i) (auto simp: as)
  moreover have "run_pages (as ! i) ((n # ns) ! i) \<inter> run_pages (as ! j) ((n # ns) ! j) = {}"
    if "i < length (n # ns)" "j < i" for i j
    using that rest step by (cases i; cases j) (auto simp: as)
  ultimately show ?case using rest step by (auto simp: as Int_commute)
qed

end

lemma alloc_ok_mark:
  assumes "alloc_ok mm" and "free_run mm n r"
  shows "alloc_ok (fold (\<lambda>p. bitmap_set p True) [r..<r + n] mm)"
proof -
  have "{r..<r + n} \<subseteq> {..<SNSX_MAX_PAGES}"
    using assms by (auto simp: alloc_ok_def bitmap_ok_def free_run_def)
  then show ?thesis
    using assms bitmap_test_fold [of mm "\<lambda>p. p" "[r..<r + n]" True 0]
    by (auto simp: alloc_ok_def bitmap_ok_def)
qed

interpretation pages: page_provider page_alloc used_pages page_limit alloc_ok
    "\<lambda>a. unat (a div SNSX_PAGE_SIZE)"
proof unfold_locales
  fix mm mm' :: memory_state and n a :: u64
  assume ok: "alloc_ok mm"
  then have bok: "bitmap_ok mm" by (simp add: alloc_ok_def)
  have run0: "\<not> free_run mm (unat n) 0" if "n \<noteq> 0"
    using ok that by (auto simp: alloc_ok_def free_run_def unat_gt_0 intro!: exI [of _ 0])
  have small: "r \<le> SNSX_MAX_PAGES" if "free_run mm k r" for r k
    using that bok by (auto simp: free_run_def bitmap_ok_def)
  show "mm' = mm" if "page_alloc n mm = (0, mm')"
  proof (cases "n = 0")
    case True
    with that show ?thesis by (simp add: page_alloc_def)
  next
    case False
    from bok False show ?thesis
    proof (cases rule: page_alloc_cases)
      case fail
      with that show ?thesis by simp
    next
      case (run r)
      with that have "page_addr r = 0" by simp
      with small [OF run(1)] have "r = 0" by (simp add: page_addr_eq_0)
      with run(1) run0 [OF False] show ?thesis by simp
    qed
  qed
  show "used_pages mm \<inter> {unat (a div SNSX_PAGE_SIZE)..<unat (a div SNSX_PAGE_SIZE) + unat n} = {} \<and>
      unat (a div SNSX_PAGE_SIZE) + unat n \<le> page_limit mm \<and>
      used_pages mm' =
        used_pages mm \<union> {unat (a div SNSX_PAGE_SIZE)..<unat (a div SNSX_PAGE_SIZE) + unat n} \<and>
      page_limit mm' = page_limit mm"
    if "page_alloc n mm = (a, mm')" "a \<noteq> 0"
  proof -
    have "n \<noteq> 0" using that by (auto simp: page_alloc_def)
    from bok this show ?thesis
    proof (cases rule: page_alloc_cases)
      case fail
      with that show ?thesis by simp
    next
      case (run r)
      then have "unat (a div SNSX_PAGE_SIZE) = r"
        using that small [OF run(1)] by (auto simp: page_of_page_addr)
      with run that show ?thesis
        using free_run_unused [OF run(1)] used_pages_alloc [OF bok run(1)]
        by (auto simp: page_limit_def free_run_def)
    qed
  qed
  show "alloc_ok mm'" if "page_alloc n mm = (a, mm')"
  proof (cases "n = 0")
    case True
    with that ok show ?thesis by (simp add: page_alloc_def)
  next
    case False
    from bok False show ?thesis
      by (cases rule: page_alloc_cases) (use that ok alloc_ok_mark in auto)
  qed
qed

section \<open>Freeing\<close>

lemma page_free_fold:
  assumes "a \<noteq> 0" and "n \<noteq> 0"
  defines "p \<equiv> unat (a div SNSX_PAGE_SIZE)"
  shows "page_free a n mm = fold (\<lambda>i. bitmap_set (p + i) False)
    [0..<min (unat n) (unat (total_page_count mm) - p)] mm"
  using assms by (simp add: page_free_def Let_def)

lemma page_free_used:
  assumes "bitmap_ok mm" and "a \<noteq> 0" and "n \<noteq> 0"
  defines "p \<equiv> unat (a div SNSX_PAGE_SIZE)"
  shows "used_pages (page_free a n mm) = used_pages mm - {p..<p + unat n}"
    and "bitmap_ok (page_free a n mm)"
proof -
  let ?is = "[0..<min (unat n) (unat (total_page_count mm) - p)]"
  note eq = page_free_fold [OF assms(2,3), of mm, folded p_def]
  have "(\<lambda>i. p + i) ` set ?is \<subseteq> {..<unat (total_page_count mm)}" by auto
  from used_pages_fold [OF assms(1) this, of False]
  have "used_pages (page_free a n mm) = used_pages mm - (\<lambda>i. p + i) ` set ?is"
    unfolding eq by simp
  also have "\<dots> = used_pages mm - {p..<p + unat n}"
  proof -
    have "x \<in> (\<lambda>i. p + i) ` set ?is" if "x \<in> used_pages mm" "p \<le> x" "x < p + unat n" for x
      using that by (auto simp: used_pages_def intro!: image_eqI [of _ _ "x - p"])
    then show ?thesis by auto
  qed
  finally show "used_pages (page_free a n mm) = used_pages mm - {p..<p + unat n}" .
  show "bitmap_ok (page_free a n mm)" unfolding eq using assms(1) by simp
qed

text \<open>Two states with the same bits and the same other fields are equal.\<close>

lemma bitmap_eqI:
  assumes "length (page_bitmap mm) = length (page_bitmap mm')"
    and "\<And>j. j < 8 * length (page_bitmap mm) \<Longrightarrow> bitmap_test mm j = bitmap_test mm' j"
    and "total_page_count mm = total_page_count mm'" and "heap_head mm = heap_head mm'"
    and "heap_total_bytes mm = heap_total_bytes mm'"
  shows "mm = (mm' :: memory_state)"
proof -
  have "page_bitmap mm ! k = page_bitmap mm' ! k" if "k < length (page_bitmap mm)" for k
  proof (rule bit_word_eqI)
    fix i :: nat assume "i < LENGTH(8)"
    then have "i < 8" by simp
    then have "(8 * k + i) div 8 = k" "(8 * k + i) mod 8 = i" by simp_all
    with assms(2) [of "8 * k + i"] \<open>i < 8\<close> that
    show "bit (page_bitmap mm ! k) i = bit (page_bitmap mm' ! k) i"
      by (simp add: bitmap_test_bit)
  qed
  with assms show ?thesis by (intro memory_state.equality nth_equalityI) simp_all
qed

lemma unat_memory_bytes:
  assumes "bitmap_ok mm"
  shows "unat (memory_total_bytes mm) = 4096 * page_limit mm"
    and "unat (memory_used_bytes mm) = 4096 * card (used_pages mm)"
    and "card (used_pages mm) \<le> page_limit mm"
proof -
  have "card (used_pages mm) \<le> card {..<page_limit mm}"
    using used_pages_bound [of mm] by (intro card_mono) (auto simp: page_limit_def)
  then show c: "card (used_pages mm) \<le> page_limit mm" by simp
  have l: "page_limit mm \<le> 16384"
    using assms by (simp add: bitmap_ok_def page_limit_def SNSX_MAX_PAGES_def)
  then show "unat (memory_total_bytes mm) = 4096 * page_limit mm"
    by (simp add: memory_total_bytes_def SNSX_PAGE_SIZE_def unat_word_ariths page_limit_def)
  show "unat (memory_used_bytes mm) = 4096 * card (used_pages mm)"
    using c l by (simp add: memory_used_bytes_def count_used_pages_card SNSX_PAGE_SIZE_def
        unat_word_ariths unat_of_nat)
qed

section \<open>Properties\<close>

text \<open>
  C23 (page_alloc_first_fit): in a sound pool (the bitmap has its full length, the pool is no
  larger, and page 0 is reserved) \<open>page_alloc\<close> of a positive number of pages returns the
  lowest run of that many free pages below the pool's limit, and sets the bits of exactly
  those pages: every other bit of the bitmap, also past the limit, and every other variable of
  the allocator and the heap is as before. It returns the null address exactly when the pool
  has no such run, and then changes nothing.
\<close>

theorem page_alloc_first_fit:
  assumes "alloc_ok mm" and "n \<noteq> 0" and "page_alloc n mm = (a, mm')"
  shows "(a = 0 \<longleftrightarrow> (\<forall>r. \<not> free_run mm (unat n) r)) \<and> (a = 0 \<longrightarrow> mm' = mm) \<and>
    (a \<noteq> 0 \<longrightarrow> (\<exists>r. free_run mm (unat n) r \<and> (\<forall>r' < r. \<not> free_run mm (unat n) r') \<and>
       unat a = 4096 * r \<and> used_pages mm' = used_pages mm \<union> {r..<r + unat n} \<and>
       (\<forall>p. bitmap_test mm' p \<longleftrightarrow> p \<in> {r..<r + unat n} \<or> bitmap_test mm p) \<and>
       length (page_bitmap mm') = length (page_bitmap mm) \<and>
       mm' = mm\<lparr>page_bitmap := page_bitmap mm'\<rparr>))"
proof -
  have bok: "bitmap_ok mm" using assms(1) by (simp add: alloc_ok_def)
  from bok assms(2) show ?thesis
  proof (cases rule: page_alloc_cases)
    case fail
    with assms(3) show ?thesis by simp
  next
    case (run r)
    have r: "r + unat n \<le> SNSX_MAX_PAGES" using run(1) bok by (simp add: free_run_def bitmap_ok_def)
    have "r \<noteq> 0"
    proof
      assume "r = 0"
      with run(1) assms(1,2) show False by (auto simp: free_run_def alloc_ok_def unat_gt_0)
    qed
    have mm': "mm' = fold (\<lambda>p. bitmap_set p True) [r..<r + unat n] mm" and a: "a = page_addr r"
      using run(3) assms(3) by simp_all
    have "length (page_bitmap mm) = SNSX_MAX_PAGES div 8" using bok by (simp add: bitmap_ok_def)
    moreover have "(\<lambda>p. p) ` set [r..<r + unat n] \<subseteq> {..<SNSX_MAX_PAGES}" using r by auto
    ultimately have "bitmap_test mm' p \<longleftrightarrow> p \<in> {r..<r + unat n} \<or> bitmap_test mm p" for p
      unfolding mm' by (subst bitmap_test_fold) auto
    moreover have "mm' = mm\<lparr>page_bitmap := page_bitmap mm'\<rparr>"
      unfolding mm' by (intro memory_state.equality) (simp_all add: fold_bitmap_set_fields [of "\<lambda>p. p"])
    moreover have "length (page_bitmap mm') = length (page_bitmap mm)"
      unfolding mm' by (rule fold_bitmap_set_fields(4) [of "\<lambda>p. p"])
    moreover have "a \<noteq> 0" "unat a = 4096 * r"
      using r \<open>r \<noteq> 0\<close> by (simp_all add: a unat_page_addr page_addr_eq_0)
    moreover have "used_pages mm' = used_pages mm \<union> {r..<r + unat n}"
      unfolding mm' by (rule used_pages_alloc [OF bok run(1)])
    ultimately show ?thesis using run(1,2) by blast
  qed
qed

text \<open>A pool of four pages with page 0 and page 2 in use, for the witnesses.\<close>

definition small_pool :: memory_state where
  "small_pool = memory_zero\<lparr>page_bitmap := 5 # replicate 2047 0, total_page_count := 4\<rparr>"

lemma small_pool_tests:
  "alloc_ok small_pool" "bitmap_test small_pool 0" "\<not> bitmap_test small_pool 1"
  "bitmap_test small_pool 2" "\<not> bitmap_test small_pool 3"
  by (simp_all add: alloc_ok_def bitmap_ok_def small_pool_def memory_zero_def SNSX_MAX_PAGES_def
      bitmap_test_def)

lemma small_pool_alloc: "page_alloc 1 small_pool = (4096, bitmap_set 1 True small_pool)"
proof -
  have "unat (total_page_count small_pool) = 4" by (simp add: small_pool_def)
  then have "page_scan small_pool 1 0 0 0 = Some 1"
    using small_pool_tests by (subst page_scan.simps, simp, subst page_scan.simps, simp)
  then show ?thesis by (simp add: page_alloc_def SNSX_PAGE_SIZE_def)
qed

lemma page_alloc_first_fit_witness:
  "\<exists>r. free_run small_pool 1 r \<and> unat (fst (page_alloc 1 small_pool)) = 4096 * r"
proof -
  have "free_run small_pool 1 1"
    unfolding free_run_def
  proof (intro conjI allI impI)
    show "1 + 1 \<le> unat (total_page_count small_pool)" by (simp add: small_pool_def)
    fix p :: nat assume "1 \<le> p \<and> p < 1 + 1"
    then have "p = 1" by simp
    with small_pool_tests(3) show "\<not> bitmap_test small_pool p" by simp
  qed
  with page_alloc_first_fit [OF small_pool_tests(1) _ small_pool_alloc] small_pool_alloc
  show ?thesis by auto
qed

text \<open>
  C24 (page_alloc_disjoint): a sequence of calls to \<open>page_alloc\<close>, of any sizes, hands out
  pairwise disjoint runs of pages, all disjoint from the pages in use before, and afterwards
  the used pages are those and the runs handed out. A failed call (null) hands out nothing.
\<close>

theorem page_alloc_disjoint:
  assumes "alloc_ok mm" and "alloc_all page_alloc ns mm = (as, mm')"
  shows "used_pages mm' = used_pages mm \<union> (\<Union>i < length ns. pages.run_pages (as ! i) (ns ! i)) \<and>
    (\<forall>i < length ns. used_pages mm \<inter> pages.run_pages (as ! i) (ns ! i) = {}) \<and>
    (\<forall>i < length ns. \<forall>j < i.
       pages.run_pages (as ! i) (ns ! i) \<inter> pages.run_pages (as ! j) (ns ! j) = {})"
  using pages.alloc_seq [OF assms] by blast

lemma page_alloc_disjoint_witness:
  "used_pages small_pool \<inter> pages.run_pages (fst (alloc_all page_alloc [1] small_pool) ! 0) 1 = {}"
  using page_alloc_disjoint [OF small_pool_tests(1), of "[1]" "[4096]" "bitmap_set 1 True small_pool"]
  by (simp add: small_pool_alloc)

text \<open>
  C25 (page_alloc_free_roundtrip): freeing a run right after allocating it gives back the
  allocator's state, bit for bit.
\<close>

theorem page_alloc_free_roundtrip:
  assumes "alloc_ok mm" and "page_alloc n mm = (a, mm')" and "a \<noteq> 0"
  shows "page_free a n mm' = mm"
proof -
  have n: "n \<noteq> 0" using assms(2,3) by (auto simp: page_alloc_def)
  have bok: "bitmap_ok mm" using assms(1) by (simp add: alloc_ok_def)
  then have len: "length (page_bitmap mm) = SNSX_MAX_PAGES div 8" by (simp add: bitmap_ok_def)
  from bok n show ?thesis
  proof (cases rule: page_alloc_cases)
    case fail
    with assms show ?thesis by simp
  next
    case (run r)
    have lim: "r + unat n \<le> unat (total_page_count mm)" "unat (total_page_count mm) \<le> SNSX_MAX_PAGES"
      using run(1) bok by (simp_all add: free_run_def bitmap_ok_def)
    have a: "a = page_addr r" and mm': "mm' = fold (\<lambda>p. bitmap_set p True) [r..<r + unat n] mm"
      using run(3) assms(2) by simp_all
    have p: "unat (a div SNSX_PAGE_SIZE) = r"
      unfolding a using lim by (intro page_of_page_addr) simp
    have "min (unat n) (unat (total_page_count mm') - r) = unat n"
      using lim by (simp add: mm')
    then have eq: "page_free a n mm' = fold (\<lambda>i. bitmap_set (r + i) False) [0..<unat n] mm'"
      by (simp add: page_free_fold [OF assms(3) n] p)
    have im: "(\<lambda>i. r + i) ` set [0..<unat n] = {r..<r + unat n}"
      by (simp add: add.commute)
    have sub: "{r..<r + unat n} \<subseteq> {..<SNSX_MAX_PAGES}" using lim by auto
    have off: "bitmap_test (page_free a n mm') j \<longleftrightarrow>
        (if j \<in> {r..<r + unat n} then False else bitmap_test mm' j)" for j
      unfolding eq using bitmap_test_fold [of mm' "\<lambda>i. r + i" "[0..<unat n]" False j] sub len
      by (simp only: im) (simp add: mm')
    have on: "bitmap_test mm' j \<longleftrightarrow> (if j \<in> {r..<r + unat n} then True else bitmap_test mm j)" for j
      unfolding mm' using bitmap_test_fold [of mm "\<lambda>p. p" "[r..<r + unat n]" True j] sub len by simp
    have same: "length (page_bitmap mm') = length (page_bitmap mm)"
      "total_page_count mm' = total_page_count mm" "heap_head mm' = heap_head mm"
      "heap_total_bytes mm' = heap_total_bytes mm" by (simp_all add: mm')
    show ?thesis
    proof (rule bitmap_eqI)
      show "bitmap_test (page_free a n mm') j = bitmap_test mm j" for j
        using run(1) by (simp add: off on free_run_def)
    qed (simp_all only: eq fold_bitmap_set_fields same)
  qed
qed

lemma page_alloc_free_roundtrip_witness:
  "page_free (fst (page_alloc 1 small_pool)) 1 (snd (page_alloc 1 small_pool)) = small_pool"
  using page_alloc_free_roundtrip [OF small_pool_tests(1) small_pool_alloc] by (simp add: small_pool_alloc)

text \<open>
  The byte counts the kernel reports add up. Total and used bytes
  are 4096 times the size of the pool and of the set of used pages, free bytes are their
  difference without a wrap, and a successful \<open>page_alloc\<close> of \<open>n\<close> pages raises the used
  bytes by exactly \<open>4096 * n\<close>.
\<close>

lemma memory_accounting:
  assumes "alloc_ok mm" and "page_alloc n mm = (a, mm')" and "a \<noteq> 0"
  shows "unat (memory_total_bytes mm) = 4096 * page_limit mm \<and>
    unat (memory_used_bytes mm) = 4096 * card (used_pages mm) \<and>
    unat (memory_used_bytes mm) + unat (memory_free_bytes mm) = unat (memory_total_bytes mm) \<and>
    unat (memory_used_bytes mm') = unat (memory_used_bytes mm) + 4096 * unat n \<and>
    memory_total_bytes mm' = memory_total_bytes mm"
proof -
  have bok: "bitmap_ok mm" and n: "n \<noteq> 0"
    using assms by (auto simp: alloc_ok_def page_alloc_def)
  note b = unat_memory_bytes [OF bok]
  have "memory_used_bytes mm \<le> memory_total_bytes mm" using b by (simp add: word_le_nat_alt)
  then have "unat (memory_free_bytes mm) = unat (memory_total_bytes mm) - unat (memory_used_bytes mm)"
    by (simp add: memory_free_bytes_def unat_sub)
  moreover from bok n have "bitmap_ok mm' \<and> card (used_pages mm') = card (used_pages mm) + unat n \<and>
      total_page_count mm' = total_page_count mm"
  proof (cases rule: page_alloc_cases)
    case fail
    with assms show ?thesis by simp
  next
    case (run r)
    with assms(2) used_pages_alloc [OF bok run(1)] free_run_unused [OF run(1)] bok show ?thesis
      by (auto simp: card_Un_disjoint)
  qed
  ultimately show ?thesis
    using b unat_memory_bytes(2) [of mm'] by (simp add: memory_total_bytes_def)
qed

lemma memory_accounting_witness:
  "unat (memory_used_bytes (bitmap_set 1 True small_pool)) = unat (memory_used_bytes small_pool) + 4096"
  using memory_accounting [OF small_pool_tests(1) small_pool_alloc] by simp

text \<open>
  \<open>page_free\<close> rejects the null address only. For an address
  inside page 0 it releases page 0, and the next \<open>page_alloc\<close> of one page succeeds with the
  address 0, which its callers read as a failure.
\<close>

lemma page_free_low_address:
  assumes "alloc_ok mm" and "0 < page_limit mm" and "0 < a" and "a < SNSX_PAGE_SIZE" and "n \<noteq> 0"
  shows "fst (page_alloc 1 (page_free a n mm)) = 0 \<and>
    bitmap_test (snd (page_alloc 1 (page_free a n mm))) 0 \<and> \<not> bitmap_test (page_free a n mm) 0"
proof -
  let ?mm = "page_free a n mm"
  have bok: "bitmap_ok mm" and a0: "a \<noteq> 0" using assms by (auto simp: alloc_ok_def)
  have "unat a < 4096" using assms(4) by (simp add: word_less_nat_alt SNSX_PAGE_SIZE_def)
  then have p: "unat (a div SNSX_PAGE_SIZE) = 0" by (simp add: unat_div SNSX_PAGE_SIZE_def)
  note used = page_free_used [OF bok a0 assms(5), unfolded p]
  have tot: "total_page_count ?mm = total_page_count mm"
    by (simp add: page_free_fold [OF a0 assms(5)])
  have "0 < unat n" using assms(5) by (simp add: unat_gt_0)
  then have "0 \<notin> used_pages ?mm" unfolding used(1) by auto
  with assms(2) tot have free: "\<not> bitmap_test ?mm 0" by (simp add: used_pages_def page_limit_def)
  then have "free_run ?mm 1 0" using assms(2) tot by (simp add: free_run_def page_limit_def)
  moreover have "unat (1 :: u64) = 1" by simp
  moreover from used(2) obtain r where "free_run ?mm 1 r" "\<forall>r' < r. \<not> free_run ?mm 1 r'"
    "page_alloc 1 ?mm = (page_addr r, fold (\<lambda>p. bitmap_set p True) [r..<r + 1] ?mm)"
    by (rule page_alloc_cases [of ?mm 1]) (use \<open>free_run ?mm 1 0\<close> in auto)
  ultimately have "page_alloc 1 ?mm = (0, bitmap_set 0 True ?mm)"
    by (cases r) (auto simp: page_addr_def)
  with free used(2) show ?thesis
    using bitmap_test_set [of ?mm 0 True 0] by (simp add: bitmap_ok_def SNSX_MAX_PAGES_def)
qed

lemma page_free_low_address_witness: "fst (page_alloc 1 (page_free 8 1 small_pool)) = 0"
  using page_free_low_address [OF small_pool_tests(1), of 8 1]
  by (simp add: page_limit_def small_pool_def SNSX_PAGE_SIZE_def)

end
