(* ===== verification/Kernel_Heap.thy ===== *)
theory Kernel_Heap
  imports Page_Allocator
begin

text \<open>
  The kernel heap, the second half of kernel/src/memory.c: a doubly linked chain of block
  headers inside one region of pages. The headers live in memory, and the functions read and
  write them there, in the order of the sources. A loop over the chain is a partial
  function, since nothing in the code itself stops it on a cyclic chain.
\<close>

section \<open>Block headers in memory\<close>

text \<open>
  The layout of \<open>HeapBlock\<close>: \<open>size\<close> at offset 0, the byte \<open>free\<close> at 8, the pointers
  \<open>next\<close> and \<open>prev\<close> at 16 and 24.
\<close>

definition sizeof_HeapBlock :: u64 where "sizeof_HeapBlock = 32"

definition blk_size :: "mem \<Rightarrow> u64 \<Rightarrow> u64" where "blk_size m b = rd64 m b"
definition blk_free :: "mem \<Rightarrow> u64 \<Rightarrow> bool" where "blk_free m b \<longleftrightarrow> m (b + 8) \<noteq> 0"
definition blk_next :: "mem \<Rightarrow> u64 \<Rightarrow> u64" where "blk_next m b = rd64 m (b + 16)"
definition blk_prev :: "mem \<Rightarrow> u64 \<Rightarrow> u64" where "blk_prev m b = rd64 m (b + 24)"

definition set_size :: "u64 \<Rightarrow> u64 \<Rightarrow> mem \<Rightarrow> mem" where
  "set_size b v m = wr64 m b v"

definition set_free :: "u64 \<Rightarrow> bool \<Rightarrow> mem \<Rightarrow> mem" where
  "set_free b f m = m(b + 8 := (if f then 1 else 0))"

definition set_next :: "u64 \<Rightarrow> u64 \<Rightarrow> mem \<Rightarrow> mem" where
  "set_next b v m = wr64 m (b + 16) v"

definition set_prev :: "u64 \<Rightarrow> u64 \<Rightarrow> mem \<Rightarrow> mem" where
  "set_prev b v m = wr64 m (b + 24) v"

section \<open>The functions\<close>

definition heap_init :: "memory_state \<times> mem \<Rightarrow> memory_state \<times> mem" where
  "heap_init = (\<lambda>(mm, m).
     let (heap_region, mm1) = page_alloc SNSX_HEAP_PAGES mm in
     if heap_region = 0 then (mm1\<lparr>heap_head := 0, heap_total_bytes := 0\<rparr>, m)
     else
       (let total = SNSX_HEAP_PAGES * SNSX_PAGE_SIZE;
            m1 = set_size heap_region (total - sizeof_HeapBlock) m;
            m2 = set_free heap_region True m1;
            m3 = set_next heap_region 0 m2;
            m4 = set_prev heap_region 0 m3
        in (mm1\<lparr>heap_total_bytes := total, heap_head := heap_region\<rparr>, m4)))"

text \<open>The body of the loop of \<open>kmalloc\<close> once a block fits: split it if it is large, take it.\<close>

definition kmalloc_take :: "u64 \<Rightarrow> u64 \<Rightarrow> mem \<Rightarrow> u64 \<times> mem" where
  "kmalloc_take sz block m =
     (let m' =
        (if blk_size m block \<ge> sz + sizeof_HeapBlock + 16 then
           (let split = block + sizeof_HeapBlock + sz;
                m1 = set_size split (blk_size m block - sz - sizeof_HeapBlock) m;
                m2 = set_free split True m1;
                m3 = set_next split (blk_next m2 block) m2;
                m4 = set_prev split block m3;
                m5 = (if blk_next m4 split \<noteq> 0 then set_prev (blk_next m4 split) split m4 else m4);
                m6 = set_next block split m5
            in set_size block sz m6)
         else m)
      in (block + sizeof_HeapBlock, set_free block False m'))"

partial_function (option) kmalloc_from :: "u64 \<Rightarrow> u64 \<Rightarrow> mem \<Rightarrow> (u64 \<times> mem) option" where
  "kmalloc_from sz block m =
     (if block = 0 then Some (0, m)
      else if \<not> blk_free m block \<or> blk_size m block < sz then
        kmalloc_from sz (blk_next m block) m
      else Some (kmalloc_take sz block m))"

definition kmalloc :: "u64 \<Rightarrow> memory_state \<times> mem \<Rightarrow> (u64 \<times> mem) option" where
  "kmalloc sz = (\<lambda>(mm, m).
     if sz = 0 \<or> heap_head mm = 0 then Some (0, m)
     else kmalloc_from (align_up_uintptr sz 16) (heap_head mm) m)"

definition kfree :: "u64 \<Rightarrow> mem \<Rightarrow> mem" where
  "kfree ptr m =
     (if ptr = 0 then m
      else
        (let block = ptr - sizeof_HeapBlock;
             m1 = set_free block True m;
             m2 =
               (if blk_next m1 block \<noteq> 0 \<and> blk_free m1 (blk_next m1 block) then
                  (let a1 = set_size block (blk_size m1 block +
                              (sizeof_HeapBlock + blk_size m1 (blk_next m1 block))) m1;
                       a2 = set_next block (blk_next a1 (blk_next a1 block)) a1
                   in if blk_next a2 block \<noteq> 0 then set_prev (blk_next a2 block) block a2 else a2)
                else m1)
         in if blk_prev m2 block \<noteq> 0 \<and> blk_free m2 (blk_prev m2 block) then
              (let b1 = set_size (blk_prev m2 block) (blk_size m2 (blk_prev m2 block) +
                          (sizeof_HeapBlock + blk_size m2 block)) m2;
                   b2 = set_next (blk_prev b1 block) (blk_next b1 block) b1
               in if blk_next b2 block \<noteq> 0
                  then set_prev (blk_next b2 block) (blk_prev b2 block) b2 else b2)
            else m2))"

definition memory_heap_bytes :: "memory_state \<Rightarrow> u64" where
  "memory_heap_bytes mm = heap_total_bytes mm"

partial_function (option) heap_free_from :: "mem \<Rightarrow> u64 \<Rightarrow> u64 \<Rightarrow> u64 option" where
  "heap_free_from m block free_bytes =
     (if block = 0 then Some free_bytes
      else heap_free_from m (blk_next m block)
             (if blk_free m block then free_bytes + blk_size m block else free_bytes))"

definition memory_heap_free_bytes :: "memory_state \<times> mem \<Rightarrow> u64 option" where
  "memory_heap_free_bytes = (\<lambda>(mm, m). heap_free_from m (heap_head mm) 0)"

section \<open>Reading a header after writing one\<close>

text \<open>
  Two headers are apart when their 32-byte ranges do not overlap; a header is whole when it
  does not wrap around the address space.
\<close>

definition whole :: "u64 \<Rightarrow> bool" where
  "whole b \<longleftrightarrow> unat b + 32 \<le> 18446744073709551616"

definition hdr_apart :: "u64 \<Rightarrow> u64 \<Rightarrow> bool" where
  "hdr_apart b c \<longleftrightarrow> apart b 32 c 32"

named_theorems hdr_simps \<open>header fields after header writes\<close>

lemma hdr_offset:
  assumes "whole b" and "i + n \<le> 32" and "0 < n"
  shows "unat (b + of_nat i) = unat b + i"
  using assms by (intro unat_add_of_nat_u64) (simp add: whole_def)

lemma field_apart:
  assumes "whole b" and "whole c" and "i + n \<le> 32" and "j + k \<le> 32" and "0 < n" and "0 < k"
    and "b = c \<and> (i + n \<le> j \<or> j + k \<le> i) \<or> hdr_apart b c"
  shows "apart (b + of_nat i) n (c + of_nat j) k"
  using assms hdr_offset [OF assms(1,3,5)] hdr_offset [OF assms(2,4,6)]
  by (auto simp: apart_def hdr_apart_def whole_def)

lemma one_byte_apart: "apart a n x 1 \<Longrightarrow> \<not> in_range a n x"
  using apart_not_in_range [of a n x 1 0] by simp

lemma field_offsets: "(8 :: u64) = of_nat 8" "(16 :: u64) = of_nat 16" "(24 :: u64) = of_nat 24"
  by simp_all

lemma set_size_fields [hdr_simps]:
  assumes "whole b"
  shows "blk_size (set_size b v m) b = v"
    and "blk_free (set_size b v m) b = blk_free m b"
    and "blk_next (set_size b v m) b = blk_next m b"
    and "blk_prev (set_size b v m) b = blk_prev m b"
  using field_apart [OF assms assms, of 0 8 8 1] field_apart [OF assms assms, of 0 8 16 8]
    field_apart [OF assms assms, of 0 8 24 8]
  by (simp_all add: blk_size_def blk_free_def blk_next_def blk_prev_def set_size_def mem_simps
      one_byte_apart)

lemma set_next_fields [hdr_simps]:
  assumes "whole b"
  shows "blk_size (set_next b v m) b = blk_size m b"
    and "blk_free (set_next b v m) b = blk_free m b"
    and "blk_next (set_next b v m) b = v"
    and "blk_prev (set_next b v m) b = blk_prev m b"
  using field_apart [OF assms assms, of 16 8 8 1] field_apart [OF assms assms, of 16 8 0 8]
    field_apart [OF assms assms, of 16 8 24 8]
  by (simp_all add: blk_size_def blk_free_def blk_next_def blk_prev_def set_next_def mem_simps
      one_byte_apart)

lemma set_prev_fields [hdr_simps]:
  assumes "whole b"
  shows "blk_size (set_prev b v m) b = blk_size m b"
    and "blk_free (set_prev b v m) b = blk_free m b"
    and "blk_next (set_prev b v m) b = blk_next m b"
    and "blk_prev (set_prev b v m) b = v"
  using field_apart [OF assms assms, of 24 8 8 1] field_apart [OF assms assms, of 24 8 0 8]
    field_apart [OF assms assms, of 24 8 16 8]
  by (simp_all add: blk_size_def blk_free_def blk_next_def blk_prev_def set_prev_def mem_simps
      one_byte_apart)

lemma set_free_fields [hdr_simps]:
  assumes "whole b"
  shows "blk_size (set_free b f m) b = blk_size m b"
    and "blk_free (set_free b f m) b = f"
    and "blk_next (set_free b f m) b = blk_next m b"
    and "blk_prev (set_free b f m) b = blk_prev m b"
  using field_apart [OF assms assms, of 0 8 8 1] field_apart [OF assms assms, of 16 8 8 1]
    field_apart [OF assms assms, of 24 8 8 1]
  by (simp_all add: blk_size_def blk_free_def blk_next_def blk_prev_def set_free_def mem_simps
      one_byte_apart)

text \<open>A header write changes no byte outside the header.\<close>

lemma field_in_header:
  assumes "whole b" and "i + n \<le> 32" and "0 < n" and "in_range (b + of_nat i) n x"
  shows "in_range b 32 x"
proof -
  have "unat (b + of_nat i) = unat b + i" by (rule hdr_offset [OF assms(1-3)])
  then show ?thesis using assms by (simp add: in_range_nat whole_def)
qed

lemma in_range_1 [simp]: "in_range a (Suc 0) x \<longleftrightarrow> x = a"
  by (auto simp: in_range_def unat_eq_0)

lemma header_frame [hdr_simps]:
  assumes "whole b" and "\<not> in_range b 32 x"
  shows "set_size b v m x = m x" and "set_free b f m x = m x"
    and "set_next b v m x = m x" and "set_prev b v m x = m x"
proof -
  have "\<not> in_range b 8 x" "x \<noteq> b + 8" "\<not> in_range (b + 16) 8 x" "\<not> in_range (b + 24) 8 x"
    using assms field_in_header [of b 0 8 x] field_in_header [of b 8 1 x]
      field_in_header [of b 16 8 x] field_in_header [of b 24 8 x] by auto
  then show "set_size b v m x = m x" and "set_free b f m x = m x"
    and "set_next b v m x = m x" and "set_prev b v m x = m x"
    by (simp_all add: set_size_def set_free_def set_next_def set_prev_def mem_simps)
qed

text \<open>A header read depends on the header's bytes only.\<close>

lemma header_cong:
  assumes "whole b" and "\<And>x. in_range b 32 x \<Longrightarrow> m x = m' x"
  shows "blk_size m b = blk_size m' b" and "blk_free m b = blk_free m' b"
    and "blk_next m b = blk_next m' b" and "blk_prev m b = blk_prev m' b"
proof -
  have "in_range b 32 (b + 8)" using field_in_header [OF assms(1), of 8 1 "b + 8"] by simp
  then show "blk_free m b = blk_free m' b" using assms(2) by (simp add: blk_free_def)
qed (use assms(2) field_in_header [OF assms(1), of 0 8] field_in_header [OF assms(1), of 16 8]
    field_in_header [OF assms(1), of 24 8] in
    \<open>auto simp: blk_size_def blk_next_def blk_prev_def intro!: rd64_cong\<close>)

section \<open>The chain as a list of blocks\<close>

text \<open>
  The abstract heap is the list of the blocks' sizes and free flags, in address order.
  \<open>hseg m pv a bs nx\<close>: from address \<open>a\<close> on, memory holds the headers of \<open>bs\<close>, laid out one
  after the other; the first one points back to \<open>pv\<close>, the last one on to \<open>nx\<close>.
\<close>

type_synonym blocks = "(nat \<times> bool) list"

definition span :: "blocks \<Rightarrow> nat" where
  "span bs = sum_list (map (\<lambda>(sz, fr). 32 + sz) bs)"

lemma span_simps [simp]:
  "span [] = 0" "span ((sz, fr) # bs) = 32 + sz + span bs" "span (xs @ ys) = span xs + span ys"
  by (simp_all add: span_def)

fun hseg :: "mem \<Rightarrow> u64 \<Rightarrow> nat \<Rightarrow> blocks \<Rightarrow> u64 \<Rightarrow> bool" where
  "hseg m pv a [] nx \<longleftrightarrow> True"
| "hseg m pv a ((sz, fr) # bs) nx \<longleftrightarrow>
     blk_size m (of_nat a) = of_nat sz \<and> blk_free m (of_nat a) = fr \<and>
     blk_prev m (of_nat a) = pv \<and>
     blk_next m (of_nat a) = (if bs = [] then nx else of_nat (a + 32 + sz)) \<and>
     hseg m (of_nat a) (a + 32 + sz) bs nx"

text \<open>The address of the last block of a list, and the bytes of the headers.\<close>

definition last_addr :: "u64 \<Rightarrow> nat \<Rightarrow> blocks \<Rightarrow> u64" where
  "last_addr pv a bs = (if bs = [] then pv else of_nat (a + span (butlast bs)))"

fun headers :: "nat \<Rightarrow> blocks \<Rightarrow> nat set" where
  "headers a [] = {}"
| "headers a ((sz, fr) # bs) = {a..<a + 32} \<union> headers (a + 32 + sz) bs"

text \<open>
  The heap region lies below \<open>2 ^ 63\<close> and does not start at address 0: sums of block sizes
  then stay in 64 bits and a block is never the null pointer.
\<close>

definition region_ok :: "nat \<Rightarrow> blocks \<Rightarrow> bool" where
  "region_ok a bs \<longleftrightarrow> 0 < a \<and> a + span bs \<le> 2 ^ 63"

lemma region_ok_Cons: "region_ok a ((sz, fr) # bs) \<Longrightarrow> region_ok (a + 32 + sz) bs"
  by (simp add: region_ok_def)

lemma region_ok_append: "region_ok a (xs @ ys) \<Longrightarrow> region_ok a xs \<and> region_ok (a + span xs) ys"
  by (auto simp: region_ok_def)

lemma region_addr:
  assumes "region_ok a (b # bs)"
  shows "unat (of_nat a :: u64) = a" and "whole (of_nat a)" and "(of_nat a :: u64) \<noteq> 0"
proof -
  have "a < 2 ^ 63" "0 < a" using assms by (cases b; auto simp: region_ok_def)+
  then show u: "unat (of_nat a :: u64) = a" by (simp add: unat_of_nat_u64_small)
  show "whole (of_nat a)" using u \<open>a < 2 ^ 63\<close> by (simp add: whole_def)
  show "(of_nat a :: u64) \<noteq> 0" using u \<open>0 < a\<close> by (metis less_irrefl unat_0)
qed

lemma region_size:
  assumes "region_ok a ((sz, fr) # bs)"
  shows "unat (of_nat sz :: u64) = sz" and "sz < 2 ^ 63"
  using assms by (auto simp: region_ok_def unat_of_nat_u64_small)

lemma region_in_header:
  "region_ok a (b # bs) \<Longrightarrow> in_range (of_nat a) 32 x \<longleftrightarrow> a \<le> unat x \<and> unat x < a + 32"
  using region_addr [of a b bs] by (simp add: in_range_nat whole_def)

lemma headers_bounds: "i \<in> headers a bs \<Longrightarrow> a \<le> i \<and> i < a + span bs"
  by (induction a bs rule: headers.induct) auto

lemma headers_append: "headers a (xs @ ys) = headers a xs \<union> headers (a + span xs) ys"
  by (induction a xs rule: headers.induct) (auto simp: add.assoc)

lemma hseg_cong:
  "region_ok a bs \<Longrightarrow> (\<And>x. unat x \<in> headers a bs \<Longrightarrow> m x = m' x) \<Longrightarrow>
     hseg m pv a bs nx \<longleftrightarrow> hseg m' pv a bs nx"
proof (induction m pv a bs nx rule: hseg.induct)
  case (1 m pv a nx)
  then show ?case by simp
next
  case (2 m pv a sz fr bs nx)
  note hdr = header_cong [OF region_addr(2) [OF 2(2)], of m m']
  have "m x = m' x" if "in_range (of_nat a) 32 x" for x
    using that 2(3) [of x] by (simp add: region_in_header [OF 2(2)])
  with hdr 2(1) [OF region_ok_Cons [OF 2(2)]] 2(3) show ?case by auto
qed

lemma hseg_append:
  "hseg m pv a (xs @ ys) nx \<longleftrightarrow>
     hseg m pv a xs (if ys = [] then nx else of_nat (a + span xs)) \<and>
     hseg m (last_addr pv a xs) (a + span xs) ys nx"
proof (induction m pv a xs nx rule: hseg.induct)
  case (1 m pv a nx)
  then show ?case by (simp add: last_addr_def)
next
  case (2 m pv a sz fr bs nx)
  then show ?case by (auto simp: last_addr_def add.assoc)
qed

text \<open>Writes to one header leave a header apart from it alone.\<close>

lemma set_fields_apart [hdr_simps]:
  assumes "hdr_apart b c" and "whole b" and "whole c"
  shows "blk_size (set_size b v m) c = blk_size m c" "blk_free (set_size b v m) c = blk_free m c"
    "blk_next (set_size b v m) c = blk_next m c" "blk_prev (set_size b v m) c = blk_prev m c"
    "blk_size (set_free b f m) c = blk_size m c" "blk_free (set_free b f m) c = blk_free m c"
    "blk_next (set_free b f m) c = blk_next m c" "blk_prev (set_free b f m) c = blk_prev m c"
    "blk_size (set_next b v m) c = blk_size m c" "blk_free (set_next b v m) c = blk_free m c"
    "blk_next (set_next b v m) c = blk_next m c" "blk_prev (set_next b v m) c = blk_prev m c"
    "blk_size (set_prev b v m) c = blk_size m c" "blk_free (set_prev b v m) c = blk_free m c"
    "blk_next (set_prev b v m) c = blk_next m c" "blk_prev (set_prev b v m) c = blk_prev m c"
proof -
  have "\<not> in_range b 32 x" if "in_range c 32 x" for x
    using apart_no_common [of b 32 c 32 x] assms(1) that by (auto simp: hdr_apart_def)
  then show "blk_size (set_size b v m) c = blk_size m c" "blk_free (set_size b v m) c = blk_free m c"
    "blk_next (set_size b v m) c = blk_next m c" "blk_prev (set_size b v m) c = blk_prev m c"
    "blk_size (set_free b f m) c = blk_size m c" "blk_free (set_free b f m) c = blk_free m c"
    "blk_next (set_free b f m) c = blk_next m c" "blk_prev (set_free b f m) c = blk_prev m c"
    "blk_size (set_next b v m) c = blk_size m c" "blk_free (set_next b v m) c = blk_free m c"
    "blk_next (set_next b v m) c = blk_next m c" "blk_prev (set_next b v m) c = blk_prev m c"
    "blk_size (set_prev b v m) c = blk_size m c" "blk_free (set_prev b v m) c = blk_free m c"
    "blk_next (set_prev b v m) c = blk_next m c" "blk_prev (set_prev b v m) c = blk_prev m c"
    by (auto intro!: header_cong [OF assms(3)] header_frame [OF assms(2)])
qed

lemma hdr_apart_sym: "hdr_apart b c \<longleftrightarrow> hdr_apart c b"
  by (auto simp: hdr_apart_def apart_def)

lemma hdr_apart_nat:
  assumes "a + 32 \<le> c" and "c < 2 ^ 63"
  shows "hdr_apart (of_nat a) (of_nat c)" and "hdr_apart (of_nat c) (of_nat a)"
    and "whole (of_nat a)" and "whole (of_nat c)"
  using assms by (auto simp: hdr_apart_def apart_def whole_def unat_of_nat_u64_small)

lemma frame_nat:
  assumes "c < 2 ^ 63" and "unat x < c \<or> c + 32 \<le> unat x"
  shows "\<not> in_range (of_nat c) 32 x"
  using assms by (auto simp: in_range_nat unat_of_nat_u64_small)

section \<open>Allocation on the list of blocks\<close>

text \<open>
  First fit on the abstract heap, for a size that is already rounded: the offset of the
  chosen block and the new list of blocks.
\<close>

fun amalloc :: "nat \<Rightarrow> blocks \<Rightarrow> (nat \<times> blocks) option" where
  "amalloc n [] = None"
| "amalloc n ((sz, fr) # bs) =
     (if \<not> fr \<or> sz < n then map_option (\<lambda>(off, bs'). (32 + sz + off, (sz, fr) # bs')) (amalloc n bs)
      else if n + 48 \<le> sz then Some (0, (n, False) # (sz - n - 32, True) # bs)
      else Some (0, (sz, False) # bs))"

text \<open>\<open>writes_in m m' H\<close>: the two memories agree on every address outside \<open>H\<close>.\<close>

definition writes_in :: "mem \<Rightarrow> mem \<Rightarrow> nat set \<Rightarrow> bool" where
  "writes_in m m' H \<longleftrightarrow> (\<forall>x. unat x \<notin> H \<longrightarrow> m' x = m x)"

lemma writes_in_refl [simp]: "writes_in m m H"
  by (simp add: writes_in_def)

lemma writes_in_trans: "writes_in a b H \<Longrightarrow> writes_in b c H \<Longrightarrow> writes_in a c H"
  by (simp add: writes_in_def)

lemma writes_in_mono: "writes_in a b H \<Longrightarrow> H \<subseteq> H' \<Longrightarrow> writes_in a b H'"
  by (auto simp: writes_in_def)

lemma writes_in_header:
  assumes "c < 2 ^ 63" and "{c..<c + 32} \<subseteq> H"
  shows "writes_in m (set_size (of_nat c) v m) H" "writes_in m (set_free (of_nat c) f m) H"
    "writes_in m (set_next (of_nat c) v m) H" "writes_in m (set_prev (of_nat c) v m) H"
proof -
  have "whole (of_nat c)" using assms(1) by (simp add: whole_def unat_of_nat_u64_small)
  moreover have "\<not> in_range (of_nat c) 32 x" if "unat x \<notin> H" for x
  proof -
    from that assms(2) have "unat x \<notin> {c..<c + 32}" by blast
    with assms(1) show ?thesis by (intro frame_nat) auto
  qed
  ultimately show "writes_in m (set_size (of_nat c) v m) H"
    "writes_in m (set_free (of_nat c) f m) H"
    "writes_in m (set_next (of_nat c) v m) H" "writes_in m (set_prev (of_nat c) v m) H"
    by (simp_all add: writes_in_def header_frame)
qed

lemma hseg_writes:
  "region_ok a bs \<Longrightarrow> writes_in m m' H \<Longrightarrow> headers a bs \<inter> H = {} \<Longrightarrow>
     hseg m' pv a bs nx \<longleftrightarrow> hseg m pv a bs nx"
  by (rule hseg_cong) (auto simp: writes_in_def)

text \<open>One header write at the head of a chain, and what the tail keeps.\<close>

lemma hseg_tail_writes:
  assumes "region_ok a ((sz, fr) # bs)" and "writes_in m m' {..<a + 32}"
  shows "hseg m' pv (a + 32 + sz) bs nx \<longleftrightarrow> hseg m pv (a + 32 + sz) bs nx"
  using assms headers_bounds [of _ "a + 32 + sz" bs]
  by (intro hseg_writes [OF region_ok_Cons [OF assms(1)]]) force+

lemma hseg_set_prev:
  assumes "region_ok a (b # bs)" and "hseg m pv a (b # bs) nx"
  shows "hseg (set_prev (of_nat a) v m) v a (b # bs) nx"
proof -
  obtain sz fr where b: "b = (sz, fr)" by fastforce
  have "a < 2 ^ 63" using assms(1) by (auto simp: b region_ok_def)
  then have "writes_in m (set_prev (of_nat a) v m) {..<a + 32}"
    by (intro writes_in_header) auto
  with hseg_tail_writes [of a sz fr bs] assms region_addr(2) [OF assms(1)]
  show ?thesis by (simp add: b hdr_simps)
qed

lemma hseg_set_free:
  assumes "region_ok a ((sz, fr) # bs)" and "hseg m pv a ((sz, fr) # bs) nx"
  shows "hseg (set_free (of_nat a) f m) pv a ((sz, f) # bs) nx"
proof -
  have "a < 2 ^ 63" using assms(1) by (auto simp: region_ok_def)
  then have "writes_in m (set_free (of_nat a) f m) {..<a + 32}"
    by (intro writes_in_header) auto
  with hseg_tail_writes [of a sz fr bs] assms region_addr(2) [OF assms(1)]
  show ?thesis by (simp add: hdr_simps)
qed

lemma of_nat_sizes:
  assumes "n + 48 \<le> sz" and "sz < 2 ^ 63"
  shows "of_nat n + sizeof_HeapBlock + 16 \<le> (of_nat sz :: u64)"
    and "(of_nat sz :: u64) - of_nat n - sizeof_HeapBlock = of_nat (sz - n - 32)"
proof -
  have "of_nat n + sizeof_HeapBlock + 16 = (of_nat (n + 48) :: u64)"
    by (simp add: sizeof_HeapBlock_def)
  then show "of_nat n + sizeof_HeapBlock + 16 \<le> (of_nat sz :: u64)"
    using assms by (simp add: word_le_nat_alt unat_of_nat_u64_small del: of_nat_add)
  have "sz = (sz - n - 32) + n + 32" using assms(1) by simp
  then have "(of_nat sz :: u64) = of_nat ((sz - n - 32) + n + 32)" by (rule arg_cong)
  then have "(of_nat sz :: u64) = of_nat (sz - n - 32) + of_nat n + 32"
    by (simp only: of_nat_add of_nat_numeral)
  then show "(of_nat sz :: u64) - of_nat n - sizeof_HeapBlock = of_nat (sz - n - 32)"
    by (simp add: sizeof_HeapBlock_def)
qed

lemma no_split_size:
  assumes "n < 2 ^ 63" and "sz < 2 ^ 63" and "\<not> n + 48 \<le> sz"
  shows "\<not> of_nat n + sizeof_HeapBlock + 16 \<le> (of_nat sz :: u64)"
proof -
  have "of_nat n + sizeof_HeapBlock + 16 = (of_nat (n + 48) :: u64)"
    by (simp add: sizeof_HeapBlock_def)
  then show ?thesis
    using assms by (simp add: word_le_nat_alt unat_of_nat_u64_small del: of_nat_add)
qed

lemma kmalloc_take_whole:
  assumes reg: "region_ok a ((sz, fr) # bs)" and seg: "hseg m pv a ((sz, fr) # bs) 0"
    and n: "n \<le> sz" "\<not> n + 48 \<le> sz"
  shows "kmalloc_take (of_nat n) (of_nat a) m = (of_nat (a + 32), set_free (of_nat a) False m)"
proof -
  have "blk_size m (of_nat a) = of_nat sz" using seg by simp
  moreover have "\<not> of_nat n + sizeof_HeapBlock + 16 \<le> (of_nat sz :: u64)"
    using n region_size(2) [OF reg] by (intro no_split_size) auto
  ultimately show ?thesis by (simp add: kmalloc_take_def sizeof_HeapBlock_def)
qed

text \<open>
  What splitting the block at \<open>a\<close> writes, in three groups: the new header, the back link of
  the block after it, and the links, size and flag of the block itself.
\<close>

definition new_header :: "nat \<Rightarrow> nat \<Rightarrow> nat \<Rightarrow> mem \<Rightarrow> mem" where
  "new_header a n sz m =
     set_prev (of_nat (a + 32 + n)) (of_nat a) (set_next (of_nat (a + 32 + n)) (blk_next m (of_nat a))
       (set_free (of_nat (a + 32 + n)) True (set_size (of_nat (a + 32 + n)) (of_nat (sz - n - 32)) m)))"

definition link_back :: "nat \<Rightarrow> nat \<Rightarrow> nat \<Rightarrow> blocks \<Rightarrow> mem \<Rightarrow> mem" where
  "link_back a n sz bs m =
     (if bs = [] then m else set_prev (of_nat (a + 32 + sz)) (of_nat (a + 32 + n)) m)"

definition old_header :: "nat \<Rightarrow> nat \<Rightarrow> mem \<Rightarrow> mem" where
  "old_header a n m =
     set_free (of_nat a) False (set_size (of_nat a) (of_nat n) (set_next (of_nat a) (of_nat (a + 32 + n)) m))"

lemma split_apart:
  assumes "region_ok a ((sz, fr) # bs)" and "n + 48 \<le> sz"
  shows "hdr_apart (of_nat a) (of_nat (a + 32 + n))" "hdr_apart (of_nat (a + 32 + n)) (of_nat a)"
    "whole (of_nat a)" "whole (of_nat (a + 32 + n))"
    and "bs \<noteq> [] \<Longrightarrow> a + 32 + sz < 2 ^ 63"
  using assms hdr_apart_nat [of a "a + 32 + n"] by (auto simp: region_ok_def neq_Nil_conv)

lemma split_apart_next:
  assumes reg: "region_ok a ((sz, fr) # bs)" and n: "n + 48 \<le> sz" and bs: "bs \<noteq> []"
  shows "hdr_apart (of_nat (a + 32 + sz)) (of_nat (a + 32 + n))"
    "hdr_apart (of_nat (a + 32 + n)) (of_nat (a + 32 + sz))"
    "hdr_apart (of_nat (a + 32 + sz)) (of_nat a)" "hdr_apart (of_nat a) (of_nat (a + 32 + sz))"
    "whole (of_nat (a + 32 + sz))"
  using split_apart(5) [OF reg n bs] hdr_apart_nat [of "a + 32 + n" "a + 32 + sz"]
    hdr_apart_nat [of a "a + 32 + sz"] n by auto

lemma new_header_fields:
  assumes reg: "region_ok a ((sz, fr) # bs)" and seg: "hseg m pv a ((sz, fr) # bs) 0" and n: "n + 48 \<le> sz"
  defines "m4 \<equiv> new_header a n sz m"
  shows "blk_next m4 (of_nat (a + 32 + n)) = (if bs = [] then 0 else of_nat (a + 32 + sz))"
    "blk_size m4 (of_nat (a + 32 + n)) = of_nat (sz - n - 32)" "blk_free m4 (of_nat (a + 32 + n))"
    "blk_prev m4 (of_nat (a + 32 + n)) = of_nat a" "blk_prev m4 (of_nat a) = pv"
  using seg split_apart [OF reg n] by (simp_all add: m4_def new_header_def hdr_simps)

lemma kmalloc_take_writes:
  assumes reg: "region_ok a ((sz, True) # bs)" and seg: "hseg m pv a ((sz, True) # bs) 0"
    and n: "n + 48 \<le> sz"
  shows "kmalloc_take (of_nat n) (of_nat a) m =
    (of_nat (a + 32), old_header a n (link_back a n sz bs (new_header a n sz m)))"
proof -
  let ?b = "of_nat a :: u64" and ?s = "of_nat (a + 32 + n) :: u64" and ?m4 = "new_header a n sz m"
  have size: "blk_size m ?b = of_nat sz" using seg by simp
  have x0: "of_nat (a + 32 + sz) \<noteq> (0 :: u64)" if "bs \<noteq> []"
    using that region_addr(3) [of "a + 32 + sz"] region_ok_Cons [OF reg] by (cases bs) auto
  have split: "?b + sizeof_HeapBlock + of_nat n = ?s" by (simp add: sizeof_HeapBlock_def)
  have next4: "blk_next (set_free ?s True (set_size ?s v m)) ?b = blk_next m ?b" for v
    using split_apart [OF reg n] by (simp add: hdr_simps)
  have link: "(if blk_next ?m4 ?s \<noteq> 0 then set_prev (blk_next ?m4 ?s) ?s ?m4 else ?m4) =
      link_back a n sz bs ?m4"
    unfolding new_header_fields(1) [OF reg seg n] using x0 by (simp add: link_back_def)
  have base: "?b + sizeof_HeapBlock = of_nat (a + 32)" by (simp add: sizeof_HeapBlock_def)
  note sizes = of_nat_sizes [OF n region_size(2) [OF reg]]
  show ?thesis
    unfolding kmalloc_take_def Let_def size if_P [OF sizes(1)] split sizes(2)
    unfolding next4 new_header_def [symmetric] link
    unfolding old_header_def [symmetric] base by (rule refl)
qed

lemma split_writes:
  assumes reg: "region_ok a ((sz, fr) # bs)" and n: "n + 48 \<le> sz"
  shows "writes_in m (new_header a n sz m) {a + 32 + n..<a + 32 + n + 32}"
    and "bs \<noteq> [] \<Longrightarrow> writes_in m (link_back a n sz bs m) {a + 32 + sz..<a + 32 + sz + 32}"
    and "writes_in m (old_header a n m) {a..<a + 32}"
proof -
  have b: "a + 32 + sz \<le> 2 ^ 63" using reg by (auto simp: region_ok_def)
  show "writes_in m (new_header a n sz m) {a + 32 + n..<a + 32 + n + 32}"
    unfolding new_header_def
    by (intro writes_in_trans [OF _ writes_in_header(4)] writes_in_trans [OF _ writes_in_header(3)]
        writes_in_trans [OF _ writes_in_header(2)] writes_in_header(1)) (use b n in auto)
  show "writes_in m (old_header a n m) {a..<a + 32}"
    unfolding old_header_def
    by (intro writes_in_trans [OF _ writes_in_header(2)] writes_in_trans [OF _ writes_in_header(1)]
        writes_in_header(3)) (use b in auto)
  assume bs: "bs \<noteq> []"
  from split_apart(5) [OF reg n bs] show "writes_in m (link_back a n sz bs m) {a + 32 + sz..<a + 32 + sz + 32}"
    unfolding link_back_def if_not_P [OF bs] by (rule writes_in_header(4)) auto
qed

lemma split_tail:
  assumes reg: "region_ok a ((sz, fr) # bs)" and seg: "hseg m pv a ((sz, fr) # bs) 0" and n: "n + 48 \<le> sz"
  shows "hseg (old_header a n (link_back a n sz bs (new_header a n sz m))) (of_nat (a + 32 + n))
    (a + 32 + sz) bs 0"
proof -
  let ?e = "a + 32 + sz" and ?m4 = "new_header a n sz m" and ?s = "of_nat (a + 32 + n) :: u64"
  note reg' = region_ok_Cons [OF reg]
  have "hseg ?m4 (of_nat a) ?e bs 0"
    using seg hseg_writes [OF reg' split_writes(1) [OF reg n]] headers_bounds [of _ ?e bs] n by fastforce
  then have "hseg (link_back a n sz bs ?m4) ?s ?e bs 0"
    using reg' hseg_set_prev [of ?e _ _ ?m4 "of_nat a" 0 ?s]
    by (cases bs) (auto simp: link_back_def simp del: hseg.simps(2))
  then show ?thesis
    using hseg_writes [OF reg' split_writes(3) [OF reg n]] headers_bounds [of _ ?e bs] by fastforce
qed

lemma kmalloc_take_split:
  assumes reg: "region_ok a ((sz, True) # bs)" and seg: "hseg m pv a ((sz, True) # bs) 0"
    and n: "n + 48 \<le> sz"
    and take: "kmalloc_take (of_nat n) (of_nat a) m = (p, m')"
  shows "p = of_nat (a + 32)"
    and "hseg m' pv a ((n, False) # (sz - n - 32, True) # bs) 0"
    and "writes_in m m' (headers a ((n, False) # (sz - n - 32, True) # bs))"
proof -
  let ?c = "a + 32 + n" and ?e = "a + 32 + sz"
  let ?m4 = "new_header a n sz m" and ?m5 = "link_back a n sz bs (new_header a n sz m)"
  have m': "m' = old_header a n ?m5" and "p = of_nat (a + 32)"
    using kmalloc_take_writes [OF reg seg n] take by simp_all
  then show "p = of_nat (a + 32)" by simp
  note ab = split_apart [OF reg n] and x = split_apart_next [OF reg n]
  have "blk_next ?m5 (of_nat ?c) = (if bs = [] then 0 else of_nat ?e)"
    "blk_size ?m5 (of_nat ?c) = of_nat (sz - n - 32)" "blk_free ?m5 (of_nat ?c)"
    "blk_prev ?m5 (of_nat ?c) = of_nat a" "blk_prev ?m5 (of_nat a) = pv"
    using new_header_fields [OF reg seg n] ab x
    by (cases "bs = []"; simp add: link_back_def hdr_simps del: of_nat_add)+
  then have head: "blk_size m' (of_nat a) = of_nat n" "\<not> blk_free m' (of_nat a)"
    "blk_prev m' (of_nat a) = pv" "blk_next m' (of_nat a) = of_nat ?c"
    "blk_size m' (of_nat ?c) = of_nat (sz - n - 32)" "blk_free m' (of_nat ?c)"
    "blk_prev m' (of_nat ?c) = of_nat a"
    "blk_next m' (of_nat ?c) = (if bs = [] then 0 else of_nat ?e)"
    using ab by (simp_all add: m' old_header_def hdr_simps del: of_nat_add)
  have e: "?c + 32 + (sz - n - 32) = ?e" using n by simp
  from head split_tail [OF reg seg n, folded m'] show "hseg m' pv a ((n, False) # (sz - n - 32, True) # bs) 0"
    unfolding hseg.simps e by simp
  let ?F = "headers a ((n, False) # (sz - n - 32, True) # bs)"
  have F: "{a..<a + 32} \<subseteq> ?F" "{?c..<?c + 32} \<subseteq> ?F" "bs \<noteq> [] \<Longrightarrow> {?e..<?e + 32} \<subseteq> ?F"
    using e by (cases bs; auto)+
  have "writes_in ?m4 ?m5 ?F"
    using split_writes(2) [OF reg n, of ?m4] F(3) by (cases "bs = []") (auto simp: link_back_def elim: writes_in_mono)
  then show "writes_in m m' ?F"
    unfolding m' using writes_in_mono [OF split_writes(1) [OF reg n] F(2)]
      writes_in_mono [OF split_writes(3) [OF reg n] F(1)] by (blast intro: writes_in_trans)
qed

text \<open>
  A change to a suffix of the chain keeps the prefix: no header of the prefix is written,
  and the address of the suffix stays.
\<close>

lemma hseg_suffix:
  assumes "region_ok a (xs @ zs)" and "hseg m pv a (xs @ zs) nx" and "zs \<noteq> []" and "zs' \<noteq> []"
    and "writes_in m m' {a + span xs..}" and "hseg m' (last_addr pv a xs) (a + span xs) zs' nx"
  shows "hseg m' pv a (xs @ zs') nx"
proof -
  have "headers a xs \<inter> {a + span xs..} = {}" using headers_bounds [of _ a xs] by fastforce
  with assms hseg_writes [OF _ assms(5), of a xs pv "of_nat (a + span xs)"] region_ok_append
  show ?thesis unfolding hseg_append by auto
qed

definition seg_head :: "nat \<Rightarrow> blocks \<Rightarrow> u64" where
  "seg_head a bs = (if bs = [] then 0 else of_nat a)"

lemma amalloc_span: "amalloc n bs = Some (off, bs') \<Longrightarrow> span bs' = span bs \<and> bs' \<noteq> [] \<and> bs \<noteq> []"
  by (induction n bs arbitrary: off bs' rule: amalloc.induct) (auto split: if_splits)

lemma amalloc_region: "amalloc n bs = Some (off, bs') \<Longrightarrow> region_ok a bs' \<longleftrightarrow> region_ok a bs"
  using amalloc_span by (simp add: region_ok_def)

lemma kmalloc_from_skip:
  assumes reg: "region_ok a ((sz, fr) # bs)" and seg: "hseg m pv a ((sz, fr) # bs) 0"
    and n: "n < 2 ^ 63" and skip: "\<not> fr \<or> sz < n"
  shows "kmalloc_from (of_nat n) (of_nat a) m =
    kmalloc_from (of_nat n) (seg_head (a + 32 + sz) bs) m"
proof -
  have "(of_nat sz :: u64) < of_nat n \<longleftrightarrow> sz < n"
    using n region_size [OF reg] by (simp add: word_less_nat_alt unat_of_nat_u64_small)
  with skip seg region_addr(3) [OF reg] show ?thesis
    by (subst kmalloc_from.simps) (auto simp: seg_head_def)
qed

text \<open>The two cases of the search at one block: go on behind it, or take it.\<close>

lemma kmalloc_from_later:
  assumes reg: "region_ok a ((sz, fr) # bs)" and seg: "hseg m pv a ((sz, fr) # bs) 0" and n: "n < 2 ^ 63"
    and skip: "\<not> fr \<or> sz < n" and am: "amalloc n bs = Some (off, bs')"
    and eq: "kmalloc_from (of_nat n) (seg_head (a + 32 + sz) bs) m =
      Some (of_nat (a + 32 + sz + off + 32), m')"
    and seg': "hseg m' (of_nat a) (a + 32 + sz) bs' 0"
    and w: "writes_in m m' (headers (a + 32 + sz) bs')"
  shows "kmalloc_from (of_nat n) (of_nat a) m = Some (of_nat (a + (32 + sz + off) + 32), m')"
    and "hseg m' pv a ((sz, fr) # bs') 0" and "writes_in m m' (headers a ((sz, fr) # bs'))"
proof -
  have "a + 32 + sz + off + 32 = a + (32 + sz + off) + 32" by simp
  with eq kmalloc_from_skip [OF reg seg n skip]
  show "kmalloc_from (of_nat n) (of_nat a) m = Some (of_nat (a + (32 + sz + off) + 32), m')"
    by (simp only: )
  have "writes_in m m' {a + 32 + sz..}"
    using w by (rule writes_in_mono) (auto dest: headers_bounds)
  then have "hseg m' pv a ([(sz, fr)] @ bs') 0"
    using hseg_suffix [of a "[(sz, fr)]" bs m pv 0 bs' m'] reg seg seg' amalloc_span [OF am]
    by (simp add: last_addr_def add.assoc del: hseg.simps(2) of_nat_add)
  then show "hseg m' pv a ((sz, fr) # bs') 0" by simp
  show "writes_in m m' (headers a ((sz, fr) # bs'))"
    using w by (rule writes_in_mono) auto
qed

lemma kmalloc_from_here:
  assumes reg: "region_ok a ((sz, True) # bs)" and seg: "hseg m pv a ((sz, True) # bs) 0"
    and n: "n < 2 ^ 63" and fits: "n \<le> sz"
  shows "\<exists>m'. kmalloc_from (of_nat n) (of_nat a) m = Some (of_nat (a + 32), m') \<and>
    (let bs' = (if n + 48 \<le> sz then (n, False) # (sz - n - 32, True) # bs else (sz, False) # bs)
     in hseg m' pv a bs' 0 \<and> writes_in m m' (headers a bs'))"
proof -
  obtain p m' where take: "kmalloc_take (of_nat n) (of_nat a) m = (p, m')" by fastforce
  have "\<not> (of_nat sz :: u64) < of_nat n"
    using fits region_size [OF reg] n by (simp add: word_less_nat_alt unat_of_nat_u64_small)
  then have eq: "kmalloc_from (of_nat n) (of_nat a) m = Some (p, m')"
    using seg region_addr(3) [OF reg] take by (subst kmalloc_from.simps) auto
  show ?thesis
  proof (cases "n + 48 \<le> sz")
    case True
    with eq kmalloc_take_split [OF reg seg True take] show ?thesis
      by (intro exI [of _ m']) (simp del: hseg.simps headers.simps)
  next
    case False
    from kmalloc_take_whole [OF reg seg fits False] take
    have pm: "p = of_nat (a + 32)" "m' = set_free (of_nat a) False m" by simp_all
    have "a < 2 ^ 63" using reg by (auto simp: region_ok_def)
    then have "writes_in m m' (headers a ((sz, False) # bs))"
      unfolding pm by (intro writes_in_header) auto
    with hseg_set_free [OF reg seg, of False] False eq show ?thesis
      by (intro exI [of _ m']) (simp add: pm del: hseg.simps headers.simps)
  qed
qed

lemma kmalloc_from_amalloc:
  assumes "region_ok a bs" and "hseg m pv a bs 0" and "n < 2 ^ 63"
  shows "case amalloc n bs of
     None \<Rightarrow> kmalloc_from (of_nat n) (seg_head a bs) m = Some (0, m)
   | Some (off, bs') \<Rightarrow> \<exists>m'. kmalloc_from (of_nat n) (seg_head a bs) m =
       Some (of_nat (a + off + 32), m') \<and> hseg m' pv a bs' 0 \<and> writes_in m m' (headers a bs')"
  using assms
proof (induction bs arbitrary: a pv)
  case Nil
  then show ?case by (simp add: seg_head_def kmalloc_from.simps)
next
  case (Cons b bs)
  obtain sz fr where b: "b = (sz, fr)" by fastforce
  note reg = Cons.prems(1) [unfolded b] and seg = Cons.prems(2) [unfolded b]
  have head: "seg_head a (b # bs) = of_nat a" by (simp add: seg_head_def)
  show ?case
  proof (cases "\<not> fr \<or> sz < n")
    case True
    note IH = Cons.IH [OF region_ok_Cons [OF reg] _ Cons.prems(3), of "of_nat a"]
    show ?thesis
    proof (cases "amalloc n bs")
      case None
      with True IH seg show ?thesis
        by (simp add: b head [unfolded b] kmalloc_from_skip [OF reg seg Cons.prems(3) True])
    next
      case (Some r)
      obtain off bs' where r: "r = (off, bs')" by fastforce
      from IH Some seg r obtain m' where
        "kmalloc_from (of_nat n) (seg_head (a + 32 + sz) bs) m =
            Some (of_nat (a + 32 + sz + off + 32), m')"
        "hseg m' (of_nat a) (a + 32 + sz) bs' 0" "writes_in m m' (headers (a + 32 + sz) bs')"
        by auto
      from kmalloc_from_later [OF reg seg Cons.prems(3) True Some [unfolded r] this]
      show ?thesis
        using True Some unfolding b head [unfolded b] by (simp add: r del: of_nat_add hseg.simps headers.simps)
    qed
  next
    case False
    then have fr: "fr = True" "n \<le> sz" by simp_all
    from kmalloc_from_here [OF reg [unfolded fr(1)] seg [unfolded fr(1)] Cons.prems(3) fr(2)]
    show ?thesis
      using False unfolding b head [unfolded b]
      by (cases "n + 48 \<le> sz") (simp_all add: Let_def del: hseg.simps headers.simps)
  qed
qed

section \<open>Freeing on the list of blocks\<close>

text \<open>
  \<open>release xs sz ys\<close> is the list \<open>xs @ (sz, False) # ys\<close> after the block in the middle is
  freed: it joins a free successor, then a free predecessor.
\<close>

definition absorb_next :: "nat \<Rightarrow> blocks \<Rightarrow> blocks" where
  "absorb_next sz ys =
     (case ys of (k, True) # ys' \<Rightarrow> (sz + 32 + k, True) # ys' | _ \<Rightarrow> (sz, True) # ys)"

definition absorb_prev :: "blocks \<Rightarrow> blocks \<Rightarrow> blocks" where
  "absorb_prev xs zs =
     (if xs \<noteq> [] \<and> snd (last xs)
      then butlast xs @ (fst (last xs) + 32 + fst (hd zs), True) # tl zs else xs @ zs)"

definition release :: "blocks \<Rightarrow> nat \<Rightarrow> blocks \<Rightarrow> blocks" where
  "release xs sz ys = absorb_prev xs (absorb_next sz ys)"

text \<open>The step both joins of \<open>kfree\<close> perform: a block takes over the block after it.\<close>

definition absorb :: "u64 \<Rightarrow> mem \<Rightarrow> mem" where
  "absorb b m =
     (let a1 = set_size b (blk_size m b + (sizeof_HeapBlock + blk_size m (blk_next m b))) m;
          a2 = set_next b (blk_next a1 (blk_next a1 b)) a1
      in if blk_next a2 b \<noteq> 0 then set_prev (blk_next a2 b) b a2 else a2)"

text \<open>
  Joining writes the size and the forward link of the first block, then the back link of the
  block after the second.
\<close>

definition grown_header :: "nat \<Rightarrow> nat \<Rightarrow> u64 \<Rightarrow> mem \<Rightarrow> mem" where
  "grown_header a sz nx m = set_next (of_nat a) nx (set_size (of_nat a) (of_nat sz) m)"

lemma absorb_writes:
  assumes reg: "region_ok a ((s1, f1) # (s2, f2) # ys)"
    and seg: "hseg m pv a ((s1, f1) # (s2, f2) # ys) 0"
  defines "e \<equiv> a + 32 + s1 + 32 + s2"
  defines "m2 \<equiv> grown_header a (s1 + 32 + s2) (if ys = [] then 0 else of_nat e) m"
  shows "absorb (of_nat a) m = (if ys = [] then m2 else set_prev (of_nat e) (of_nat a) m2)"
    and "blk_size m2 (of_nat a) = of_nat (s1 + 32 + s2)" "blk_free m2 (of_nat a) = f1"
      "blk_prev m2 (of_nat a) = pv" "blk_next m2 (of_nat a) = (if ys = [] then 0 else of_nat e)"
proof -
  let ?b = "of_nat a :: u64" and ?c = "of_nat (a + 32 + s1) :: u64"
  have ab: "hdr_apart ?b ?c" "hdr_apart ?c ?b" "whole ?b" "whole ?c"
    using hdr_apart_nat [of a "a + 32 + s1"] reg by (auto simp: region_ok_def)
  define nx :: u64 where "nx = (if ys = [] then 0 else of_nat e)"
  have m: "blk_size m ?b = of_nat s1" "blk_next m ?b = ?c" "blk_size m ?c = of_nat s2"
    "blk_next m ?c = nx" "blk_prev m ?b = pv" "blk_free m ?b = f1"
    using seg by (simp_all add: nx_def e_def)
  have sizes: "(of_nat s1 :: u64) + (sizeof_HeapBlock + of_nat s2) = of_nat (s1 + 32 + s2)"
    by (simp add: sizeof_HeapBlock_def)
  have m2: "m2 = set_next ?b nx (set_size ?b (of_nat (s1 + 32 + s2)) m)"
    by (simp add: m2_def grown_header_def nx_def)
  have keep: "blk_next (set_size ?b v m) ?b = blk_next m ?b"
    "blk_next (set_size ?b v m) ?c = blk_next m ?c" for v
    using ab by (simp_all add: hdr_simps)
  have nx0: "nx \<noteq> 0 \<longleftrightarrow> ys \<noteq> []"
    using region_addr(3) [of e] region_ok_Cons [OF region_ok_Cons [OF reg]]
    by (cases ys) (auto simp: nx_def e_def)
  have next2: "blk_next m2 ?b = nx" using ab by (simp add: m2 hdr_simps)
  have "absorb ?b m = (if ys \<noteq> [] then set_prev nx ?b m2 else m2)"
    unfolding absorb_def Let_def m(1,2) keep m(3,4) sizes
    unfolding m2 [symmetric] next2 nx0 by (rule refl)
  then show "absorb ?b m = (if ys = [] then m2 else set_prev (of_nat e) ?b m2)" by (simp add: nx_def)
  show "blk_size m2 ?b = of_nat (s1 + 32 + s2)" "blk_free m2 ?b = f1" "blk_prev m2 ?b = pv"
    using ab m by (simp_all add: m2 hdr_simps)
  show "blk_next m2 ?b = (if ys = [] then 0 else of_nat e)" using next2 by (simp add: nx_def)
qed

lemma absorb_hseg:
  assumes reg: "region_ok a ((s1, f1) # (s2, f2) # ys)"
    and seg: "hseg m pv a ((s1, f1) # (s2, f2) # ys) 0"
  shows "hseg (absorb (of_nat a) m) pv a ((s1 + 32 + s2, f1) # ys) 0"
    and "writes_in m (absorb (of_nat a) m) (headers a ((s1 + 32 + s2, f1) # ys))"
proof -
  let ?e = "a + 32 + s1 + 32 + s2"
  define m2 where "m2 = grown_header a (s1 + 32 + s2) (if ys = [] then 0 else of_nat ?e) m"
  note aw = absorb_writes [OF reg seg, folded m2_def]
  have bound: "?e + span ys \<le> 2 ^ 63" using reg by (simp add: region_ok_def)
  note reg3 = region_ok_Cons [OF region_ok_Cons [OF reg]]
  have w2: "writes_in m m2 {a..<a + 32}"
    unfolding m2_def grown_header_def
    by (intro writes_in_trans [OF _ writes_in_header(3)] writes_in_header(1)) (use bound in auto)
  have tail: "hseg m2 (of_nat (a + 32 + s1)) ?e ys 0"
    using seg hseg_writes [OF reg3 w2] headers_bounds [of _ ?e ys] by fastforce
  have e: "a + 32 + (s1 + 32 + s2) = ?e" by simp
  have "hseg (absorb (of_nat a) m) pv a ((s1 + 32 + s2, f1) # ys) 0 \<and>
      writes_in m (absorb (of_nat a) m) (headers a ((s1 + 32 + s2, f1) # ys))"
  proof (cases ys)
    case Nil
    with aw w2 show ?thesis by simp
  next
    case (Cons y zs)
    have abs: "absorb (of_nat a) m = set_prev (of_nat ?e) (of_nat a) m2" using aw(1) Cons by simp
    have e63: "?e < 2 ^ 63" using bound by (cases y) (simp add: Cons)
    then have "hdr_apart (of_nat ?e) (of_nat a)" "whole (of_nat ?e)" "whole (of_nat a)"
      using hdr_apart_nat [of a ?e] by (auto simp del: of_nat_add)
    moreover have "hseg (absorb (of_nat a) m) (of_nat a) ?e ys 0"
      using hseg_set_prev [OF reg3 [unfolded Cons] tail [unfolded Cons]] by (simp add: abs Cons)
    ultimately have seg': "hseg (absorb (of_nat a) m) pv a ((s1 + 32 + s2, f1) # ys) 0"
      using aw(2-5) Cons unfolding hseg.simps e by (simp add: abs hdr_simps del: of_nat_add)
    have "writes_in m2 (absorb (of_nat a) m) {?e..<?e + 32}"
      unfolding abs by (rule writes_in_header(4)) (use e63 in auto)
    then have "writes_in m (absorb (of_nat a) m) ({a..<a + 32} \<union> {?e..<?e + 32})"
      using w2 by (auto intro: writes_in_trans writes_in_mono)
    moreover have "{a..<a + 32} \<union> {?e..<?e + 32} \<subseteq> headers a ((s1 + 32 + s2, f1) # ys)"
      unfolding headers.simps e by (cases y) (auto simp: Cons)
    ultimately show ?thesis using seg' by (blast intro: writes_in_mono)
  qed
  then show "hseg (absorb (of_nat a) m) pv a ((s1 + 32 + s2, f1) # ys) 0"
    and "writes_in m (absorb (of_nat a) m) (headers a ((s1 + 32 + s2, f1) # ys))" by simp_all
qed

lemma kfree_unfold:
  assumes "ptr \<noteq> 0" and "block = ptr - sizeof_HeapBlock"
    and "m1 = set_free block True m"
    and "m2 = (if blk_next m1 block \<noteq> 0 \<and> blk_free m1 (blk_next m1 block)
               then absorb block m1 else m1)"
    and "p = blk_prev m2 block" and "p \<noteq> 0 \<Longrightarrow> blk_next m2 p = block"
    and "p \<noteq> 0 \<Longrightarrow> hdr_apart p block \<and> whole p \<and> whole block"
  shows "kfree ptr m = (if p \<noteq> 0 \<and> blk_free m2 p then absorb p m2 else m2)"
proof -
  have "kfree ptr m =
      (if blk_prev m2 block \<noteq> 0 \<and> blk_free m2 (blk_prev m2 block) then
        (let b1 = set_size (blk_prev m2 block) (blk_size m2 (blk_prev m2 block) +
                    (sizeof_HeapBlock + blk_size m2 block)) m2;
             b2 = set_next (blk_prev b1 block) (blk_next b1 block) b1
         in if blk_next b2 block \<noteq> 0
            then set_prev (blk_next b2 block) (blk_prev b2 block) b2 else b2)
       else m2)"
    unfolding kfree_def Let_def assms(2,3,4) absorb_def using assms(1) by (simp only: if_False)
  also have "\<dots> = (if p \<noteq> 0 \<and> blk_free m2 p then absorb p m2 else m2)"
  proof (cases "p \<noteq> 0 \<and> blk_free m2 p")
    case True
    with assms(6,7) have "blk_next m2 p = block" "hdr_apart p block" "whole p" "whole block" by auto
    then show ?thesis
      unfolding assms(5) [symmetric] using True assms(5) [symmetric]
      by (simp add: absorb_def hdr_simps Let_def)
  next
    case False
    show ?thesis unfolding assms(5) [symmetric] if_not_P [OF False] by (rule refl)
  qed
  finally show ?thesis .
qed

lemma absorb_next_hseg:
  assumes reg: "region_ok a ((sz, True) # ys)" and seg: "hseg m pv a ((sz, True) # ys) 0"
  defines "b \<equiv> of_nat a"
  defines "m' \<equiv> (if blk_next m b \<noteq> 0 \<and> blk_free m (blk_next m b) then absorb b m else m)"
  shows "hseg m' pv a (absorb_next sz ys) 0" and "writes_in m m' (headers a (absorb_next sz ys))"
proof -
  have "hseg m' pv a (absorb_next sz ys) 0 \<and> writes_in m m' (headers a (absorb_next sz ys))"
  proof (cases "\<exists>k zs. ys = (k, True) # zs")
    case True
    then obtain k zs where ys: "ys = (k, True) # zs" by blast
    have "blk_next m b \<noteq> 0 \<and> blk_free m (blk_next m b)"
      using seg region_addr(3) [OF region_ok_Cons [OF reg [unfolded ys]]]
      by (simp add: ys b_def)
    with absorb_hseg [OF reg [unfolded ys] seg [unfolded ys]] show ?thesis
      by (simp add: m'_def b_def ys absorb_next_def del: hseg.simps headers.simps)
  next
    case False
    then have "absorb_next sz ys = (sz, True) # ys"
      by (auto simp: absorb_next_def split: list.split prod.split bool.split)
    moreover have "m' = m"
      using seg False by (cases ys) (auto simp: m'_def b_def)
    ultimately show ?thesis using seg by simp
  qed
  then show "hseg m' pv a (absorb_next sz ys) 0" "writes_in m m' (headers a (absorb_next sz ys))"
    by simp_all
qed

lemma absorb_next_Cons: "\<exists>k ys'. absorb_next sz ys = (k, True) # ys'"
  by (auto simp: absorb_next_def split: list.split prod.split bool.split)

lemma absorb_next_not_Nil [simp]: "absorb_next sz ys \<noteq> []"
  using absorb_next_Cons [of sz ys] by auto

lemma span_absorb_next [simp]: "span (absorb_next sz ys) = 32 + sz + span ys"
  by (auto simp: absorb_next_def split: list.split prod.split bool.split)

lemma span_absorb_prev [simp]: "zs \<noteq> [] \<Longrightarrow> span (absorb_prev xs zs) = span xs + span zs"
  by (cases xs rule: rev_cases; cases zs) (auto simp: absorb_prev_def)

lemma span_release [simp]: "span (release xs sz ys) = span xs + 32 + sz + span ys"
  by (simp add: release_def)

lemma headers_absorb_next: "headers a (absorb_next sz ys) \<subseteq> headers a ((sz, f) # ys)"
  by (auto simp: absorb_next_def add.assoc split: list.splits prod.splits bool.splits)

lemma headers_release: "headers a (release xs sz ys) \<subseteq> headers a (xs @ (sz, f) # ys)"
  by (cases xs rule: rev_cases)
    (auto simp: release_def absorb_prev_def absorb_next_def headers_append add.assoc
      split: list.splits prod.splits bool.splits if_splits)

lemma last_addr_prev:
  assumes "region_ok a (xs @ zs)" and "zs \<noteq> []" and "hseg m 0 a (xs @ zs) nx"
  shows "last_addr 0 a xs \<noteq> 0 \<longleftrightarrow> xs \<noteq> []"
    and "xs \<noteq> [] \<Longrightarrow> hdr_apart (last_addr 0 a xs) (of_nat (a + span xs)) \<and>
      whole (last_addr 0 a xs) \<and> whole (of_nat (a + span xs)) \<and>
      blk_free m (last_addr 0 a xs) = snd (last xs) \<and>
      blk_next m (last_addr 0 a xs) = of_nat (a + span xs)"
proof -
  have *: "last_addr 0 a xs \<noteq> 0 \<and> hdr_apart (last_addr 0 a xs) (of_nat (a + span xs)) \<and>
      whole (last_addr 0 a xs) \<and> whole (of_nat (a + span xs)) \<and>
      blk_free m (last_addr 0 a xs) = snd (last xs) \<and>
      blk_next m (last_addr 0 a xs) = of_nat (a + span xs)" if ne: "xs \<noteq> []"
  proof -
    obtain ws s f where xs: "xs = ws @ [(s, f)]" using ne by (cases xs rule: rev_cases) auto
    let ?p = "a + span ws" and ?b = "a + span ws + 32 + s"
    have reg: "region_ok ?p ((s, f) # zs)"
      using region_ok_append [of a ws "(s, f) # zs"] assms(1) by (simp add: xs)
    have "?b < 2 ^ 63" using reg assms(2) by (cases zs) (auto simp: region_ok_def)
    then have "hdr_apart (of_nat ?p) (of_nat ?b)" "whole (of_nat ?b)"
      using hdr_apart_nat [of ?p ?b] by (simp_all del: of_nat_add)
    moreover have "blk_free m (of_nat ?p) = f" "blk_next m (of_nat ?p) = of_nat ?b"
      using assms(2,3) unfolding xs append_assoc hseg_append by simp_all
    moreover have "last_addr 0 a xs = of_nat ?p" by (simp add: last_addr_def xs)
    moreover have "a + span xs = ?b" unfolding xs by simp
    moreover have "last xs = (s, f)" by (simp add: xs)
    moreover have "of_nat ?p \<noteq> (0 :: u64)" "whole (of_nat ?p)"
      by (rule region_addr(2,3) [OF reg])+
    ultimately show ?thesis by (simp only: snd_conv simp_thms not_False_eq_True)
  qed
  then show "last_addr 0 a xs \<noteq> 0 \<longleftrightarrow> xs \<noteq> []" by (auto simp: last_addr_def)
  from * show "xs \<noteq> [] \<Longrightarrow> hdr_apart (last_addr 0 a xs) (of_nat (a + span xs)) \<and>
      whole (last_addr 0 a xs) \<and> whole (of_nat (a + span xs)) \<and>
      blk_free m (last_addr 0 a xs) = snd (last xs) \<and>
      blk_next m (last_addr 0 a xs) = of_nat (a + span xs)" by blast
qed

text \<open>The second half of \<open>kfree\<close>: joining with the block before.\<close>

lemma join_previous:
  assumes reg: "region_ok a (ws @ (s, True) # (k, True) # zs)"
    and seg: "hseg m 0 a (ws @ (s, True) # (k, True) # zs) 0"
  shows "hseg (absorb (of_nat (a + span ws)) m) 0 a (ws @ (s + 32 + k, True) # zs) 0"
    and "writes_in m (absorb (of_nat (a + span ws)) m) (headers (a + span ws) ((s + 32 + k, True) # zs))"
proof -
  have "hseg m (last_addr 0 a ws) (a + span ws) ((s, True) # (k, True) # zs) 0"
    using seg unfolding hseg_append by blast
  note ab = absorb_hseg [OF region_ok_append [OF reg, THEN conjunct2] this]
  have "writes_in m (absorb (of_nat (a + span ws)) m) {a + span ws..}"
    using ab(2) by (rule writes_in_mono) (use headers_bounds in fastforce)
  from hseg_suffix [OF reg seg _ _ this ab(1)]
  show "hseg (absorb (of_nat (a + span ws)) m) 0 a (ws @ (s + 32 + k, True) # zs) 0" by simp
  show "writes_in m (absorb (of_nat (a + span ws)) m) (headers (a + span ws) ((s + 32 + k, True) # zs))"
    by (rule ab(2))
qed

text \<open>The first half: the block is marked as free and joined with the block after it.\<close>

definition kfree_forward :: "u64 \<Rightarrow> mem \<Rightarrow> mem" where
  "kfree_forward b m =
     (let m1 = set_free b True m
      in if blk_next m1 b \<noteq> 0 \<and> blk_free m1 (blk_next m1 b) then absorb b m1 else m1)"

lemma kfree_forward_hseg:
  assumes reg: "region_ok a (xs @ (sz, f) # ys)" and seg: "hseg m 0 a (xs @ (sz, f) # ys) 0"
  defines "b \<equiv> of_nat (a + span xs) :: u64"
  shows "hseg (kfree_forward b m) 0 a (xs @ absorb_next sz ys) 0"
    and "blk_prev (kfree_forward b m) b = last_addr 0 a xs"
    and "writes_in m (kfree_forward b m) (headers a (xs @ (sz, f) # ys))"
proof -
  let ?b = "a + span xs" and ?zs = "absorb_next sz ys"
  have regb: "region_ok ?b ((sz, f) # ys)" using region_ok_append [OF reg] by simp
  then have regt: "region_ok ?b ((sz, True) # ys)" by (simp add: region_ok_def)
  define m1 where "m1 = set_free b True m"
  define m2 where "m2 = (if blk_next m1 b \<noteq> 0 \<and> blk_free m1 (blk_next m1 b) then absorb b m1 else m1)"
  have fw: "kfree_forward b m = m2" by (simp add: kfree_forward_def m2_def Let_def flip: m1_def)
  have seg1: "hseg m1 (last_addr 0 a xs) ?b ((sz, True) # ys) 0"
    using seg hseg_set_free [OF regb] unfolding hseg_append m1_def b_def by blast
  note seg2 = absorb_next_hseg [OF regt seg1, folded b_def, folded m2_def]
  have w1: "writes_in m m1 {?b..<?b + 32}"
    unfolding m1_def b_def by (rule writes_in_header(2)) (use regb in \<open>auto simp: region_ok_def\<close>)
  then have "writes_in m m2 {?b..}"
    using seg2(2) headers_bounds [of _ ?b ?zs]
    by (auto intro: writes_in_trans [of m m1] elim!: writes_in_mono)
  from hseg_suffix [OF reg seg _ _ this] seg2(1)
  show "hseg (kfree_forward b m) 0 a (xs @ ?zs) 0" by (simp add: fw)
  obtain k zs where "?zs = (k, True) # zs" using absorb_next_Cons by blast
  with seg2(1) have "blk_prev m2 b = last_addr 0 a xs" by (simp add: b_def)
  then show "blk_prev (kfree_forward b m) b = last_addr 0 a xs" by (simp only: fw)
  have "headers ?b ((sz, f) # ys) \<subseteq> headers a (xs @ (sz, f) # ys)" by (simp add: headers_append)
  then have "{?b..<?b + 32} \<subseteq> headers a (xs @ (sz, f) # ys)"
    "headers ?b ?zs \<subseteq> headers a (xs @ (sz, f) # ys)"
    using headers_absorb_next [of ?b sz ys f] by auto
  with w1 seg2(2) show "writes_in m (kfree_forward b m) (headers a (xs @ (sz, f) # ys))"
    unfolding fw by (blast intro: writes_in_trans writes_in_mono)
qed

lemma kfree_release:
  assumes reg: "region_ok a (xs @ (sz, f) # ys)" and seg: "hseg m 0 a (xs @ (sz, f) # ys) 0"
  shows "hseg (kfree (of_nat (a + span xs + 32)) m) 0 a (release xs sz ys) 0"
    and "writes_in m (kfree (of_nat (a + span xs + 32)) m) (headers a (xs @ (sz, f) # ys))"
proof -
  let ?b = "a + span xs" and ?zs = "absorb_next sz ys" and ?H = "headers a (xs @ (sz, f) # ys)"
  define b where "b = (of_nat ?b :: u64)"
  define m2 where "m2 = kfree_forward b m"
  define p where "p = last_addr 0 a xs"
  note fwd = kfree_forward_hseg [OF reg seg, folded b_def, folded m2_def p_def]
  have "?b + 32 \<le> 2 ^ 63" using region_ok_append [OF reg] by (simp add: region_ok_def)
  then have ptr: "of_nat (?b + 32) - sizeof_HeapBlock = b" "of_nat (?b + 32) \<noteq> (0 :: u64)"
    using unat_of_nat_u64_small [of "?b + 32"]
    by (auto simp: b_def sizeof_HeapBlock_def simp del: of_nat_add unat_of_nat)
      (simp_all add: sizeof_HeapBlock_def)
  have reg2: "region_ok a (xs @ ?zs)" using reg by (simp add: region_ok_def)
  note lp = last_addr_prev [OF reg2 absorb_next_not_Nil fwd(1), folded p_def b_def]
  have kf: "kfree (of_nat (?b + 32)) m = (if p \<noteq> 0 \<and> blk_free m2 p then absorb p m2 else m2)"
    using kfree_unfold [OF ptr(2) ptr(1) [symmetric] HOL.refl m2_def [unfolded kfree_forward_def Let_def], of p]
      lp fwd(2) by auto
  have "hseg (kfree (of_nat (?b + 32)) m) 0 a (release xs sz ys) 0 \<and>
      writes_in m (kfree (of_nat (?b + 32)) m) ?H"
  proof (cases "xs \<noteq> [] \<and> snd (last xs)")
    case False
    then have "release xs sz ys = xs @ ?zs" "kfree (of_nat (?b + 32)) m = m2"
      using lp kf by (auto simp: release_def absorb_prev_def)
    with fwd show ?thesis by simp
  next
    case True
    then obtain ws s where xs: "xs = ws @ [(s, True)]"
      by (cases xs rule: rev_cases) auto
    obtain k zs where zs: "?zs = (k, True) # zs" using absorb_next_Cons by blast
    have p: "p = of_nat (a + span ws)" by (simp add: p_def last_addr_def xs)
    have rel: "release xs sz ys = ws @ (s + 32 + k, True) # zs"
      by (simp add: release_def absorb_prev_def zs xs)
    note jp = join_previous [OF reg2 [unfolded zs xs, simplified]
        fwd(1) [unfolded zs xs append_assoc append_Cons append_Nil], folded p]
    have "headers (a + span ws) ((s + 32 + k, True) # zs) \<subseteq> ?H"
      using headers_release [of a xs sz ys f] unfolding rel headers_append by blast
    moreover have kf2: "kfree (of_nat (?b + 32)) m = absorb p m2" using True kf lp by auto
    ultimately show ?thesis
      using fwd(3) jp unfolding rel kf2 by (blast intro: writes_in_trans writes_in_mono)
  qed
  then show "hseg (kfree (of_nat (a + span xs + 32)) m) 0 a (release xs sz ys) 0"
    and "writes_in m (kfree (of_nat (a + span xs + 32)) m) ?H" by simp_all
qed

end
