(* ===== verification/Heap_Contract.thy ===== *)
theory Heap_Contract
  imports Kernel_Heap
begin

text \<open>
  What the heap of kernel/src/memory.c promises to the code that calls \<open>kmalloc\<close> and
  \<open>kfree\<close>: first fit on the list of blocks, freed neighbours are joined, live allocations
  never overlap each other or a header, and a call writes headers only.
\<close>

section \<open>The heap invariant\<close>

text \<open>
  \<open>heap_rep mm m a bs\<close>: the heap starts at address \<open>a\<close> and its chain holds exactly the
  blocks \<open>bs\<close>, every size a multiple of 16. \<open>coalesced\<close>: no two free blocks are neighbours.
\<close>

definition aligned_sizes :: "blocks \<Rightarrow> bool" where
  "aligned_sizes bs \<longleftrightarrow> list_all (\<lambda>(s, f). 16 dvd s) bs"

definition heap_rep :: "memory_state \<Rightarrow> mem \<Rightarrow> nat \<Rightarrow> blocks \<Rightarrow> bool" where
  "heap_rep mm m a bs \<longleftrightarrow>
     heap_head mm = of_nat a \<and> bs \<noteq> [] \<and> region_ok a bs \<and> hseg m 0 a bs 0 \<and> aligned_sizes bs"

fun coalesced :: "blocks \<Rightarrow> bool" where
  "coalesced (b # c # bs) \<longleftrightarrow> \<not> (snd b \<and> snd c) \<and> coalesced (c # bs)"
| "coalesced [b] \<longleftrightarrow> True"
| "coalesced [] \<longleftrightarrow> True"

definition round16 :: "nat \<Rightarrow> nat" where
  "round16 n = (n + 15) div 16 * 16"

lemma round16_bounds: "n \<le> round16 n" "round16 n < n + 16" "16 dvd round16 n"
proof -
  have "(n + 15) div 16 * 16 + (n + 15) mod 16 = n + 15" by simp
  moreover have "(n + 15) mod 16 < 16" by simp
  ultimately show "n \<le> round16 n" "round16 n < n + 16" unfolding round16_def by linarith+
qed (simp add: round16_def)

lemma coalesced_append:
  "coalesced (xs @ ys) \<longleftrightarrow>
     coalesced xs \<and> coalesced ys \<and> (xs \<noteq> [] \<and> ys \<noteq> [] \<longrightarrow> \<not> (snd (last xs) \<and> snd (hd ys)))"
proof (induction xs rule: coalesced.induct)
  case (2 b)
  then show ?case by (cases ys) auto
qed auto

lemma coalesced_release:
  assumes "coalesced (xs @ (sz, False) # ys)"
  shows "coalesced (release xs sz ys)"
proof -
  have ys: "coalesced ys" using assms coalesced_append [of "xs @ [(sz, False)]" ys] by simp
  have nxt: "coalesced (absorb_next sz ys)"
    using ys by (cases ys; cases "tl ys") (auto simp: absorb_next_def split: bool.splits prod.splits)
  obtain k zs where zs: "absorb_next sz ys = (k, True) # zs" using absorb_next_Cons by blast
  show ?thesis
  proof (cases "xs \<noteq> [] \<and> snd (last xs)")
    case False
    with assms nxt show ?thesis by (auto simp: release_def absorb_prev_def coalesced_append zs)
  next
    case True
    then obtain ws s where xs: "xs = ws @ [(s, True)]" by (cases xs rule: rev_cases) auto
    have "coalesced ((s + 32 + k, True) # zs)"
      using nxt unfolding zs by (cases zs) auto
    moreover have "coalesced ws" "ws \<noteq> [] \<Longrightarrow> \<not> snd (last ws)"
      using assms unfolding xs coalesced_append by auto
    ultimately show ?thesis
      by (simp add: release_def absorb_prev_def zs xs coalesced_append)
  qed
qed

lemma amalloc_split:
  "amalloc n bs = Some (off, bs') \<Longrightarrow>
     \<exists>xs sz ys. bs = xs @ (sz, True) # ys \<and> off = span xs \<and> n \<le> sz \<and>
       (\<forall>(s, f) \<in> set xs. \<not> f \<or> s < n) \<and>
       bs' = xs @ (if n + 48 \<le> sz then (n, False) # (sz - n - 32, True) # ys else (sz, False) # ys)"
proof (induction n bs arbitrary: off bs' rule: amalloc.induct)
  case (1 n)
  then show ?case by simp
next
  case (2 n sz fr bs)
  show ?case
  proof (cases "\<not> fr \<or> sz < n")
    case True
    with 2(2) obtain off1 bs1 where 1: "amalloc n bs = Some (off1, bs1)"
      and eq: "off = 32 + sz + off1" "bs' = (sz, fr) # bs1" by auto
    from 2(1) [OF True 1] obtain xs s ys where
      "bs = xs @ (s, True) # ys" "off1 = span xs" "n \<le> s" "\<forall>(s, f) \<in> set xs. \<not> f \<or> s < n"
      "bs1 = xs @ (if n + 48 \<le> s then (n, False) # (s - n - 32, True) # ys else (s, False) # ys)"
      by blast
    with True eq show ?thesis by (intro exI [of _ "(sz, fr) # xs"] exI [of _ s] exI [of _ ys]) auto
  next
    case False
    with 2(2) show ?thesis
      by (intro exI [of _ "[]"] exI [of _ sz] exI [of _ bs]) (auto split: if_splits)
  qed
qed

lemma amalloc_None: "amalloc n bs = None \<longleftrightarrow> (\<forall>(s, f) \<in> set bs. \<not> f \<or> s < n)"
  by (induction n bs rule: amalloc.induct) auto

lemma coalesced_amalloc:
  assumes "amalloc n bs = Some (off, bs')" and "coalesced bs"
  shows "coalesced bs'"
proof -
  from amalloc_split [OF assms(1)] obtain xs sz ys where
    "bs = xs @ (sz, True) # ys"
    and bs': "bs' = xs @ (if n + 48 \<le> sz then (n, False) # (sz - n - 32, True) # ys
      else (sz, False) # ys)" by blast
  with assms(2) have "coalesced xs" "coalesced ((sz, True) # ys)"
    by (auto simp: coalesced_append)
  then have "coalesced ys" "ys \<noteq> [] \<Longrightarrow> \<not> snd (hd ys)" by (cases ys; simp)+
  with \<open>coalesced xs\<close> show ?thesis unfolding bs' by (cases ys) (auto simp: coalesced_append)
qed

lemma aligned_amalloc:
  assumes "amalloc n bs = Some (off, bs')" and "aligned_sizes bs" and "16 dvd n"
  shows "aligned_sizes bs'"
proof -
  from amalloc_split [OF assms(1)] obtain xs sz ys where
    bs: "bs = xs @ (sz, True) # ys" and n: "n \<le> sz"
    and bs': "bs' = xs @ (if n + 48 \<le> sz then (n, False) # (sz - n - 32, True) # ys
      else (sz, False) # ys)" by blast
  have sz: "16 dvd sz" using assms(2) by (simp add: bs aligned_sizes_def)
  have "16 dvd sz - n - 32" if "n + 48 \<le> sz"
    using that sz assms(3) by (simp add: dvd_diff_nat)
  with assms(2,3) show ?thesis by (auto simp: bs bs' aligned_sizes_def)
qed

lemma aligned_release:
  "aligned_sizes (xs @ (sz, f) # ys) \<Longrightarrow> aligned_sizes (release xs sz ys)"
  by (cases xs rule: rev_cases)
    (auto simp: release_def absorb_prev_def absorb_next_def aligned_sizes_def
      split: list.splits prod.splits bool.splits if_splits)

section \<open>The functions against the invariant\<close>

lemma of_nat_round16:
  assumes "unat n < 2 ^ 63 - 16"
  shows "align_up_uintptr n 16 = of_nat (round16 (unat n))" and "round16 (unat n) < 2 ^ 63"
proof -
  have b: "round16 (unat n) < 2 ^ 63" using round16_bounds(2) [of "unat n"] assms by simp
  then show "round16 (unat n) < 2 ^ 63" .
  have "unat (align_up_uintptr n 16) = round16 (unat n)"
    using assms by (simp add: unat_align_up round16_def)
  moreover have "align_up_uintptr n 16 = of_nat (unat (align_up_uintptr n 16))" by simp
  ultimately show "align_up_uintptr n 16 = of_nat (round16 (unat n))" by simp
qed

lemma kmalloc_rep:
  assumes rep: "heap_rep mm m a bs" and n: "n \<noteq> 0" "unat n < 2 ^ 63 - 16"
  shows "case amalloc (round16 (unat n)) bs of
      None \<Rightarrow> kmalloc n (mm, m) = Some (0, m)
    | Some (off, bs') \<Rightarrow> \<exists>m'. kmalloc n (mm, m) = Some (of_nat (a + off + 32), m') \<and>
        heap_rep mm m' a bs' \<and> writes_in m m' (headers a bs')"
proof -
  have rest: "heap_head mm = of_nat a" "bs \<noteq> []" "region_ok a bs" "hseg m 0 a bs 0"
    "aligned_sizes bs" using rep by (simp_all add: heap_rep_def)
  have "heap_head mm \<noteq> 0" using rest(1,2,3) region_addr(3) [of a] by (cases bs) auto
  then have "kmalloc n (mm, m) = kmalloc_from (of_nat (round16 (unat n))) (seg_head a bs) m"
    using n rest by (simp add: kmalloc_def of_nat_round16(1) seg_head_def)
  with kmalloc_from_amalloc [OF rest(3,4) of_nat_round16(2) [OF n(2)]] show ?thesis
    using rest amalloc_region amalloc_span aligned_amalloc round16_bounds(3)
    by (auto simp: heap_rep_def split: option.split)
qed

lemma kfree_rep:
  assumes rep: "heap_rep mm m a (xs @ (sz, f) # ys)"
  defines "p \<equiv> of_nat (a + span xs + 32)"
  shows "heap_rep mm (kfree p m) a (release xs sz ys)"
    and "writes_in m (kfree p m) (headers a (xs @ (sz, f) # ys))"
proof -
  have "release xs sz ys \<noteq> []"
    by (simp add: release_def absorb_prev_def)
  with rep kfree_release [of a xs sz f ys m] aligned_release [of xs sz f ys]
  show "heap_rep mm (kfree p m) a (release xs sz ys)"
    and "writes_in m (kfree p m) (headers a (xs @ (sz, f) # ys))"
    by (auto simp: heap_rep_def region_ok_def p_def simp del: of_nat_add)
qed

lemma heap_free_from_sum:
  "region_ok a bs \<Longrightarrow> hseg m pv a bs 0 \<Longrightarrow>
     heap_free_from m (seg_head a bs) acc =
       Some (acc + of_nat (sum_list (map fst (filter snd bs))))"
proof (induction bs arbitrary: a pv acc)
  case Nil
  then show ?case by (simp add: seg_head_def heap_free_from.simps)
next
  case (Cons b bs)
  obtain sz fr where b: "b = (sz, fr)" by fastforce
  note reg = Cons.prems(1) [unfolded b]
  have "seg_head a (b # bs) = of_nat a" "(of_nat a :: u64) \<noteq> 0"
    using region_addr(3) [OF Cons.prems(1)] by (simp_all add: seg_head_def)
  moreover have "blk_next m (of_nat a) = seg_head (a + 32 + sz) bs"
    using Cons.prems(2) by (simp add: b seg_head_def)
  ultimately show ?case
    using Cons.prems(2) Cons.IH [OF region_ok_Cons [OF reg]]
    by (subst heap_free_from.simps) (auto simp: b algebra_simps)
qed

section \<open>Live allocations\<close>

text \<open>The payload addresses and sizes of the allocated blocks of a chain.\<close>

fun allocated :: "nat \<Rightarrow> blocks \<Rightarrow> (nat \<times> nat) set" where
  "allocated a [] = {}"
| "allocated a ((sz, fr) # bs) = (if fr then {} else {(a + 32, sz)}) \<union> allocated (a + 32 + sz) bs"

lemma allocated_append: "allocated a (xs @ ys) = allocated a xs \<union> allocated (a + span xs) ys"
  by (induction a xs rule: allocated.induct) (auto simp: add.assoc)

lemma allocated_bounds: "(p, s) \<in> allocated a bs \<Longrightarrow> a + 32 \<le> p \<and> p + s \<le> a + span bs"
  by (induction a bs rule: allocated.induct) (fastforce split: if_splits)+

lemma allocated_not_header:
  "(p, s) \<in> allocated a bs \<Longrightarrow> p \<le> i \<Longrightarrow> i < p + s \<Longrightarrow> i \<notin> headers a bs"
proof (induction a bs rule: allocated.induct)
  case (2 a sz fr bs)
  then show ?case
    using allocated_bounds [of p s "a + 32 + sz" bs] headers_bounds [of i "a + 32 + sz" bs]
    by (auto split: if_splits)
qed simp

lemma allocated_disjoint:
  "(p, s) \<in> allocated a bs \<Longrightarrow> (q, t) \<in> allocated a bs \<Longrightarrow> p \<noteq> q \<Longrightarrow>
     p + s + 32 \<le> q \<or> q + t + 32 \<le> p"
proof (induction a bs rule: allocated.induct)
  case (2 a sz fr bs)
  then show ?case
    using allocated_bounds [of p s "a + 32 + sz" bs] allocated_bounds [of q t "a + 32 + sz" bs]
    by (auto split: if_splits)
qed simp

lemma allocated_unique: "(p, s) \<in> allocated a bs \<Longrightarrow> (p, t) \<in> allocated a bs \<Longrightarrow> s = t"
proof (induction a bs rule: allocated.induct)
  case (2 a sz fr bs)
  then show ?case
    using allocated_bounds [of p s "a + 32 + sz" bs] allocated_bounds [of p t "a + 32 + sz" bs]
    by (auto split: if_splits)
qed simp

lemma allocated_split:
  "(p, s) \<in> allocated a bs \<Longrightarrow> \<exists>xs ys. bs = xs @ (s, False) # ys \<and> p = a + span xs + 32"
proof (induction a bs rule: allocated.induct)
  case (2 a sz fr bs)
  show ?case
  proof (cases "(p, s) \<in> allocated (a + 32 + sz) bs")
    case True
    with 2(1) obtain xs ys where "bs = xs @ (s, False) # ys" "p = a + 32 + sz + span xs + 32"
      by blast
    then show ?thesis by (intro exI [of _ "(sz, fr) # xs"] exI [of _ ys]) simp
  next
    case False
    with 2(2) show ?thesis by (intro exI [of _ "[]"] exI [of _ bs]) (auto split: if_splits)
  qed
qed simp

lemma allocated_release:
  "allocated a (release xs sz ys) = allocated a (xs @ (sz, True) # ys)"
  by (cases xs rule: rev_cases)
    (auto simp: release_def absorb_prev_def absorb_next_def allocated_append add.assoc
      split: list.splits prod.splits bool.splits if_splits)

lemma allocated_amalloc:
  assumes "amalloc n bs = Some (off, bs')"
  shows "\<exists>s \<ge> n. allocated a bs' = insert (a + off + 32, s) (allocated a bs) \<and>
    (\<forall>t. (a + off + 32, t) \<notin> allocated a bs)"
proof -
  from amalloc_split [OF assms] obtain xs sz ys where bs: "bs = xs @ (sz, True) # ys"
    and off: "off = span xs" and n: "n \<le> sz"
    and bs': "bs' = xs @ (if n + 48 \<le> sz then (n, False) # (sz - n - 32, True) # ys
      else (sz, False) # ys)" by blast
  have "(a + off + 32, t) \<notin> allocated a bs" for t
    using allocated_bounds [of "a + off + 32" t a xs]
      allocated_bounds [of "a + off + 32" t "a + span xs + 32 + sz" ys]
    by (auto simp: bs off allocated_append)
  moreover have "\<exists>s \<ge> n. allocated a bs' = insert (a + off + 32, s) (allocated a bs)"
  proof (cases "n + 48 \<le> sz")
    case True
    then have "a + span xs + 32 + n + 32 + (sz - n - 32) = a + span xs + 32 + sz" by simp
    with True show ?thesis
      by (intro exI [of _ n]) (simp add: bs bs' off allocated_append ac_simps)
  next
    case False
    with n show ?thesis by (intro exI [of _ sz]) (simp add: bs bs' off allocated_append)
  qed
  ultimately show ?thesis by blast
qed

text \<open>One free block, the chain \<open>heap_init\<close> lays out.\<close>

definition one_block :: "u64 \<Rightarrow> u64 \<Rightarrow> mem \<Rightarrow> mem" where
  "one_block b sz m = set_prev b 0 (set_next b 0 (set_free b True (set_size b sz m)))"

lemma one_block_rep:
  assumes "0 < a" and "a + 32 + sz \<le> 2 ^ 63" and "16 dvd sz" and "heap_head mm = of_nat a"
  shows "heap_rep mm (one_block (of_nat a) (of_nat sz) m) a [(sz, True)]"
proof -
  have reg: "region_ok a [(sz, True)]" using assms by (simp add: region_ok_def)
  with region_addr(2) [OF reg] assms show ?thesis
    by (simp add: heap_rep_def one_block_def hdr_simps aligned_sizes_def)
qed

text \<open>
  Runs of the heap with a client: the client allocates, frees what it got, and writes into
  its live allocations. \<open>live\<close> maps each live pointer to the size that was asked for.
\<close>

inductive heap_run :: "memory_state \<Rightarrow> mem \<Rightarrow> mem \<Rightarrow> (u64 \<rightharpoonup> nat) \<Rightarrow> bool" for mm m0 where
  start: "heap_run mm m0 m0 Map.empty"
| alloc: "heap_run mm m0 m live \<Longrightarrow> unat n < 2 ^ 63 - 16 \<Longrightarrow> kmalloc n (mm, m) = Some (p, m') \<Longrightarrow>
    heap_run mm m0 m' (if p = 0 then live else live(p \<mapsto> unat n))"
| free: "heap_run mm m0 m live \<Longrightarrow> live p \<noteq> None \<Longrightarrow> heap_run mm m0 (kfree p m) (live(p := None))"
| store: "heap_run mm m0 m live \<Longrightarrow> live p = Some n \<Longrightarrow> i < n \<Longrightarrow>
    heap_run mm m0 (m(p + of_nat i := v)) live"

definition live_ok :: "nat \<Rightarrow> blocks \<Rightarrow> (u64 \<rightharpoonup> nat) \<Rightarrow> bool" where
  "live_ok a bs live \<longleftrightarrow>
     (\<forall>p n. live p = Some n \<longrightarrow> (\<exists>s \<ge> n. (unat p, s) \<in> allocated a bs)) \<and>
     (\<forall>q s. (q, s) \<in> allocated a bs \<longrightarrow> live (of_nat q) \<noteq> None)"

definition heap_inv :: "memory_state \<Rightarrow> nat \<Rightarrow> nat \<Rightarrow> mem \<Rightarrow> (u64 \<rightharpoonup> nat) \<Rightarrow> blocks \<Rightarrow> bool" where
  "heap_inv mm a len m live bs \<longleftrightarrow>
     heap_rep mm m a bs \<and> coalesced bs \<and> span bs = len \<and> live_ok a bs live"

lemma heap_rep_region: "heap_rep mm m a bs \<Longrightarrow> region_ok a bs"
  by (simp add: heap_rep_def)

lemma allocated_addr:
  assumes "region_ok a bs" and "(q, s) \<in> allocated a bs"
  shows "unat (of_nat q :: u64) = q" and "(of_nat q :: u64) \<noteq> 0" and "q + s \<le> 2 ^ 63"
proof -
  have "a + 32 \<le> q" "q + s \<le> 2 ^ 63"
    using allocated_bounds [OF assms(2)] assms(1) by (auto simp: region_ok_def)
  then show "q + s \<le> 2 ^ 63" and u: "unat (of_nat q :: u64) = q"
    by (simp_all add: unat_of_nat_u64_small)
  show "(of_nat q :: u64) \<noteq> 0" using u \<open>a + 32 \<le> q\<close> by (metis add_is_0 le_zero_eq unat_0 zero_neq_numeral)
qed

lemma heap_inv_alloc:
  assumes inv: "heap_inv mm a len m live bs" and n: "unat n < 2 ^ 63 - 16"
    and res: "kmalloc n (mm, m) = Some (p, m')"
  shows "\<exists>bs'. heap_inv mm a len m' (if p = 0 then live else live(p \<mapsto> unat n)) bs'"
proof (cases "n = 0")
  case True
  with res inv show ?thesis by (auto simp: kmalloc_def)
next
  case False
  have rep: "heap_rep mm m a bs" and co: "coalesced bs" and len: "span bs = len"
    and live: "live_ok a bs live" using inv by (simp_all add: heap_inv_def)
  note spec = kmalloc_rep [OF rep False n]
  show ?thesis
  proof (cases "amalloc (round16 (unat n)) bs")
    case None
    with spec res inv show ?thesis by auto
  next
    case (Some r)
    obtain off bs' where r: "r = (off, bs')" by fastforce
    note am = Some [unfolded r]
    from spec am res have p: "p = of_nat (a + off + 32)" and rep': "heap_rep mm m' a bs'" by auto
    obtain s where s: "round16 (unat n) \<le> s"
      and al: "allocated a bs' = insert (a + off + 32, s) (allocated a bs)"
      and fresh: "\<And>t. (a + off + 32, t) \<notin> allocated a bs"
      using allocated_amalloc [OF am] by blast
    note addr = allocated_addr [OF heap_rep_region [OF rep'], of "a + off + 32" s, unfolded al]
    have "p \<noteq> 0" "unat p = a + off + 32" using addr by (simp_all add: p del: of_nat_add)
    moreover have "unat n \<le> s" using s round16_bounds(1) [of "unat n"] by simp
    moreover have "live_ok a bs' (live(p \<mapsto> unat n))"
      unfolding live_ok_def al
    proof (intro conjI allI impI)
      fix q k assume "(live(p \<mapsto> unat n)) q = Some k"
      then show "\<exists>s' \<ge> k. (unat q, s') \<in> insert (a + off + 32, s) (allocated a bs)"
        using live \<open>unat n \<le> s\<close> \<open>unat p = _\<close> by (cases "q = p") (auto simp: live_ok_def, blast)
    next
      fix q t assume "(q, t) \<in> insert (a + off + 32, s) (allocated a bs)"
      then show "(live(p \<mapsto> unat n)) (of_nat q) \<noteq> None"
        using live by (auto simp: live_ok_def p simp del: of_nat_add)
    qed
    ultimately show ?thesis
      using rep' coalesced_amalloc [OF am co] amalloc_span [OF am] len
      by (auto simp: heap_inv_def)
  qed
qed

lemma heap_inv_free:
  assumes inv: "heap_inv mm a len m live bs" and p: "live p \<noteq> None"
  shows "\<exists>bs'. heap_inv mm a len (kfree p m) (live(p := None)) bs'"
proof -
  have rep: "heap_rep mm m a bs" and co: "coalesced bs" and len: "span bs = len"
    and live: "live_ok a bs live" using inv by (simp_all add: heap_inv_def)
  obtain k where "live p = Some k" using p by auto
  with live obtain s where s: "(unat p, s) \<in> allocated a bs" unfolding live_ok_def by blast
  from allocated_split [OF s] obtain xs ys where bs: "bs = xs @ (s, False) # ys"
    and up: "unat p = a + span xs + 32" by blast
  have "p = of_nat (unat p)" by simp
  then have p_eq: "p = of_nat (a + span xs + 32)" unfolding up .
  have al: "allocated a (release xs s ys) = allocated a bs - {(unat p, s)}"
    using allocated_bounds [of "unat p" s a xs] allocated_bounds [of "unat p" s "a + span xs + 32 + s" ys]
    unfolding allocated_release bs allocated_append up by auto
  have "live_ok a (release xs s ys) (live(p := None))"
    unfolding live_ok_def al
  proof (intro conjI allI impI)
    fix q k assume q: "(live(p := None)) q = Some k"
    then have "q \<noteq> p" by auto
    then have "unat q \<noteq> unat p" by simp
    with q live show "\<exists>s' \<ge> k. (unat q, s') \<in> allocated a bs - {(unat p, s)}"
      by (auto simp: live_ok_def split: if_splits)
  next
    fix q t assume q: "(q, t) \<in> allocated a bs - {(unat p, s)}"
    have "q \<noteq> unat p" using q s allocated_unique by blast
    then have "of_nat q \<noteq> p"
      using allocated_addr(1) [OF heap_rep_region [OF rep], of q t] q by auto
    with q live show "(live(p := None)) (of_nat q) \<noteq> None" by (auto simp: live_ok_def)
  qed
  moreover have "heap_rep mm (kfree p m) a (release xs s ys)"
    using kfree_rep(1) [OF rep [unfolded bs]] by (simp only: p_eq)
  moreover have "coalesced (release xs s ys)" "span (release xs s ys) = len"
    using coalesced_release [OF co [unfolded bs]] len by (simp_all add: bs)
  ultimately show ?thesis by (auto simp: heap_inv_def)
qed

lemma heap_inv_store:
  assumes inv: "heap_inv mm a len m live bs" and p: "live p = Some n" "i < n"
  shows "heap_inv mm a len (m(p + of_nat i := v)) live bs"
proof -
  obtain s where s: "n \<le> s" "(unat p, s) \<in> allocated a bs"
    using inv p(1) unfolding heap_inv_def live_ok_def by blast
  have reg: "region_ok a bs" using inv by (simp add: heap_inv_def heap_rep_def)
  have "unat p + s \<le> 2 ^ 63" using allocated_addr(3) [OF reg s(2)] .
  then have u: "unat (p + of_nat i) = unat p + i" using s(1) p(2) by (intro unat_add_of_nat_u64) simp
  then have "unat (p + of_nat i) \<notin> headers a bs"
    using allocated_not_header [OF s(2), of "unat p + i"] p(2) s(1) by simp
  then have "hseg (m(p + of_nat i := v)) 0 a bs 0 \<longleftrightarrow> hseg m 0 a bs 0"
    by (intro hseg_cong [OF reg]) auto
  with inv show ?thesis by (simp add: heap_inv_def heap_rep_def)
qed

lemma heap_run_inv:
  assumes "heap_run mm m0 m live" and "heap_inv mm a len m0 Map.empty bs0"
  shows "\<exists>bs. heap_inv mm a len m live bs"
  using assms
proof induction
  case start
  then show ?case by blast
next
  case (alloc m live n p m')
  then show ?case using heap_inv_alloc by blast
next
  case (free m live p)
  then show ?case using heap_inv_free by blast
next
  case (store m live p n i v)
  then show ?case using heap_inv_store by blast
qed

lemma heap_inv_start:
  assumes "heap_rep mm m a [(sz, True)]"
  shows "heap_inv mm a (32 + sz) m Map.empty [(sz, True)]"
  using assms by (simp add: heap_inv_def live_ok_def)

section \<open>Properties\<close>

text \<open>
  C13 (kmalloc_first_fit): on a well-formed heap, \<open>kmalloc\<close> of a non-zero size below
  \<open>2 ^ 63 - 16\<close> always returns. It rounds the size up to a multiple of 16 and does first fit:
  when no free block is large enough it returns the null pointer and changes nothing; else it
  returns the payload of the first one that is, split when 48 bytes or more are left over. The
  resulting heap is well formed with the block list first fit gives, only header bytes are
  written, and if no two free blocks were neighbours, none are afterwards.
\<close>

theorem kmalloc_first_fit:
  assumes "heap_rep mm m a bs" and "n \<noteq> 0" and "unat n < 2 ^ 63 - 16"
  shows "case amalloc (round16 (unat n)) bs of
      None \<Rightarrow> kmalloc n (mm, m) = Some (0, m)
    | Some (off, bs') \<Rightarrow> \<exists>m'. kmalloc n (mm, m) = Some (of_nat (a + off + 32), m') \<and>
        heap_rep mm m' a bs' \<and> writes_in m m' (headers a bs') \<and> (coalesced bs \<longrightarrow> coalesced bs')"
  using kmalloc_rep [OF assms] coalesced_amalloc [of "round16 (unat n)" bs]
  by (auto split: option.splits)

lemma kmalloc_first_fit_witness:
  "\<exists>m'. kmalloc 100 (memory_zero\<lparr>heap_head := of_nat 4096\<rparr>,
       one_block (of_nat 4096) (of_nat 1008) (\<lambda>_. 0)) = Some (of_nat 4128, m') \<and>
     heap_rep (memory_zero\<lparr>heap_head := of_nat 4096\<rparr>) m' 4096 [(112, False), (864, True)]"
proof -
  have "heap_rep (memory_zero\<lparr>heap_head := of_nat 4096\<rparr>)
      (one_block (of_nat 4096) (of_nat 1008) (\<lambda>_. 0)) 4096 [(1008, True)]"
    by (rule one_block_rep) simp_all
  from kmalloc_first_fit [OF this, of 100] show ?thesis
    by (simp add: round16_def del: of_nat_numeral) blast
qed

text \<open>
  C14 (kfree_coalesces): freeing the payload of the block in the middle of a well-formed heap
  gives the well-formed heap in which that block is free and joined with a free successor and
  a free predecessor, so that free neighbours never pile up; only header bytes are written.
\<close>

theorem kfree_coalesces:
  assumes "heap_rep mm m a (xs @ (sz, False) # ys)"
    and "p = of_nat (a + span xs + 32)"
  shows "heap_rep mm (kfree p m) a (release xs sz ys) \<and>
    writes_in m (kfree p m) (headers a (xs @ (sz, False) # ys)) \<and>
    (coalesced (xs @ (sz, False) # ys) \<longrightarrow> coalesced (release xs sz ys))"
  unfolding assms(2) using kfree_rep [OF assms(1)] coalesced_release by blast

lemma kfree_coalesces_witness:
  "heap_rep (memory_zero\<lparr>heap_head := of_nat 4096\<rparr>)
     (kfree (of_nat 4128) (set_free (of_nat 4096) False
       (one_block (of_nat 4096) (of_nat 1008) (\<lambda>_. 0)))) 4096 [(1008, True)]"
proof -
  let ?mm = "memory_zero\<lparr>heap_head := of_nat 4096\<rparr>"
  have "heap_rep ?mm (one_block (of_nat 4096) (of_nat 1008) (\<lambda>_. 0)) 4096 [(1008, True)]"
    by (rule one_block_rep) simp_all
  with hseg_set_free [of 4096 1008 True "[]" _ 0 0 False]
  have "heap_rep ?mm (set_free (of_nat 4096) False
      (one_block (of_nat 4096) (of_nat 1008) (\<lambda>_. 0))) 4096 ([] @ (1008, False) # [])"
    by (simp add: heap_rep_def region_ok_def aligned_sizes_def del: of_nat_numeral hseg.simps)
  from kfree_coalesces [OF this refl] show ?thesis
    by (simp add: release_def absorb_next_def absorb_prev_def)
qed

text \<open>
  C20 (kmalloc_kfree_roundtrip): in a coalesced heap (no two neighbouring blocks are free, the
  invariant that both operations keep), freeing a block right after allocating it restores the
  list of blocks exactly, whether or not the allocation split a block.
\<close>

theorem kmalloc_kfree_roundtrip:
  assumes "heap_rep mm m a bs" and "coalesced bs" and "n \<noteq> 0" and "unat n < 2 ^ 63 - 16"
    and "kmalloc n (mm, m) = Some (p, m')"
  shows "heap_rep mm (kfree p m') a bs"
proof (cases "amalloc (round16 (unat n)) bs")
  case None
  with kmalloc_rep [OF assms(1,3,4)] assms(1,5) show ?thesis by (simp add: kfree_def)
next
  case (Some r)
  obtain off bs' where r: "r = (off, bs')" by fastforce
  with kmalloc_rep [OF assms(1,3,4)] Some assms(5)
  have p: "p = of_nat (a + off + 32)" and rep: "heap_rep mm m' a bs'" by auto
  from amalloc_split [OF Some [unfolded r]] obtain xs sz ys where
    bs: "bs = xs @ (sz, True) # ys" and off: "off = span xs"
    and bs': "bs' = xs @ (if round16 (unat n) + 48 \<le> sz
      then (round16 (unat n), False) # (sz - round16 (unat n) - 32, True) # ys
      else (sz, False) # ys)" by blast
  have "xs \<noteq> [] \<Longrightarrow> \<not> snd (last xs)" and "ys \<noteq> [] \<Longrightarrow> \<not> snd (hd ys)"
    using assms(2) unfolding bs coalesced_append by (cases ys; auto)+
  then have prev: "absorb_prev xs zs = xs @ zs"
    and nxt: "absorb_next sz ys = (sz, True) # ys" for zs
    by (auto simp: absorb_prev_def absorb_next_def split: list.split prod.split bool.split)
  show ?thesis
  proof (cases "round16 (unat n) + 48 \<le> sz")
    case True
    let ?r = "round16 (unat n)"
    have "?r + 32 + (sz - ?r - 32) = sz" using True by simp
    then have "release xs ?r ((sz - ?r - 32, True) # ys) = bs"
      by (simp add: release_def prev absorb_next_def bs)
    with kfree_rep(1) [OF rep [unfolded bs' if_P [OF True]]] show ?thesis
      by (simp only: p off)
  next
    case False
    have "release xs sz ys = bs" by (simp add: release_def prev nxt bs)
    with kfree_rep(1) [OF rep [unfolded bs' if_not_P [OF False]]] show ?thesis
      by (simp only: p off)
  qed
qed

lemma kmalloc_kfree_roundtrip_witness:
  "\<exists>p m'. kmalloc 100 (memory_zero\<lparr>heap_head := of_nat 4096\<rparr>,
       one_block (of_nat 4096) (of_nat 1008) (\<lambda>_. 0)) = Some (p, m') \<and>
     heap_rep (memory_zero\<lparr>heap_head := of_nat 4096\<rparr>) (kfree p m') 4096 [(1008, True)]"
proof -
  let ?mm = "memory_zero\<lparr>heap_head := of_nat 4096\<rparr>"
  let ?m = "one_block (of_nat 4096) (of_nat 1008) (\<lambda>_. 0)"
  have rep: "heap_rep ?mm ?m 4096 [(1008, True)]" by (rule one_block_rep) simp_all
  from kmalloc_rep [OF rep, of 100] obtain p m' where "kmalloc 100 (?mm, ?m) = Some (p, m')"
    by (auto simp: round16_def simp del: of_nat_numeral)
  with kmalloc_kfree_roundtrip [OF rep _ _ _ this] show ?thesis by auto
qed

text \<open>
  C7 (heap_run_safe): whatever a client does with the heap (allocations of any size below
  \<open>2 ^ 63 - 16\<close>, frees of its live pointers, writes into its live allocations, in any order),
  live allocations are not null, lie inside the heap region, and are at least 32 bytes
  apart, so that none overlaps another or the header in front of another.
\<close>

theorem heap_run_safe:
  assumes "heap_run mm m0 m live" and "heap_rep mm m0 a [(sz, True)]"
    and "live p = Some n" and "live q = Some k" and "p \<noteq> q"
  shows "p \<noteq> 0 \<and> a + 32 \<le> unat p \<and> unat p + n \<le> a + 32 + sz \<and>
    (unat p + n + 32 \<le> unat q \<or> unat q + k + 32 \<le> unat p)"
proof (intro conjI)
  from heap_run_inv [OF assms(1) heap_inv_start [OF assms(2)]] obtain bs where
    inv: "heap_inv mm a (32 + sz) m live bs" by blast
  with assms(3,4) obtain s t where s: "n \<le> s" "(unat p, s) \<in> allocated a bs"
    and t: "k \<le> t" "(unat q, t) \<in> allocated a bs"
    unfolding heap_inv_def live_ok_def by blast
  have reg: "region_ok a bs" and len: "span bs = 32 + sz"
    using inv by (simp_all add: heap_inv_def heap_rep_def)
  show "p \<noteq> 0" using allocated_addr(2) [OF reg s(2)] by simp
  show "a + 32 \<le> unat p" "unat p + n \<le> a + 32 + sz"
    using allocated_bounds [OF s(2)] s(1) len by simp_all
  show "unat p + n + 32 \<le> unat q \<or> unat q + k + 32 \<le> unat p"
    using allocated_disjoint [OF s(2) t(2)] s(1) t(1) assms(5) by auto
qed

lemma heap_run_safe_witness:
  "\<exists>m. heap_run (memory_zero\<lparr>heap_head := of_nat 4096\<rparr>)
        (one_block (of_nat 4096) (of_nat 1008) (\<lambda>_. 0)) m [4128 \<mapsto> 100, 4272 \<mapsto> 200] \<and>
      (unat (4128 :: u64) + 100 + 32 \<le> unat (4272 :: u64) \<or>
       unat (4272 :: u64) + 200 + 32 \<le> unat (4128 :: u64))"
proof -
  let ?mm = "memory_zero\<lparr>heap_head := of_nat 4096\<rparr>"
  let ?m = "one_block (of_nat 4096) (of_nat 1008) (\<lambda>_. 0)"
  have rep: "heap_rep ?mm ?m 4096 [(1008, True)]" by (rule one_block_rep) simp_all
  have r: "round16 100 = 112" "round16 200 = 208" by (simp_all add: round16_def)
  from kmalloc_rep [OF rep, of 100] obtain m1 where 1: "kmalloc 100 (?mm, ?m) = Some (4128, m1)"
    and rep1: "heap_rep ?mm m1 4096 [(112, False), (864, True)]" by (auto simp: r)
  from kmalloc_rep [OF rep1, of 200] obtain m2 where 2: "kmalloc 200 (?mm, m1) = Some (4272, m2)"
    by (auto simp: r)
  have run1: "heap_run ?mm ?m m1 [4128 \<mapsto> 100]"
    using heap_run.alloc [OF heap_run.start _ 1] by simp
  have run2: "heap_run ?mm ?m m2 [4128 \<mapsto> 100, 4272 \<mapsto> 200]"
    using heap_run.alloc [OF run1 _ 2] by simp
  from heap_run_safe [OF this rep, of 4128 100 4272 200] run2 show ?thesis by auto
qed

text \<open>
  C21 (heap_run_all_freed): when a client has freed everything it got, in whatever order, the
  heap is one free block of the original size again: nothing leaks and no fragment remains,
  and \<open>memory_heap_free_bytes\<close> returns the original size.
\<close>

theorem heap_run_all_freed:
  assumes "heap_run mm m0 m Map.empty" and "heap_rep mm m0 a [(sz, True)]"
  shows "heap_rep mm m a [(sz, True)] \<and> memory_heap_free_bytes (mm, m) = Some (of_nat sz)"
proof (rule conjI)
  from heap_run_inv [OF assms(1) heap_inv_start [OF assms(2)]] obtain bs where
    rep: "heap_rep mm m a bs" and co: "coalesced bs" and len: "span bs = 32 + sz"
    and live: "live_ok a bs Map.empty" unfolding heap_inv_def by blast
  have "(q, s) \<notin> allocated a bs" for q s using live by (auto simp: live_ok_def)
  then have "allocated a bs = {}" by auto
  then have free: "b \<in> set bs \<Longrightarrow> snd b" for b
    by (induction a bs rule: allocated.induct) (auto split: if_splits)
  have "bs = [(sz, True)]"
  proof (cases bs rule: coalesced.cases)
    case (1 b c cs)
    with co free show ?thesis by auto
  next
    case (2 b)
    with len free show ?thesis by (cases b) auto
  next
    case 3
    with len show ?thesis by simp
  qed
  with rep show rep': "heap_rep mm m a [(sz, True)]" by simp
  then have "region_ok a [(sz, True)]" "hseg m 0 a [(sz, True)] 0" "heap_head mm = of_nat a"
    by (simp_all add: heap_rep_def)
  with heap_free_from_sum [of a "[(sz, True)]" m 0 0]
  show "memory_heap_free_bytes (mm, m) = Some (of_nat sz)"
    by (simp add: memory_heap_free_bytes_def seg_head_def)
qed

lemma heap_run_all_freed_witness:
  "\<exists>p m. kmalloc 100 (memory_zero\<lparr>heap_head := of_nat 4096\<rparr>,
       one_block (of_nat 4096) (of_nat 1008) (\<lambda>_. 0)) = Some (p, m) \<and> p \<noteq> 0 \<and>
     memory_heap_free_bytes (memory_zero\<lparr>heap_head := of_nat 4096\<rparr>, kfree p m) = Some (of_nat 1008)"
proof -
  let ?mm = "memory_zero\<lparr>heap_head := of_nat 4096\<rparr>"
  let ?m = "one_block (of_nat 4096) (of_nat 1008) (\<lambda>_. 0)"
  have rep: "heap_rep ?mm ?m 4096 [(1008, True)]" by (rule one_block_rep) simp_all
  from kmalloc_rep [OF rep, of 100] obtain m1 where 1: "kmalloc 100 (?mm, ?m) = Some (4128, m1)"
    by (auto simp: round16_def)
  have "heap_run ?mm ?m m1 [4128 \<mapsto> 100]"
    using heap_run.alloc [OF heap_run.start _ 1] by simp
  from heap_run.free [OF this, of 4128] have "heap_run ?mm ?m (kfree 4128 m1) Map.empty"
    by (simp add: fun_upd_upd)
  from heap_run_all_freed [OF this rep] 1 show ?thesis by auto
qed

text \<open>
  C40 (kmalloc_size_overflow): a request for more than \<open>2 ^ 64 - 16\<close> bytes does not fail while
  any block is free. The rounding wraps to 0, and \<open>kmalloc\<close> returns the payload of the first
  free block, whatever its size: a block of at least 48 bytes is cut down to no bytes at all
  with the rest left free behind it, a smaller one is handed out as it is. Only when no block
  is free does it return null, with memory unchanged.
\<close>

theorem kmalloc_size_overflow:
  assumes "heap_rep mm m a bs" and "18446744073709551600 < unat n"
  shows "((\<forall>(s, f) \<in> set bs. \<not> f) \<longrightarrow> kmalloc n (mm, m) = Some (0, m)) \<and>
    (\<forall>xs sz ys. bs = xs @ (sz, True) # ys \<and> (\<forall>(s, f) \<in> set xs. \<not> f) \<longrightarrow>
      (\<exists>m'. kmalloc n (mm, m) = Some (of_nat (a + span xs + 32), m') \<and>
        heap_rep mm m' a (xs @ (if 48 \<le> sz then [(0, False), (sz - 32, True)] else [(sz, False)]) @ ys)))"
proof -
  have rest: "heap_head mm = of_nat a" "region_ok a bs" "hseg m 0 a bs 0" "bs \<noteq> []"
    using assms(1) by (simp_all add: heap_rep_def)
  then have "heap_head mm = seg_head a bs" "heap_head mm \<noteq> 0"
    using region_addr(3) [of a "hd bs" "tl bs"] by (simp_all add: seg_head_def)
  moreover have "n \<noteq> 0" using assms(2) by auto
  moreover have "align_up_uintptr n 16 = of_nat 0"
  proof -
    have "(unat n + 15) mod 18446744073709551616 = unat n + 15 - 18446744073709551616"
      using assms(2) unat_u64_bound [of n] by (subst le_mod_geq) simp_all
    then have "unat (n + 15) < 16"
      using unat_u64_bound [of n] by (simp add: unat_word_ariths)
    then have "unat (align_up_uintptr n 16) = 0"
      by (simp add: align_up_eq_down unat_align_down add.commute)
    then show ?thesis by (simp add: unat_eq_0)
  qed
  ultimately have start: "kmalloc n (mm, m) = kmalloc_from (of_nat 0) (seg_head a bs) m"
    by (simp add: kmalloc_def)
  note from_list = kmalloc_from_amalloc [OF rest(2,3), of 0]
  show ?thesis
  proof (intro conjI allI impI)
    assume "\<forall>(s, f) \<in> set bs. \<not> f"
    then have "amalloc 0 bs = None" by (auto simp: amalloc_None)
    then show "kmalloc n (mm, m) = Some (0, m)" using from_list start by simp
  next
    fix xs sz ys assume split: "bs = xs @ (sz, True) # ys \<and> (\<forall>(s, f) \<in> set xs. \<not> f)"
    let ?bs' = "xs @ (if 48 \<le> sz then [(0, False), (sz - 32, True)] else [(sz, False)]) @ ys"
    have "amalloc 0 (xs @ (sz, True) # ys) = Some (span xs, ?bs')"
      using conjunct2 [OF split] by (induction xs) auto
    then have am: "amalloc 0 bs = Some (span xs, ?bs')" using split by simp
    show "\<exists>m'. kmalloc n (mm, m) = Some (of_nat (a + span xs + 32), m') \<and> heap_rep mm m' a ?bs'"
      using from_list amalloc_region [OF am] amalloc_span [OF am] aligned_amalloc [OF am] rest assms(1) start
      by (auto simp: am heap_rep_def simp del: of_nat_add)
  qed
qed

lemma kmalloc_size_overflow_witness:
  "\<exists>m'. kmalloc 0xFFFFFFFFFFFFFFFF (memory_zero\<lparr>heap_head := of_nat 4096\<rparr>,
       one_block (of_nat 4096) (of_nat 1008) (\<lambda>_. 0)) = Some (of_nat 4128, m') \<and>
     heap_rep (memory_zero\<lparr>heap_head := of_nat 4096\<rparr>) m' 4096 [(0, False), (976, True)]"
proof -
  have "heap_rep (memory_zero\<lparr>heap_head := of_nat 4096\<rparr>)
      (one_block (of_nat 4096) (of_nat 1008) (\<lambda>_. 0)) 4096 ([] @ (1008, True) # [])"
    by (simp del: of_nat_numeral, rule one_block_rep) simp_all
  then show ?thesis
    using kmalloc_size_overflow [of _ _ 4096 "[] @ (1008, True) # []" "0xFFFFFFFFFFFFFFFF"]
    by (fastforce simp del: of_nat_numeral)
qed

end
