(* ===== verification/Memory_Init.thy ===== *)
theory Memory_Init
  imports Boot_Info Heap_Contract
begin

text \<open>
  Start-up of the memory manager (\<open>memory_init\<close> of kernel/src/memory.c): the size of the
  page pool, the reserved ranges, and the heap. It runs once, before anything allocates.
\<close>

definition memory_init :: "BootInfo option \<Rightarrow> u64 \<Rightarrow> memory_state \<times> mem \<Rightarrow> memory_state \<times> mem" where
  "memory_init boot_info kernel_end = (\<lambda>(mm, m).
     let mm1 = mm\<lparr>page_bitmap := replicate (SNSX_MAX_PAGES div 8) 0\<rparr>;
         mb0 = (case boot_info of
                  None \<Rightarrow> 64
                | Some info \<Rightarrow> if mapped_memory_mb info \<noteq> 0 then mapped_memory_mb info else 64);
         mb = (if mb0 > 64 then 64 else mb0);
         mm2 = mm1\<lparr>total_page_count := ucast ((mb * 1024 * 1024) div 4096)\<rparr>;
         reserved_top = align_up_uintptr
           (if kernel_end > 0x00100000 then kernel_end else 0x00100000) SNSX_PAGE_SIZE;
         mm3 = mark_range 0 reserved_top True mm2;
         mm4 = mark_range SNSX_APP_WINDOW_START (SNSX_APP_WINDOW_START + SNSX_APP_WINDOW_SIZE)
           True mm3
     in heap_init (mm4, m))"

section \<open>Reserving a range\<close>

lemma mark_range_used:
  assumes "bitmap_ok mm" and "unat e + 4095 < 18446744073709551616"
  shows "used_pages (mark_range s e True mm) = used_pages mm \<union>
      ({unat s div 4096..<(unat e + 4095) div 4096} \<inter> {..<page_limit mm})"
    and "bitmap_ok (mark_range s e True mm)" and "page_limit (mark_range s e True mm) = page_limit mm"
    and "heap_head (mark_range s e True mm) = heap_head mm"
proof -
  define q where "q = (unat e + 4095) div 4096"
  define l where "l = min q (page_limit mm)"
  define f where "f = unat s div 4096"
  have up: "unat (align_up_uintptr e SNSX_PAGE_SIZE div SNSX_PAGE_SIZE) = q"
    by (simp only: unat_div unat_align_up(2) [OF assms(2)] q_def) (simp add: SNSX_PAGE_SIZE_def)
  have down: "unat (align_down_uintptr s SNSX_PAGE_SIZE div SNSX_PAGE_SIZE) = f"
    by (simp only: unat_div unat_align_down(2) f_def) (simp add: SNSX_PAGE_SIZE_def)
  have l: "(if q > unat (total_page_count mm) then unat (total_page_count mm) else q) = l"
    by (simp add: l_def page_limit_def min_def)
  have eq: "mark_range s e True mm = fold (\<lambda>p. bitmap_set p True) [f..<l] mm"
    unfolding mark_range_def up down Let_def l by (rule refl)
  have "set [f..<l] \<subseteq> {..<unat (total_page_count mm)}"
    by (auto simp: l_def page_limit_def)
  from used_pages_fold_id [OF assms(1) this, of True]
  have "used_pages (mark_range s e True mm) = used_pages mm \<union> {f..<l}"
    unfolding eq by simp
  also have "{f..<l} = {f..<q} \<inter> {..<page_limit mm}" by (auto simp: l_def)
  finally show "used_pages (mark_range s e True mm) = used_pages mm \<union>
      ({unat s div 4096..<(unat e + 4095) div 4096} \<inter> {..<page_limit mm})"
    unfolding q_def f_def .
  show "bitmap_ok (mark_range s e True mm)" "page_limit (mark_range s e True mm) = page_limit mm"
    "heap_head (mark_range s e True mm) = heap_head mm"
    unfolding eq using assms(1) by (simp_all add: page_limit_def)
qed

text \<open>The size of the page pool, and the first page above the kernel.\<close>

definition pool_mb :: "BootInfo option \<Rightarrow> nat" where
  "pool_mb boot_info =
     (case boot_info of
        None \<Rightarrow> 64
      | Some info \<Rightarrow> if mapped_memory_mb info = 0 then 64 else min 64 (unat (mapped_memory_mb info)))"

definition first_page :: "u64 \<Rightarrow> nat" where
  "first_page kernel_end = (max (unat kernel_end) 0x100000 + 4095) div 4096"

definition reserved_pages :: "u64 \<Rightarrow> nat set" where
  "reserved_pages kernel_end = {..<first_page kernel_end} \<union> {1024..<2048}"

lemma pool_mb_bounds: "0 < pool_mb b" "pool_mb b \<le> 64"
  by (auto simp: pool_mb_def unat_gt_0 split: option.split)

definition marked :: "BootInfo option \<Rightarrow> u64 \<Rightarrow> memory_state \<Rightarrow> memory_state" where
  "marked boot_info kernel_end mm =
     mark_range SNSX_APP_WINDOW_START (SNSX_APP_WINDOW_START + SNSX_APP_WINDOW_SIZE) True
       (mark_range 0 (align_up_uintptr
           (if kernel_end > 0x00100000 then kernel_end else 0x00100000) SNSX_PAGE_SIZE) True
         (mm\<lparr>page_bitmap := replicate (SNSX_MAX_PAGES div 8) 0,
            total_page_count := of_nat (256 * pool_mb boot_info)\<rparr>))"

lemma memory_init_marked:
  "memory_init boot_info kernel_end (mm, m) = heap_init (marked boot_info kernel_end mm, m)"
proof -
  define mb :: u32 where "mb = (let mb0 = (case boot_info of None \<Rightarrow> 64
      | Some info \<Rightarrow> if mapped_memory_mb info \<noteq> 0 then mapped_memory_mb info else 64)
    in if mb0 > 64 then 64 else mb0)"
  have mb: "unat mb = pool_mb boot_info"
    by (auto simp: mb_def pool_mb_def min_def word_less_nat_alt Let_def split: option.split)
  then have "unat mb \<le> 64" using pool_mb_bounds by simp
  then have "unat (ucast ((mb * 1024 * 1024) div 4096) :: u64) = 256 * unat mb"
    by (simp add: unat_word_ariths unat_div unsigned_ucast_eq take_bit_eq_mod)
  then have "ucast ((mb * 1024 * 1024) div 4096) = (of_nat (256 * pool_mb boot_info) :: u64)"
    using mb pool_mb_bounds(2) [of boot_info]
    by (intro unat_inject [THEN iffD1]) (simp add: unat_of_nat_u64_small del: of_nat_mult unat_inject)
  then show ?thesis
    by (simp add: memory_init_def marked_def mb_def Let_def)
qed

lemma marked_pages:
  assumes "unat kernel_end < 2 ^ 63"
  shows "used_pages (marked boot_info kernel_end mm) =
      reserved_pages kernel_end \<inter> {..<256 * pool_mb boot_info}"
    and "alloc_ok (marked boot_info kernel_end mm)"
    and "page_limit (marked boot_info kernel_end mm) = 256 * pool_mb boot_info"
proof -
  let ?mm = "mm\<lparr>page_bitmap := replicate (SNSX_MAX_PAGES div 8) 0,
    total_page_count := of_nat (256 * pool_mb boot_info)\<rparr>"
  let ?top = "if kernel_end > 0x00100000 then kernel_end else 0x00100000 :: u64"
  let ?N = "256 * pool_mb boot_info"
  have lim: "page_limit ?mm = ?N" using pool_mb_bounds(2) [of boot_info]
    by (simp add: page_limit_def unat_of_nat_u64_small del: of_nat_mult)
  have ok: "bitmap_ok ?mm"
    using lim pool_mb_bounds(2) [of boot_info]
    by (simp add: bitmap_ok_def page_limit_def SNSX_MAX_PAGES_def)
  have none: "used_pages ?mm = {}"
    using lim pool_mb_bounds(2) [of boot_info]
    by (auto simp: used_pages_def page_limit_def bitmap_test_bit SNSX_MAX_PAGES_def)
  have top: "unat ?top = max (unat kernel_end) 0x100000"
    by (simp add: word_less_nat_alt max_def)
  then have "unat ?top + 4095 < 18446744073709551616" using assms by (simp add: max_def)
  from unat_align_up(2) [OF this] top
  have up: "unat (align_up_uintptr ?top SNSX_PAGE_SIZE) = first_page kernel_end * 4096"
    by (simp add: first_page_def)
  have fp: "first_page kernel_end * 4096 \<le> 2 ^ 63 + 4095"
  proof -
    have "first_page kernel_end * 4096 \<le> max (unat kernel_end) 0x100000 + 4095"
      by (simp add: first_page_def)
    also have "\<dots> \<le> 2 ^ 63 + 4095" using assms by simp
    finally show ?thesis .
  qed
  have e: "unat (align_up_uintptr ?top SNSX_PAGE_SIZE) + 4095 < 18446744073709551616"
    unfolding up using fp by simp
  note m3 = mark_range_used [OF ok e, of 0]
  have "(first_page kernel_end * 4096 + 4095) div 4096 = first_page kernel_end" by simp
  then have u3: "used_pages (mark_range 0 (align_up_uintptr ?top SNSX_PAGE_SIZE) True ?mm) =
      {..<first_page kernel_end} \<inter> {..<?N}"
    unfolding m3(1) none lim up by auto
  have w: "unat (SNSX_APP_WINDOW_START + SNSX_APP_WINDOW_SIZE) = 0x800000"
    "unat SNSX_APP_WINDOW_START = 0x400000"
    by (simp_all add: SNSX_APP_WINDOW_START_def SNSX_APP_WINDOW_SIZE_def)
  then have w': "unat (SNSX_APP_WINDOW_START + SNSX_APP_WINDOW_SIZE) + 4095 < 18446744073709551616"
    by simp
  note m4 = mark_range_used [OF m3(2) w', of SNSX_APP_WINDOW_START, unfolded w u3 m3(3) lim]
  show u: "used_pages (marked boot_info kernel_end mm) = reserved_pages kernel_end \<inter> {..<?N}"
    unfolding marked_def m4(1) by (auto simp: reserved_pages_def)
  show l: "page_limit (marked boot_info kernel_end mm) = ?N"
    unfolding marked_def by (rule m4(3))
  have "0 < first_page kernel_end" by (simp add: first_page_def div_greater_zero_iff)
  then have "0 \<in> used_pages (marked boot_info kernel_end mm)"
    unfolding u using pool_mb_bounds(1) by (simp add: reserved_pages_def)
  moreover have "bitmap_ok (marked boot_info kernel_end mm)" unfolding marked_def by (rule m4(2))
  ultimately show "alloc_ok (marked boot_info kernel_end mm)"
    by (simp add: alloc_ok_def bitmap_test_used)
qed

section \<open>The heap at start-up\<close>

lemma heap_init_cases:
  assumes ok: "alloc_ok mm" and res: "heap_init (mm, m) = (mm', m')"
  obtains (none) "\<forall>r. \<not> free_run mm 256 r" and "heap_head mm' = 0" and "m' = m"
      and "used_pages mm' = used_pages mm" and "alloc_ok mm'"
      and "page_limit mm' = page_limit mm"
  | (heap) r where "free_run mm 256 r" and "\<forall>r' < r. \<not> free_run mm 256 r'"
      and "heap_rep mm' m' (4096 * r) [(1048544, True)]"
      and "used_pages mm' = used_pages mm \<union> {r..<r + 256}" and "alloc_ok mm'"
      and "writes_in m m' {4096 * r..<4096 * r + 32}" and "page_limit mm' = page_limit mm"
proof -
  have bok: "bitmap_ok mm" using ok by (simp add: alloc_ok_def)
  have n: "unat SNSX_HEAP_PAGES = 256" by (simp add: SNSX_HEAP_PAGES_def)
  from bok have "SNSX_HEAP_PAGES \<noteq> 0" by (simp add: SNSX_HEAP_PAGES_def)
  from bok this show thesis
  proof (cases rule: page_alloc_cases)
    case fail
    with res have "mm' = mm\<lparr>heap_head := 0, heap_total_bytes := 0\<rparr>" "m' = m"
      by (simp_all add: heap_init_def)
    moreover have "used_pages (mm\<lparr>heap_head := 0, heap_total_bytes := 0\<rparr>) = used_pages mm"
      "page_limit (mm\<lparr>heap_head := 0, heap_total_bytes := 0\<rparr>) = page_limit mm"
      "alloc_ok (mm\<lparr>heap_head := 0, heap_total_bytes := 0\<rparr>)"
      using ok by (simp_all add: used_pages_def alloc_ok_def bitmap_ok_def bitmap_test_def
          page_limit_def)
    ultimately show thesis using fail(1) n by (intro none) simp_all
  next
    case (run r)
    note run = run [unfolded n]
    have r: "r + 256 \<le> SNSX_MAX_PAGES" using run(1) bok by (simp add: free_run_def bitmap_ok_def)
    have "r \<noteq> 0"
    proof
      assume "r = 0"
      with run(1) ok show False by (auto simp: free_run_def alloc_ok_def)
    qed
    define b where "b = page_addr r"
    have ub: "unat b = 4096 * r" using r by (simp add: b_def unat_page_addr)
    have "b = of_nat (unat b)" by simp
    then have b_eq: "b = of_nat (4096 * r)" unfolding ub .
    have b0: "b \<noteq> 0" using r \<open>r \<noteq> 0\<close> by (simp add: b_def page_addr_eq_0)
    define mm1 where "mm1 = fold (\<lambda>p. bitmap_set p True) [r..<r + 256] mm"
    have total: "SNSX_HEAP_PAGES * SNSX_PAGE_SIZE - sizeof_HeapBlock = (of_nat 1048544 :: u64)"
      by (simp add: SNSX_HEAP_PAGES_def SNSX_PAGE_SIZE_def sizeof_HeapBlock_def)
    have mm': "mm' = mm1\<lparr>heap_total_bytes := SNSX_HEAP_PAGES * SNSX_PAGE_SIZE, heap_head := b\<rparr>"
      and m': "m' = one_block b (of_nat 1048544) m"
      using res b0 run(3)
      by (simp_all add: heap_init_def Let_def total one_block_def flip: b_def mm1_def)
    have "4096 * r < 2 ^ 63" using r by (simp add: SNSX_MAX_PAGES_def)
    then have "writes_in m m' {4096 * r..<4096 * r + 32}"
      unfolding m' b_eq one_block_def
      by (intro writes_in_trans [OF _ writes_in_header(4)] writes_in_trans [OF _ writes_in_header(3)]
          writes_in_trans [OF _ writes_in_header(2)] writes_in_header(1)) auto
    moreover have "heap_rep mm' m' (4096 * r) [(1048544, True)]"
      unfolding m' b_eq
      by (rule one_block_rep) (use r \<open>r \<noteq> 0\<close> in \<open>simp_all add: mm' SNSX_MAX_PAGES_def b_eq\<close>)
    moreover have "used_pages mm' = used_pages mm1" "alloc_ok mm' = alloc_ok mm1"
      "page_limit mm' = page_limit mm"
      by (simp_all add: mm' used_pages_def alloc_ok_def bitmap_ok_def bitmap_test_def
          page_limit_def mm1_def)
    ultimately show thesis
      using run(1,2) used_pages_alloc [OF bok run(1)] alloc_ok_mark [OF ok run(1)]
      by (intro heap [of r]) (simp_all add: mm1_def)
  qed
qed

lemma first_run_above_kernel:
  fixes mm :: memory_state
  assumes "unat kernel_end < 2 ^ 63" and "first_page kernel_end \<le> 768" and "8 \<le> pool_mb boot_info"
    and mm1: "mm1 = marked boot_info kernel_end mm"
    and "free_run mm1 256 r" and "\<forall>r' < r. \<not> free_run mm1 256 r'"
  shows "r = first_page kernel_end"
proof -
  note mp = marked_pages [OF assms(1), of boot_info mm, folded mm1]
  let ?f = "first_page kernel_end"
  have used: "bitmap_test mm1 p \<longleftrightarrow> p \<in> reserved_pages kernel_end" if "p < 256 * pool_mb boot_info" for p
  proof -
    have "p \<in> used_pages mm1 \<longleftrightarrow> p \<in> reserved_pages kernel_end" using that mp(1) by simp
    moreover have "p < unat (total_page_count mm1)" using that mp(3) by (simp add: page_limit_def)
    ultimately show ?thesis by (simp add: used_pages_def)
  qed
  have "free_run mm1 256 ?f"
    unfolding free_run_def
  proof (intro conjI allI impI)
    show "?f + 256 \<le> unat (total_page_count mm1)"
      using assms(2,3) mp(3) by (simp add: page_limit_def)
    fix p assume "?f \<le> p \<and> p < ?f + 256"
    with assms(2,3) show "\<not> bitmap_test mm1 p" by (subst used) (auto simp: reserved_pages_def)
  qed
  then have "r \<le> ?f" using assms(6) by (meson linorder_not_less)
  moreover have "?f \<le> r"
  proof (rule ccontr)
    assume "\<not> ?f \<le> r"
    with assms(2,3) have "bitmap_test mm1 r" by (subst used) (auto simp: reserved_pages_def)
    with assms(5) show False by (simp add: free_run_def)
  qed
  ultimately show ?thesis by simp
qed

text \<open>The 256 pages from \<open>r\<close> on are in a pool of \<open>limit\<close> pages and none of them is reserved.\<close>

definition heap_fits :: "u64 \<Rightarrow> nat \<Rightarrow> nat \<Rightarrow> bool" where
  "heap_fits kernel_end limit r \<longleftrightarrow>
     r + 256 \<le> limit \<and> {r..<r + 256} \<inter> reserved_pages kernel_end = {}"

section \<open>Properties\<close>

text \<open>
  C26 (memory_init_layout): for every boot information and every kernel end below \<open>2 ^ 63\<close>,
  \<open>memory_init\<close> leaves a sound page allocator of at most 64 MiB, in which page 0, the first
  MiB, the kernel image and the application window are reserved. When every 256 pages in a row
  inside the pool meet a reserved page, the heap is off and memory is unchanged; otherwise the
  heap is one well-formed free block in the lowest 256 pages in a row that are disjoint from
  every reserved page, these are themselves marked as used, and only the block's header was
  written.
\<close>

theorem memory_init_layout:
  assumes "unat kernel_end < 2 ^ 63" and "memory_init boot_info kernel_end (mm, m) = (mm', m')"
  shows "alloc_ok mm' \<and> page_limit mm' = 256 * pool_mb boot_info \<and>
    (if \<forall>r. \<not> heap_fits kernel_end (page_limit mm') r
     then heap_head mm' = 0 \<and> m' = m \<and>
       used_pages mm' = reserved_pages kernel_end \<inter> {..<page_limit mm'}
     else (\<exists>r. heap_fits kernel_end (page_limit mm') r \<and>
        (\<forall>r' < r. \<not> heap_fits kernel_end (page_limit mm') r') \<and>
        heap_rep mm' m' (4096 * r) [(1048544, True)] \<and>
        used_pages mm' = (reserved_pages kernel_end \<inter> {..<page_limit mm'}) \<union> {r..<r + 256} \<and>
        writes_in m m' {4096 * r..<4096 * r + 32}))"
proof -
  let ?mm = "marked boot_info kernel_end mm"
  note mp = marked_pages [OF assms(1), of boot_info mm]
  have bit: "bitmap_test ?mm p \<longleftrightarrow> p \<in> reserved_pages kernel_end" if "p < page_limit ?mm" for p
    using mp(1,3) that eqset_imp_iff [OF mp(1), of p] by (simp add: used_pages_def page_limit_def)
  have fits: "free_run ?mm 256 r \<longleftrightarrow> heap_fits kernel_end (page_limit ?mm) r" for r
    using bit by (auto simp: free_run_def heap_fits_def simp flip: page_limit_def)
  from assms(2) have "heap_init (?mm, m) = (mm', m')" by (simp add: memory_init_marked)
  with mp(2) show ?thesis
  proof (cases rule: heap_init_cases)
    case none
    with mp fits show ?thesis by simp
  next
    case (heap r)
    then have "heap_fits kernel_end (page_limit mm') r"
      "\<forall>r' < r. \<not> heap_fits kernel_end (page_limit mm') r'" by (simp_all add: fits)
    with heap mp show ?thesis by auto
  qed
qed

lemma memory_init_layout_witness:
  "alloc_ok (fst (memory_init None 0x123456 (memory_zero, \<lambda>_. 0)))"
proof -
  obtain mm' m' where res: "memory_init None 0x123456 (memory_zero, \<lambda>_. 0) = (mm', m')" by fastforce
  from memory_init_layout [OF _ res] show ?thesis by (simp add: res)
qed

text \<open>
  C27 (memory_init_heap_above_kernel): with at least 8 MiB mapped and a kernel that ends below
  3 MiB, the heap always exists: it is the first 256 pages above the kernel (and above the
  first MiB), and the kernel reports exactly those pages, the ones below and the window's
  1024 as used.
\<close>

theorem memory_init_heap_above_kernel:
  assumes "unat kernel_end \<le> 0x300000" and "8 \<le> pool_mb boot_info"
    and "memory_init boot_info kernel_end (mm, m) = (mm', m')"
  shows "unat (heap_head mm') = 4096 * first_page kernel_end \<and>
    unat (memory_used_bytes mm') = 4096 * (first_page kernel_end + 256 + 1024) \<and>
    memory_heap_free_bytes (mm', m') = Some 1048544"
proof -
  let ?mm = "marked boot_info kernel_end mm" and ?f = "first_page kernel_end"
  have ke: "unat kernel_end < 2 ^ 63" using assms(1) by simp
  note mp = marked_pages [OF ke, of boot_info mm]
  have f: "?f \<le> 768" using assms(1) by (simp add: first_page_def)
  note first = first_run_above_kernel [OF ke f assms(2) refl]
  from assms(3) have "heap_init (?mm, m) = (mm', m')" by (simp add: memory_init_marked)
  with mp(2) show ?thesis
  proof (cases rule: heap_init_cases)
    case none
    have "free_run ?mm 256 ?f"
      unfolding free_run_def
    proof (intro conjI allI impI)
      show "?f + 256 \<le> unat (total_page_count ?mm)"
        using f assms(2) mp(3) by (simp add: page_limit_def)
      fix p assume p: "?f \<le> p \<and> p < ?f + 256"
      then have "p \<notin> used_pages ?mm" using f by (auto simp: mp(1) reserved_pages_def)
      moreover have "p < unat (total_page_count ?mm)"
        using p f assms(2) mp(3) by (simp add: page_limit_def)
      ultimately show "\<not> bitmap_test ?mm p" by (simp add: used_pages_def)
    qed
    with none(1) show ?thesis by blast
  next
    case (heap r)
    have r: "r = ?f" using first [OF heap(1,2)] .
    have rep: "heap_head mm' = of_nat (4096 * r)" "region_ok (4096 * r) [(1048544, True)]"
      "hseg m' 0 (4096 * r) [(1048544, True)] 0"
      using heap(3) by (simp_all add: heap_rep_def)
    have "used_pages mm' = {..<?f + 256} \<union> {1024..<2048}"
      unfolding heap(4) mp(1) r using f assms(2) by (auto simp: reserved_pages_def)
    moreover have "{..<?f + 256} \<inter> {1024..<2048} = {}" using f by auto
    ultimately have card: "card (used_pages mm') = ?f + 256 + 1024"
      by (simp add: card_Un_disjoint)
    have "unat (heap_head mm') = 4096 * ?f"
      using region_addr(1) [OF rep(2)] rep(1) by (simp only: r)
    moreover have "memory_heap_free_bytes (mm', m') = Some 1048544"
      using heap_free_from_sum [OF rep(2,3), of 0] rep(1)
      by (simp add: memory_heap_free_bytes_def seg_head_def)
    moreover have "bitmap_ok mm'" using heap(5) by (simp add: alloc_ok_def)
    ultimately show ?thesis by (simp add: unat_memory_bytes(2) card)
  qed
qed

lemma memory_init_heap_above_kernel_witness:
  "unat (heap_head (fst (memory_init None 0x123456 (memory_zero, \<lambda>_. 0)))) = 4096 * 0x124"
proof -
  obtain mm' m' where res: "memory_init None 0x123456 (memory_zero, \<lambda>_. 0) = (mm', m')" by fastforce
  from memory_init_heap_above_kernel [OF _ _ res] show ?thesis
    by (simp add: res pool_mb_def first_page_def)
qed

end
