(* ===== verification/Ata_Drive.thy ===== *)
theory Ata_Drive
  imports Port_IO Phys_Memory
begin

text \<open>
  The disk on the primary ATA channel, as the driver of kernel/src/ata.c may rely on it: the
  PIO protocol of the READ SECTORS command (ATA, 28-bit addresses, device 0) as an automaton
  over the port accesses. Nothing here is code of the repository. \<open>ata_serves\<close> says what the
  drive promises in each phase of the protocol, and it promises nothing to a host that writes
  a register while the drive may be busy, reads data it has not seen announced, leaves out one
  of the address registers or the LBA bit, or selects the other device.
\<close>

section \<open>The status register\<close>

definition status_busy :: "u8 \<Rightarrow> bool" where "status_busy s \<longleftrightarrow> bit s 7"
definition status_failed :: "u8 \<Rightarrow> bool" where "status_failed s \<longleftrightarrow> bit s 0 \<or> bit s 5"
definition status_data :: "u8 \<Rightarrow> bool" where "status_data s \<longleftrightarrow> \<not> bit s 7 \<and> bit s 3"

text \<open>Reading the status register again and again.\<close>

definition poll_once :: "device \<Rightarrow> history \<Rightarrow> history" where
  "poll_once dev tr = tr @ [In8 0x1F7 (dev_in8 dev tr 0x1F7)]"

fun poll_history :: "device \<Rightarrow> nat \<Rightarrow> history \<Rightarrow> history" where
  "poll_history dev 0 tr = tr"
| "poll_history dev (Suc k) tr = poll_history dev k (poll_once dev tr)"

definition poll_status :: "device \<Rightarrow> nat \<Rightarrow> history \<Rightarrow> u8" where
  "poll_status dev k tr = dev_in8 dev (poll_history dev k tr) 0x1F7"

lemma poll_shift [simp]: "poll_status dev k (poll_once dev tr) = poll_status dev (Suc k) tr"
  by (simp add: poll_status_def)

section \<open>The phases of the protocol\<close>

text \<open>
  \<open>Unsettled\<close>: no command is outstanding, but the drive may still be busy (power-on, the end
  of a transfer). \<open>Quiescent\<close>: the same, and the host has read a status without BSY since.
  \<open>Awaiting\<close>: a command was accepted and its next sector has not been announced to the host.
  \<open>Transfer i\<close>: the host has read DRQ without BSY, and then \<open>i\<close> words of the sector.
  \<open>Resetting\<close>: SRST is held. \<open>Unspecified\<close>: the host has left the protocol; only a software
  reset leads out.
\<close>

datatype drive_phase = Unsettled | Quiescent | Awaiting | Transfer nat | Resetting | Unspecified

text \<open>A register holds \<open>None\<close> while the host has not written it: after a reset, and after a
  command, which may leave anything in the registers.\<close>

record ata_drive =
  drive_phase :: drive_phase
  reg_count :: "u8 option"
  reg_low :: "u8 option"
  reg_mid :: "u8 option"
  reg_high :: "u8 option"
  reg_drive :: "u8 option"
  next_sector :: nat
  sectors_left :: nat

definition drive_zero :: ata_drive where
  "drive_zero = \<lparr>drive_phase = Unsettled, reg_count = None, reg_low = None, reg_mid = None,
     reg_high = None, reg_drive = None, next_sector = 0, sectors_left = 0\<rparr>"

text \<open>
  The addressed sector: 28 bits, the low four of the drive register on top. Bit 6 of that
  register selects LBA addressing, bit 4 the other device. A count of 0 means 256 sectors.
\<close>

definition drive_lba :: "u8 \<Rightarrow> u8 \<Rightarrow> u8 \<Rightarrow> u8 \<Rightarrow> nat" where
  "drive_lba low mid high drv =
     unat low + 256 * unat mid + 65536 * unat high + 16777216 * (unat drv mod 16)"

definition lba_mode :: "u8 \<Rightarrow> bool" where "lba_mode v \<longleftrightarrow> bit v 6"
definition other_device :: "u8 \<Rightarrow> bool" where "other_device v \<longleftrightarrow> bit v 4"
definition soft_reset :: "u8 \<Rightarrow> bool" where "soft_reset v \<longleftrightarrow> bit v 2"

definition command_sectors :: "u8 \<Rightarrow> nat" where
  "command_sectors v = (if v = 0 then 256 else unat v)"

text \<open>What the host learns from a status, what a word read from the data register does, and
  what a write to one of the registers does.\<close>

definition drive_status_read :: "u8 \<Rightarrow> ata_drive \<Rightarrow> ata_drive" where
  "drive_status_read v c =
     (case drive_phase c of
        Unsettled \<Rightarrow> if status_busy v then c else c\<lparr>drive_phase := Quiescent\<rparr>
      | Quiescent \<Rightarrow> if status_busy v then c\<lparr>drive_phase := Unsettled\<rparr> else c
      | Awaiting \<Rightarrow>
          if status_busy v then c
          else if status_failed v then c\<lparr>drive_phase := Unsettled\<rparr>
          else if status_data v then c\<lparr>drive_phase := Transfer 0\<rparr>
          else c
      | _ \<Rightarrow> c)"

definition sector_read :: "ata_drive \<Rightarrow> ata_drive" where
  "sector_read c =
     (if sectors_left c \<le> 1 then c\<lparr>drive_phase := Unsettled, sectors_left := 0\<rparr>
      else c\<lparr>drive_phase := Awaiting, next_sector := next_sector c + 1,
             sectors_left := sectors_left c - 1\<rparr>)"

definition drive_data_read :: "ata_drive \<Rightarrow> ata_drive" where
  "drive_data_read c =
     (case drive_phase c of
        Transfer i \<Rightarrow> if i < 255 then c\<lparr>drive_phase := Transfer (i + 1)\<rparr> else sector_read c
      | Resetting \<Rightarrow> c
      | _ \<Rightarrow> c\<lparr>drive_phase := Unspecified\<rparr>)"

definition accept_read :: "nat \<Rightarrow> nat \<Rightarrow> ata_drive \<Rightarrow> ata_drive" where
  "accept_read lba n c =
     c\<lparr>drive_phase := Awaiting, next_sector := lba, sectors_left := n, reg_count := None,
       reg_low := None, reg_mid := None, reg_high := None, reg_drive := None\<rparr>"

definition drive_command :: "u8 \<Rightarrow> ata_drive \<Rightarrow> ata_drive" where
  "drive_command v c =
     (case (reg_count c, reg_low c, reg_mid c, reg_high c, reg_drive c) of
        (Some n, Some low, Some mid, Some high, Some drv) \<Rightarrow>
          if v = 0x20 \<and> lba_mode drv
          then accept_read (drive_lba low mid high drv) (command_sectors n) c
          else c\<lparr>drive_phase := Unspecified\<rparr>
      | _ \<Rightarrow> c\<lparr>drive_phase := Unspecified\<rparr>)"

definition drive_register_write :: "u16 \<Rightarrow> u8 \<Rightarrow> ata_drive \<Rightarrow> ata_drive" where
  "drive_register_write p v c =
     (if drive_phase c = Resetting then c
      else if drive_phase c \<noteq> Quiescent then c\<lparr>drive_phase := Unspecified\<rparr>
      else if p = 0x1F2 then c\<lparr>reg_count := Some v\<rparr>
      else if p = 0x1F3 then c\<lparr>reg_low := Some v\<rparr>
      else if p = 0x1F4 then c\<lparr>reg_mid := Some v\<rparr>
      else if p = 0x1F5 then c\<lparr>reg_high := Some v\<rparr>
      else if p = 0x1F6 then
        (if other_device v then c\<lparr>drive_phase := Unspecified\<rparr> else c\<lparr>reg_drive := Some v\<rparr>)
      else if p = 0x1F7 then drive_command v c
      else c\<lparr>drive_phase := Unspecified\<rparr>)"

definition drive_control_write :: "u8 \<Rightarrow> ata_drive \<Rightarrow> ata_drive" where
  "drive_control_write v c =
     (if soft_reset v then c\<lparr>drive_phase := Resetting\<rparr>
      else if drive_phase c = Resetting then drive_zero
      else c)"

definition ata_ports :: "u16 set" where
  "ata_ports = {0x1F0, 0x1F1, 0x1F2, 0x1F3, 0x1F4, 0x1F5, 0x1F6, 0x1F7}"

fun drive_step :: "io \<Rightarrow> ata_drive \<Rightarrow> ata_drive" where
  "drive_step (Out8 p v) c =
     (if p = 0x3F6 then drive_control_write v c
      else if p \<in> ata_ports then drive_register_write p v c
      else c)"
| "drive_step (In8 p v) c = (if p = 0x1F7 then drive_status_read v c else c)"
| "drive_step (In16 p v) c = (if p = 0x1F0 then drive_data_read c else c)"

definition drive_after :: "history \<Rightarrow> ata_drive" where
  "drive_after tr = fold drive_step tr drive_zero"

text \<open>No command is outstanding and the protocol was kept so far.\<close>

definition settled :: "ata_drive \<Rightarrow> bool" where
  "settled c \<longleftrightarrow> drive_phase c = Unsettled \<or> drive_phase c = Quiescent"

lemma drive_after_append: "drive_after (tr @ ev) = fold drive_step ev (drive_after tr)"
  by (simp add: drive_after_def)

lemma drive_after_poll:
  "drive_after (poll_once dev tr) = drive_status_read (poll_status dev 0 tr) (drive_after tr)"
  by (simp add: poll_once_def drive_after_append poll_status_def)

text \<open>Traffic on other ports does not concern the drive.\<close>

lemma drive_step_elsewhere:
  "io_port e \<notin> insert 0x3F6 ata_ports \<Longrightarrow> drive_step e c = c"
  by (cases e) (auto simp: ata_ports_def)

lemma drive_after_elsewhere:
  assumes "only_ports P tr tr'" and "P \<inter> insert 0x3F6 ata_ports = {}"
  shows "drive_after tr' = drive_after tr"
proof -
  obtain ev where ev: "tr' = tr @ ev" "\<forall>e \<in> set ev. io_port e \<in> P"
    using assms(1) by (auto simp: only_ports_def)
  have "drive_step e c = c" if "e \<in> set ev" for e c
    using that ev(2) assms(2) by (intro drive_step_elsewhere) blast
  then have "fold drive_step ev c = c" for c by (induction ev) simp_all
  then show ?thesis by (simp add: ev(1) drive_after_append)
qed

section \<open>What the drive promises\<close>

text \<open>The contents of the disk, by byte, and its 16-bit little-endian words.\<close>

definition disk_bytes :: "(nat \<Rightarrow> u8) \<Rightarrow> nat \<Rightarrow> nat \<Rightarrow> bytes" where
  "disk_bytes disk off n = map (\<lambda>i. disk (off + i)) [0..<n]"

definition disk_word :: "(nat \<Rightarrow> u8) \<Rightarrow> nat \<Rightarrow> u16" where
  "disk_word disk i = of_nat (le_value [disk (2 * i), disk (2 * i + 1)])"

text \<open>
  A drive of \<open>cap\<close> sectors with the contents \<open>disk\<close> and no unreadable sector. With no command
  outstanding it stops being busy; it announces each sector of an accepted command that lies
  on the disk, and reports no error before; of an announced sector it delivers the words in
  order. In the other phases it promises nothing. The bound on
  the polls is the time the drive takes, measured in status reads: 100000 is the driver's
  patience. ERR and DF are meant to be read only when BSY is clear; that the drive clears them
  while it is busy is a separate clause, which the driver needs (it looks at them first).
\<close>

definition settles :: "device \<Rightarrow> bool" where
  "settles dev \<longleftrightarrow> (\<forall>tr. settled (drive_after tr) \<longrightarrow>
     (\<exists>k < 100000. \<not> status_busy (poll_status dev k tr)))"

definition announces :: "device \<Rightarrow> nat \<Rightarrow> bool" where
  "announces dev cap \<longleftrightarrow>
     (\<forall>tr. drive_phase (drive_after tr) = Awaiting \<and>
        next_sector (drive_after tr) + sectors_left (drive_after tr) \<le> cap \<longrightarrow>
        (\<exists>k < 100000. status_data (poll_status dev k tr) \<and>
           (\<forall>j \<le> k. \<not> status_busy (poll_status dev j tr) \<longrightarrow> \<not> status_failed (poll_status dev j tr))))"

definition delivers :: "device \<Rightarrow> (nat \<Rightarrow> u8) \<Rightarrow> nat \<Rightarrow> bool" where
  "delivers dev disk cap \<longleftrightarrow>
     (\<forall>tr i. drive_phase (drive_after tr) = Transfer i \<and>
        next_sector (drive_after tr) + sectors_left (drive_after tr) \<le> cap \<longrightarrow>
        dev_in16 dev tr 0x1F0 = disk_word disk (256 * next_sector (drive_after tr) + i))"

definition in_protocol :: "ata_drive \<Rightarrow> bool" where
  "in_protocol c \<longleftrightarrow> drive_phase c \<noteq> Resetting \<and> drive_phase c \<noteq> Unspecified"

definition clear_while_busy :: "device \<Rightarrow> bool" where
  "clear_while_busy dev \<longleftrightarrow>
     (\<forall>tr. in_protocol (drive_after tr) \<and> status_busy (dev_in8 dev tr 0x1F7) \<longrightarrow>
        \<not> status_failed (dev_in8 dev tr 0x1F7))"

definition ata_serves :: "device \<Rightarrow> (nat \<Rightarrow> u8) \<Rightarrow> nat \<Rightarrow> bool" where
  "ata_serves dev disk cap \<longleftrightarrow> cap \<le> 2 ^ 28 \<and> settles dev \<and> announces dev cap \<and>
     delivers dev disk cap \<and> clear_while_busy dev"

lemma poll_in_protocol:
  "in_protocol (drive_after tr) \<Longrightarrow> in_protocol (drive_after (poll_history dev j tr))"
proof (induction j arbitrary: tr)
  case (Suc j)
  have "in_protocol (drive_after (poll_once dev tr))"
    using Suc.prems by (simp add: drive_after_poll in_protocol_def drive_status_read_def
        split: drive_phase.split)
  from Suc.IH [OF this] show ?case by simp
qed simp

section \<open>A drive that keeps the promises\<close>

text \<open>
  A drive that reports BSY on the first status read after anything else, announces a sector
  only then, answers an address past its end with ERR, and has nothing but ones on the data
  register outside a transfer. The serial port of the machine is ready.
\<close>

fun last_was_status :: "history \<Rightarrow> bool" where
  "last_was_status tr = (case rev tr of In8 p v # _ \<Rightarrow> p = 0x1F7 | _ \<Rightarrow> False)"

definition within :: "nat \<Rightarrow> ata_drive \<Rightarrow> bool" where
  "within cap c \<longleftrightarrow> next_sector c + sectors_left c \<le> cap"

definition ideal_status :: "nat \<Rightarrow> history \<Rightarrow> u8" where
  "ideal_status cap tr =
     (if \<not> last_was_status tr then 0x80
      else (case drive_phase (drive_after tr) of
              Awaiting \<Rightarrow> if within cap (drive_after tr) then 0x48 else 0x41
            | Transfer i \<Rightarrow> 0x48
            | _ \<Rightarrow> 0x40))"

definition ideal_data :: "(nat \<Rightarrow> u8) \<Rightarrow> history \<Rightarrow> u16" where
  "ideal_data disk tr =
     (case drive_phase (drive_after tr) of
        Transfer i \<Rightarrow> disk_word disk (256 * next_sector (drive_after tr) + i)
      | _ \<Rightarrow> 0xFFFF)"

definition ideal_drive :: "(nat \<Rightarrow> u8) \<Rightarrow> nat \<Rightarrow> device" where
  "ideal_drive disk cap =
     \<lparr>dev_in8 = (\<lambda>tr p. if p = 0x3FD then 0x20 else if p = 0x1F7 then ideal_status cap tr else 0xFF),
      dev_in16 = (\<lambda>tr p. ideal_data disk tr)\<rparr>"

lemma ideal_poll: "poll_status (ideal_drive disk cap) 0 tr = ideal_status cap tr"
  by (simp add: poll_status_def ideal_drive_def)

lemma ideal_poll_next: "poll_status (ideal_drive disk cap) (Suc 0) tr =
    ideal_status cap (tr @ [In8 0x1F7 (ideal_status cap tr)])"
  by (simp add: poll_status_def poll_once_def ideal_drive_def)

lemma ideal_bits [simp]:
  "status_busy 0x80" "\<not> status_busy 0x48" "\<not> status_busy 0x41" "\<not> status_busy 0x40"
  "\<not> status_failed 0x80" "\<not> status_failed 0x48" "\<not> status_failed 0x40" "status_failed 0x41"
  "status_data 0x48" "\<not> status_data 0x40" "\<not> status_data 0x80" "\<not> status_data 0x41"
  by (simp_all add: status_busy_def status_failed_def status_data_def bit_iff_and_push_bit_not_eq_0)

lemma ideal_status_after_poll:
  "ideal_status cap (tr @ [In8 0x1F7 v]) =
     (case drive_phase (drive_status_read v (drive_after tr)) of
        Awaiting \<Rightarrow> if within cap (drive_status_read v (drive_after tr)) then 0x48 else 0x41
      | Transfer i \<Rightarrow> 0x48
      | _ \<Rightarrow> 0x40)"
  by (simp add: ideal_status_def drive_after_append)

lemma ideal_settles: "settles (ideal_drive disk cap)"
  unfolding settles_def
proof (intro allI impI exI [of _ "Suc 0"] conjI)
  fix tr
  show "\<not> status_busy (poll_status (ideal_drive disk cap) (Suc 0) tr)"
    by (simp add: ideal_poll_next ideal_status_after_poll split: drive_phase.split)
qed simp

lemma ideal_announces: "announces (ideal_drive disk cap) cap"
  unfolding announces_def
proof (intro allI impI exI [of _ "Suc 0"] conjI)
  fix tr j
  assume a: "drive_phase (drive_after tr) = Awaiting \<and>
    next_sector (drive_after tr) + sectors_left (drive_after tr) \<le> cap"
  then have s: "ideal_status cap tr \<in> {0x80, 0x48}" by (simp add: ideal_status_def within_def)
  with a have n: "poll_status (ideal_drive disk cap) (Suc 0) tr = 0x48"
    by (auto simp: ideal_poll_next ideal_status_after_poll drive_status_read_def within_def)
  then show "status_data (poll_status (ideal_drive disk cap) (Suc 0) tr)" by simp
  assume "j \<le> Suc 0"
  then have "j = 0 \<or> j = Suc 0" by auto
  then show "\<not> status_failed (poll_status (ideal_drive disk cap) j tr)"
    using s n by (auto simp: ideal_poll)
qed simp

lemma ideal_drive_serves: "cap \<le> 2 ^ 28 \<Longrightarrow> ata_serves (ideal_drive disk cap) disk cap"
  using ideal_settles ideal_announces
  by (auto simp: ata_serves_def delivers_def clear_while_busy_def ideal_drive_def ideal_data_def
      ideal_status_def split: drive_phase.split)

end
