(* ===== verification/Ata.thy ===== *)
theory Ata
  imports Ata_Drive
begin

text \<open>
  The ATA PIO disk driver, kernel/src/ata.c. The drive is the device parameter; what the
  driver may rely on is \<open>ata_serves\<close> of \<open>Ata_Drive\<close>, the protocol of READ SECTORS.
\<close>

section \<open>The driver\<close>

definition ATA_PRIMARY_IO :: u16 where "ATA_PRIMARY_IO = 0x1F0"
definition ATA_PRIMARY_CTRL :: u16 where "ATA_PRIMARY_CTRL = 0x3F6"
definition ATA_REG_DATA :: u16 where "ATA_REG_DATA = 0"
definition ATA_REG_SECTOR_CNT :: u16 where "ATA_REG_SECTOR_CNT = 2"
definition ATA_REG_LBA_LOW :: u16 where "ATA_REG_LBA_LOW = 3"
definition ATA_REG_LBA_MID :: u16 where "ATA_REG_LBA_MID = 4"
definition ATA_REG_LBA_HIGH :: u16 where "ATA_REG_LBA_HIGH = 5"
definition ATA_REG_DRIVE :: u16 where "ATA_REG_DRIVE = 6"
definition ATA_REG_COMMAND :: u16 where "ATA_REG_COMMAND = 7"
definition ATA_REG_STATUS :: u16 where "ATA_REG_STATUS = 7"

definition ATA_STATUS_ERR :: u8 where "ATA_STATUS_ERR = 0x01"
definition ATA_STATUS_DRQ :: u8 where "ATA_STATUS_DRQ = 0x08"
definition ATA_STATUS_DF :: u8 where "ATA_STATUS_DF = 0x20"
definition ATA_STATUS_BSY :: u8 where "ATA_STATUS_BSY = 0x80"
definition ATA_CMD_READ_SECTORS :: u8 where "ATA_CMD_READ_SECTORS = 0x20"

lemmas ata_regs = ATA_PRIMARY_IO_def ATA_PRIMARY_CTRL_def ATA_REG_DATA_def ATA_REG_SECTOR_CNT_def
  ATA_REG_LBA_LOW_def ATA_REG_LBA_MID_def ATA_REG_LBA_HIGH_def ATA_REG_DRIVE_def
  ATA_REG_COMMAND_def ATA_REG_STATUS_def ATA_CMD_READ_SECTORS_def

definition ata_status :: "device \<Rightarrow> history \<Rightarrow> u8 \<times> history" where
  "ata_status dev tr = inb dev (ATA_PRIMARY_IO + ATA_REG_STATUS) tr"

text \<open>The two polling loops; the number is how many polls are left.\<close>

fun ata_spin_not_busy :: "nat \<Rightarrow> device \<Rightarrow> history \<Rightarrow> bool \<times> history" where
  "ata_spin_not_busy 0 dev tr = (False, tr)"
| "ata_spin_not_busy (Suc n) dev tr =
     (case ata_status dev tr of (status, tr1) \<Rightarrow>
        if status AND ATA_STATUS_BSY = 0 then (True, tr1) else ata_spin_not_busy n dev tr1)"

definition ata_wait_not_busy :: "device \<Rightarrow> history \<Rightarrow> bool \<times> history" where
  "ata_wait_not_busy dev tr = ata_spin_not_busy 100000 dev tr"

fun ata_spin_for_data :: "nat \<Rightarrow> device \<Rightarrow> history \<Rightarrow> bool \<times> history" where
  "ata_spin_for_data 0 dev tr = (False, tr)"
| "ata_spin_for_data (Suc n) dev tr =
     (case ata_status dev tr of (status, tr1) \<Rightarrow>
        if status AND ATA_STATUS_ERR \<noteq> 0 \<or> status AND ATA_STATUS_DF \<noteq> 0 then (False, tr1)
        else if status AND ATA_STATUS_BSY = 0 \<and> status AND ATA_STATUS_DRQ \<noteq> 0 then (True, tr1)
        else ata_spin_for_data n dev tr1)"

definition ata_wait_for_data :: "device \<Rightarrow> history \<Rightarrow> bool \<times> history" where
  "ata_wait_for_data dev tr = ata_spin_for_data 100000 dev tr"

text \<open>The result of \<open>ata_init\<close> is also the new value of \<open>driver_ready\<close>.\<close>

definition ata_init :: "device \<Rightarrow> history \<Rightarrow> bool \<times> history" where
  "ata_init dev tr = ata_wait_not_busy dev (outb ATA_PRIMARY_CTRL 0x00 tr)"

definition bswap16 :: "u16 \<Rightarrow> u16" where
  "bswap16 v = push_bit 8 v OR drop_bit 8 v"

definition ata_read_word :: "device \<Rightarrow> u64 \<Rightarrow> nat \<Rightarrow> mem \<times> history \<Rightarrow> mem \<times> history" where
  "ata_read_word dev data word = (\<lambda>(m, tr).
     let (value, tr') = inw dev (ATA_PRIMARY_IO + ATA_REG_DATA) tr
     in (wr16 m (data + of_nat (2 * word)) (bswap16 (bswap16 value)), tr'))"

text \<open>The sectors of one command, \<open>n\<close> of them; \<open>data\<close> advances by 256 words per sector.\<close>

fun ata_read_sectors :: "device \<Rightarrow> nat \<Rightarrow> u64 \<Rightarrow> mem \<times> history \<Rightarrow> bool \<times> u64 \<times> mem \<times> history" where
  "ata_read_sectors dev 0 data (m, tr) = (True, data, m, tr)"
| "ata_read_sectors dev (Suc n) data (m, tr) =
     (case ata_wait_for_data dev tr of (ok, tr1) \<Rightarrow>
        if \<not> ok then (False, data, m, tr1)
        else ata_read_sectors dev n (data + 512)
               (fold (ata_read_word dev data) [0..<256] (m, tr1)))"

definition ata_read_command :: "u32 \<Rightarrow> u8 \<Rightarrow> history \<Rightarrow> history" where
  "ata_read_command lba chunk tr =
     (let t1 = outb (ATA_PRIMARY_IO + ATA_REG_DRIVE)
                 (ucast (0xE0 OR (drop_bit 24 lba AND 0x0F))) tr;
          t2 = outb (ATA_PRIMARY_IO + ATA_REG_SECTOR_CNT) chunk t1;
          t3 = outb (ATA_PRIMARY_IO + ATA_REG_LBA_LOW) (ucast (lba AND 0xFF)) t2;
          t4 = outb (ATA_PRIMARY_IO + ATA_REG_LBA_MID) (ucast (drop_bit 8 lba AND 0xFF)) t3;
          t5 = outb (ATA_PRIMARY_IO + ATA_REG_LBA_HIGH) (ucast (drop_bit 16 lba AND 0xFF)) t4
      in outb (ATA_PRIMARY_IO + ATA_REG_COMMAND) ATA_CMD_READ_SECTORS t5)"

definition ata_chunk :: "u32 \<Rightarrow> u8" where
  "ata_chunk remaining = (if remaining > 255 then 255 else ucast remaining)"

lemma unat_ata_chunk: "unat (ata_chunk remaining) = min 255 (unat remaining)"
  by (auto simp: ata_chunk_def word_less_nat_alt unsigned_ucast_eq take_bit_eq_mod min_def)

lemma unat_sub_chunk:
  "unat (remaining - ucast (ata_chunk remaining)) = unat remaining - min 255 (unat remaining)"
proof -
  have c: "unat (ucast (ata_chunk remaining) :: u32) = min 255 (unat remaining)"
    by (simp add: unsigned_ucast_eq take_bit_eq_mod unat_ata_chunk min_def)
  then have "(ucast (ata_chunk remaining) :: u32) \<le> remaining" by (simp add: word_le_nat_alt)
  then show ?thesis by (simp add: unat_sub c)
qed

function ata_read_loop ::
    "device \<Rightarrow> u32 \<Rightarrow> u32 \<Rightarrow> u64 \<Rightarrow> mem \<times> history \<Rightarrow> bool \<times> mem \<times> history" where
  "ata_read_loop dev current_lba remaining data (m, tr) =
     (if remaining > 0 then
        (let chunk = ata_chunk remaining;
             (ok, tr1) = ata_wait_not_busy dev tr
         in if \<not> ok then (False, m, tr1)
            else (case ata_read_sectors dev (unat chunk) data
                         (m, ata_read_command current_lba chunk tr1) of
                    (ok', data', m', tr') \<Rightarrow>
                      if \<not> ok' then (False, m', tr')
                      else ata_read_loop dev (current_lba + ucast chunk)
                             (remaining - ucast chunk) data' (m', tr')))
      else (True, m, tr))"
  by pat_completeness auto
termination
  by (relation "measure (\<lambda>(dev, lba, remaining, data, s). unat remaining)")
    (auto simp: unat_sub_chunk word_less_nat_alt)

declare ata_read_loop.simps [simp del]

definition ata_read ::
    "device \<Rightarrow> bool \<Rightarrow> u32 \<Rightarrow> u32 \<Rightarrow> u64 \<Rightarrow> mem \<times> history \<Rightarrow> bool \<times> mem \<times> history" where
  "ata_read dev driver_ready lba sector_count buffer = (\<lambda>(m, tr).
     if \<not> driver_ready \<or> buffer = 0 \<or> sector_count = 0 then (False, m, tr)
     else ata_read_loop dev lba sector_count buffer (m, tr))"

section \<open>Polling\<close>

lemma ata_status_eq: "ata_status dev tr = (poll_status dev 0 tr, poll_once dev tr)"
  by (simp add: ata_status_def inb_def poll_status_def poll_once_def ata_regs Let_def)

lemma status_bits:
  "s AND ATA_STATUS_BSY = 0 \<longleftrightarrow> \<not> status_busy s"
  "(s AND ATA_STATUS_ERR \<noteq> 0 \<or> s AND ATA_STATUS_DF \<noteq> 0) \<longleftrightarrow> status_failed s"
  "(s AND ATA_STATUS_BSY = 0 \<and> s AND ATA_STATUS_DRQ \<noteq> 0) \<longleftrightarrow> status_data s"
proof -
  have m: "ATA_STATUS_BSY = push_bit 7 1" "ATA_STATUS_ERR = push_bit 0 1"
    "ATA_STATUS_DF = push_bit 5 1" "ATA_STATUS_DRQ = push_bit 3 1"
    by (simp_all add: ATA_STATUS_BSY_def ATA_STATUS_ERR_def ATA_STATUS_DF_def ATA_STATUS_DRQ_def)
  show "s AND ATA_STATUS_BSY = 0 \<longleftrightarrow> \<not> status_busy s"
    "(s AND ATA_STATUS_ERR \<noteq> 0 \<or> s AND ATA_STATUS_DF \<noteq> 0) \<longleftrightarrow> status_failed s"
    "(s AND ATA_STATUS_BSY = 0 \<and> s AND ATA_STATUS_DRQ \<noteq> 0) \<longleftrightarrow> status_data s"
    unfolding m status_busy_def status_failed_def status_data_def bit_iff_and_push_bit_not_eq_0
    by simp_all
qed

lemma ata_spin_not_busy_Suc:
  "ata_spin_not_busy (Suc n) dev tr =
     (if status_busy (poll_status dev 0 tr) then ata_spin_not_busy n dev (poll_once dev tr)
      else (True, poll_once dev tr))"
  by (simp add: ata_status_eq status_bits(1))

lemma ata_spin_for_data_Suc:
  "ata_spin_for_data (Suc n) dev tr =
     (if status_failed (poll_status dev 0 tr) then (False, poll_once dev tr)
      else if status_data (poll_status dev 0 tr) then (True, poll_once dev tr)
      else ata_spin_for_data n dev (poll_once dev tr))"
  unfolding ata_spin_for_data.simps ata_status_eq prod.case status_bits(2,3) by (rule refl)

declare ata_spin_not_busy.simps(2) [simp del] ata_spin_for_data.simps(2) [simp del]

text \<open>A drive at rest that stops being busy in time: the wait ends with the host knowing it.\<close>

lemma spin_not_busy_settled:
  "settled (drive_after tr) \<Longrightarrow> \<not> status_busy (poll_status dev k tr) \<Longrightarrow> k < n \<Longrightarrow>
     \<exists>tr'. ata_spin_not_busy n dev tr = (True, tr') \<and>
       drive_after tr' = (drive_after tr)\<lparr>drive_phase := Quiescent\<rparr>"
proof (induction n arbitrary: k tr)
  case (Suc n)
  let ?c = "drive_after tr"
  show ?case
  proof (cases "status_busy (poll_status dev 0 tr)")
    case False
    then have "drive_after (poll_once dev tr) = ?c\<lparr>drive_phase := Quiescent\<rparr>"
      using Suc.prems(1) by (auto simp: drive_after_poll drive_status_read_def settled_def)
    with False show ?thesis by (simp add: ata_spin_not_busy_Suc)
  next
    case True
    then obtain k' where k: "k = Suc k'" using Suc.prems(2) by (cases k) auto
    have c: "drive_after (poll_once dev tr) = ?c\<lparr>drive_phase := Unsettled\<rparr>"
      using Suc.prems(1) True by (auto simp: drive_after_poll drive_status_read_def settled_def)
    then have "settled (drive_after (poll_once dev tr))" by (simp add: settled_def)
    from Suc.IH [OF this, of k'] Suc.prems k obtain tr' where
      "ata_spin_not_busy n dev (poll_once dev tr) = (True, tr')"
      "drive_after tr' = ?c\<lparr>drive_phase := Quiescent\<rparr>" by (auto simp: c)
    with True show ?thesis by (simp add: ata_spin_not_busy_Suc)
  qed
qed simp

lemma spin_not_busy_timeout:
  "(\<And>k. k < n \<Longrightarrow> status_busy (poll_status dev k tr)) \<Longrightarrow>
     ata_spin_not_busy n dev tr = (False, poll_history dev n tr)"
proof (induction n arbitrary: tr)
  case (Suc n)
  have "status_busy (poll_status dev k (poll_once dev tr))" if "k < n" for k
    using Suc.prems [of "Suc k"] that by simp
  with Suc.IH [of "poll_once dev tr"] Suc.prems [of 0] show ?case
    by (simp add: ata_spin_not_busy_Suc)
qed simp

text \<open>
  The wait for data ends with the sector announced when no poll before it reports an error.
\<close>

lemma spin_for_data_announced:
  "drive_phase (drive_after tr) = Awaiting \<Longrightarrow> status_data (poll_status dev k tr) \<Longrightarrow>
     (\<And>j. j \<le> k \<Longrightarrow> \<not> status_failed (poll_status dev j tr)) \<Longrightarrow> k < n \<Longrightarrow>
     \<exists>tr'. ata_spin_for_data n dev tr = (True, tr') \<and>
       drive_after tr' = (drive_after tr)\<lparr>drive_phase := Transfer 0\<rparr>"
proof (induction n arbitrary: k tr)
  case (Suc n)
  let ?c = "drive_after tr"
  have ok: "\<not> status_failed (poll_status dev 0 tr)" using Suc.prems(3) by simp
  show ?case
  proof (cases "status_data (poll_status dev 0 tr)")
    case True
    then have "\<not> status_busy (poll_status dev 0 tr)"
      by (simp add: status_data_def status_busy_def)
    with True ok Suc.prems(1) have "drive_after (poll_once dev tr) = ?c\<lparr>drive_phase := Transfer 0\<rparr>"
      by (simp add: drive_after_poll drive_status_read_def)
    with True ok show ?thesis by (simp add: ata_spin_for_data_Suc)
  next
    case False
    then obtain k' where k: "k = Suc k'" using Suc.prems(2) by (cases k) auto
    have same: "drive_after (poll_once dev tr) = ?c"
      using False ok Suc.prems(1) by (simp add: drive_after_poll drive_status_read_def)
    have "\<not> status_failed (poll_status dev j (poll_once dev tr))" if "j \<le> k'" for j
      using Suc.prems(3) [of "Suc j"] k that by simp
    with Suc.IH [of "poll_once dev tr" k'] Suc.prems k obtain tr' where
      "ata_spin_for_data n dev (poll_once dev tr) = (True, tr')"
      "drive_after tr' = ?c\<lparr>drive_phase := Transfer 0\<rparr>" by (auto simp: same)
    with False ok show ?thesis by (simp add: ata_spin_for_data_Suc)
  qed
qed simp

lemma wait_not_busy_serves:
  assumes "ata_serves dev disk cap" and "settled (drive_after tr)"
  obtains tr' where "ata_wait_not_busy dev tr = (True, tr')"
    and "drive_after tr' = (drive_after tr)\<lparr>drive_phase := Quiescent\<rparr>"
proof -
  from assms obtain k where "k < 100000" "\<not> status_busy (poll_status dev k tr)"
    unfolding ata_serves_def settles_def by blast
  from spin_not_busy_settled [OF assms(2) this(2,1)] that show thesis
    unfolding ata_wait_not_busy_def by blast
qed

lemma wait_for_data_serves:
  assumes serves: "ata_serves dev disk cap" and await: "drive_phase (drive_after tr) = Awaiting"
    and on: "next_sector (drive_after tr) + sectors_left (drive_after tr) \<le> cap"
  obtains tr' where "ata_wait_for_data dev tr = (True, tr')"
    and "drive_after tr' = (drive_after tr)\<lparr>drive_phase := Transfer 0\<rparr>"
proof -
  from assms obtain k where k: "k < 100000" "status_data (poll_status dev k tr)"
    "\<And>j. j \<le> k \<Longrightarrow> \<not> status_busy (poll_status dev j tr) \<Longrightarrow> \<not> status_failed (poll_status dev j tr)"
    unfolding ata_serves_def announces_def by blast
  have "in_protocol (drive_after tr)" using await by (simp add: in_protocol_def)
  then have "\<not> status_failed (poll_status dev j tr)" if "j \<le> k" for j
    using k(3) [OF that] serves poll_in_protocol [of tr dev j]
    by (auto simp: ata_serves_def clear_while_busy_def poll_status_def)
  from spin_for_data_announced [OF await k(2) this k(1)] that show thesis
    unfolding ata_wait_for_data_def by blast
qed

section \<open>Transfers\<close>

lemma bswap16_twice [simp]: "bswap16 (bswap16 v) = v"
  by (rule bit_eqI) (auto simp: bswap16_def bit_simps dest: bit_imp_le_length)

lemma disk_word_bytes: "le_bytes 2 (unat (disk_word disk i)) = [disk (2 * i), disk (2 * i + 1)]"
proof -
  let ?bs = "[disk (2 * i), disk (2 * i + 1)]"
  define v where "v = le_value ?bs"
  have "v < 65536" using le_value_bound [of ?bs] by (simp add: v_def)
  then have "unat (of_nat v :: u16) = v" by (simp add: unat_of_nat)
  then have "unat (disk_word disk i) = le_value ?bs" unfolding disk_word_def v_def .
  then show ?thesis using le_bytes_le_value [of ?bs 2] by simp
qed

lemma disk_bytes_append:
  "disk_bytes disk off (n + k) = disk_bytes disk off n @ disk_bytes disk (off + n) k"
  by (rule nth_equalityI) (auto simp: disk_bytes_def nth_append)

lemma length_disk_bytes [simp]: "length (disk_bytes disk off n) = n"
  by (simp add: disk_bytes_def)

text \<open>The drive after \<open>n\<close> words of an announced sector.\<close>

definition words_read :: "nat \<Rightarrow> ata_drive \<Rightarrow> ata_drive" where
  "words_read n c = (if n < 256 then c\<lparr>drive_phase := Transfer n\<rparr> else sector_read c)"

lemma read_words_serves:
  assumes serves: "ata_serves dev disk cap" and n: "n \<le> 256"
    and start: "drive_phase (drive_after tr) = Transfer 0"
    and on: "next_sector (drive_after tr) + sectors_left (drive_after tr) \<le> cap"
  defines "c \<equiv> drive_after tr"
  shows "\<exists>tr'. fold (ata_read_word dev data) [0..<n] (m, tr) =
      (write_bytes m data (disk_bytes disk (512 * next_sector c) (2 * n)), tr') \<and>
    drive_after tr' = words_read n c"
  using n
proof (induction n)
  case 0
  then show ?case using start by (simp add: disk_bytes_def words_read_def c_def)
next
  case (Suc n)
  define w where "w = disk_word disk (256 * next_sector c + n)"
  let ?bs = "disk_bytes disk (512 * next_sector c) (2 * n)"
  from Suc obtain tr1 where
    1: "fold (ata_read_word dev data) [0..<n] (m, tr) = (write_bytes m data ?bs, tr1)"
    and c1: "drive_after tr1 = c\<lparr>drive_phase := Transfer n\<rparr>"
    by (auto simp: words_read_def)
  then have v: "dev_in16 dev tr1 0x1F0 = w"
    using serves on by (simp add: ata_serves_def delivers_def w_def c_def)
  have bytes: "le_bytes 2 (unat w) = disk_bytes disk (512 * next_sector c + 2 * n) 2"
    unfolding w_def disk_word_bytes by (simp add: disk_bytes_def upt_rec add_mult_distrib2)
  have "write_bytes (write_bytes m data ?bs) (data + of_nat (length ?bs)) (le_bytes 2 (unat w)) =
      write_bytes m data (?bs @ le_bytes 2 (unat w))"
    by (rule write_bytes_append) (use Suc.prems in simp)
  then have "ata_read_word dev data n (write_bytes m data ?bs, tr1) =
      (write_bytes m data (disk_bytes disk (512 * next_sector c) (2 * Suc n)), tr1 @ [In16 0x1F0 w])"
    using disk_bytes_append [of disk "512 * next_sector c" "2 * n" 2]
    by (simp add: ata_read_word_def inw_def ata_regs v wr16_def bytes Let_def add.commute)
  moreover have "drive_after (tr1 @ [In16 0x1F0 w]) = words_read (Suc n) c"
    using Suc.prems
    by (auto simp: drive_after_append c1 drive_data_read_def words_read_def sector_read_def)
  ultimately show ?case by (simp add: 1)
qed

lemma read_sectors_serves:
  assumes serves: "ata_serves dev disk cap"
  shows "n \<le> 255 \<Longrightarrow> sectors_left (drive_after tr) = n \<Longrightarrow>
      (if n = 0 then settled (drive_after tr) else drive_phase (drive_after tr) = Awaiting) \<Longrightarrow>
      next_sector (drive_after tr) + n \<le> cap \<Longrightarrow>
    \<exists>tr'. ata_read_sectors dev n data (m, tr) =
      (True, data + of_nat (512 * n), write_bytes m data (disk_bytes disk
        (512 * next_sector (drive_after tr)) (512 * n)), tr') \<and> settled (drive_after tr')"
proof (induction n arbitrary: data m tr)
  case 0
  then show ?case by (simp add: disk_bytes_def)
next
  case (Suc n)
  define c where "c = drive_after tr"
  let ?off = "512 * next_sector c"
  obtain tr0 where wait: "ata_wait_for_data dev tr = (True, tr0)"
    and c0: "drive_after tr0 = c\<lparr>drive_phase := Transfer 0\<rparr>"
    using wait_for_data_serves [OF serves, of tr] Suc.prems by (auto simp: c_def)
  have "drive_phase (drive_after tr0) = Transfer 0"
    "next_sector (drive_after tr0) + sectors_left (drive_after tr0) \<le> cap"
    using Suc.prems by (simp_all add: c0 c_def)
  from read_words_serves [OF serves _ this, of 256 data m] obtain tr1 where
    1: "fold (ata_read_word dev data) [0..<256] (m, tr0) =
        (write_bytes m data (disk_bytes disk ?off 512), tr1)"
    and c1: "drive_after tr1 = sector_read c"
    by (auto simp: c0 words_read_def sector_read_def)
  have left: "sectors_left (drive_after tr1) = n"
    "if n = 0 then settled (drive_after tr1) else drive_phase (drive_after tr1) = Awaiting"
    "n \<noteq> 0 \<Longrightarrow> next_sector (drive_after tr1) = next_sector c + 1"
    "next_sector (drive_after tr1) + n \<le> cap"
    using Suc.prems by (auto simp: c1 sector_read_def settled_def c_def)
  from Suc.IH [OF _ left(1,2,4), of "data + 512" "write_bytes m data (disk_bytes disk ?off 512)"] Suc.prems
  obtain tr' where 2: "ata_read_sectors dev n (data + 512)
      (write_bytes m data (disk_bytes disk ?off 512), tr1) =
      (True, data + 512 + of_nat (512 * n),
       write_bytes (write_bytes m data (disk_bytes disk ?off 512)) (data + 512)
         (disk_bytes disk (512 * next_sector (drive_after tr1)) (512 * n)), tr')"
    and fin: "settled (drive_after tr')" by auto
  have rest: "disk_bytes disk (512 * next_sector (drive_after tr1)) (512 * n) =
      disk_bytes disk (?off + 512) (512 * n)"
    using left(3) by (cases "n = 0") (simp_all add: disk_bytes_def add.commute)
  have "write_bytes (write_bytes m data (disk_bytes disk ?off 512))
      (data + of_nat (length (disk_bytes disk ?off 512))) (disk_bytes disk (?off + 512) (512 * n)) =
      write_bytes m data (disk_bytes disk ?off (512 + 512 * n))"
    unfolding disk_bytes_append by (rule write_bytes_append) (use Suc.prems in simp)
  then have bytes: "write_bytes (write_bytes m data (disk_bytes disk ?off 512)) (data + 512)
      (disk_bytes disk (512 * next_sector (drive_after tr1)) (512 * n)) =
      write_bytes m data (disk_bytes disk ?off (512 * Suc n))" unfolding rest by simp
  have data: "data + 512 + of_nat (512 * n) = data + of_nat (512 * Suc n)" by simp
  have "ata_read_sectors dev (Suc n) data (m, tr) =
      ata_read_sectors dev n (data + 512) (write_bytes m data (disk_bytes disk ?off 512), tr1)"
    by (simp add: wait 1)
  with fin show ?case unfolding c_def [symmetric] 2 bytes data by blast
qed

lemma lba28_digits:
  assumes "(x :: nat) < 2 ^ 28"
  shows "x mod 256 + 256 * (x div 256 mod 256) + 65536 * (x div 65536 mod 256) +
    16777216 * (x div 16777216 mod 16) = x"
proof -
  define y where "y = x div 256"
  define z where "z = y div 256"
  define w where "w = z div 256"
  have d: "x div 65536 = z" "x div 16777216 = w"
    by (simp_all add: y_def z_def w_def flip: div_mult2_eq)
  have "w < 16" using assms by (simp add: w_def z_def y_def less_mult_imp_div_less flip: div_mult2_eq)
  then have "w mod 16 = w" by simp
  moreover have "x = 256 * y + x mod 256" "y = 256 * z + y mod 256" "z = 256 * w + z mod 256"
    by (simp_all add: y_def z_def w_def)
  ultimately show ?thesis unfolding d y_def [symmetric] by linarith
qed

lemma drive_register:
  assumes "unat (lba :: u32) < 2 ^ 28"
  shows "unat (ucast (0xE0 OR (drop_bit 24 lba AND 0x0F)) :: u8) mod 16 = unat lba div 16777216 mod 16"
proof -
  have f: "(0x0F :: u32) = mask 4" by (simp add: mask_eq_exp_minus_1)
  have low: "\<not> bit (0xE0 :: int) n" if "n < 4" for n
  proof -
    have e: "(0xE0 :: int) = push_bit 5 7" by simp
    show ?thesis using that unfolding e bit_push_bit_iff by simp
  qed
  let ?d = "take_bit 4 (drop_bit 24 lba)" and ?r = "ucast (0xE0 OR (drop_bit 24 lba AND 0x0F)) :: u8"
  have "take_bit 4 ?r = ucast ?d"
    unfolding f by (rule bit_word_eqI) (auto simp: bit_simps low)
  then have eq: "unat (take_bit 4 ?r) = unat (ucast ?d :: u8)" by (rule arg_cong)
  have "unat ?d = take_bit 4 (drop_bit 24 (unat lba))"
    by (simp only: unsigned_take_bit_eq unat_drop_bit_eq)
  then have d: "unat ?d = unat lba div 16777216 mod 16"
    by (simp add: take_bit_eq_mod drop_bit_eq_div)
  have "unat ?r mod 16 = take_bit 4 (unat ?r)" by (simp add: take_bit_eq_mod)
  also have "\<dots> = unat (take_bit 4 ?r)" by (rule unsigned_take_bit_eq [symmetric])
  also have "\<dots> = unat (ucast ?d :: u8)" by (rule eq)
  also have "\<dots> = unat ?d" using d by (simp add: unsigned_ucast_eq take_bit_eq_mod)
  finally show ?thesis unfolding d .
qed

lemma lba_register:
  "unat (ucast (drop_bit k (lba :: u32) AND 0xFF) :: u8) = unat lba div 2 ^ k mod 256"
proof -
  have ff: "(0xFF :: u32) = mask 8" by (simp add: mask_eq_exp_minus_1)
  have "unat (take_bit 8 (drop_bit k lba)) = take_bit 8 (drop_bit k (unat lba))"
    by (simp only: unsigned_take_bit_eq unat_drop_bit_eq)
  then have "unat (take_bit 8 (drop_bit k lba)) = unat lba div 2 ^ k mod 256"
    by (simp only: take_bit_eq_mod drop_bit_eq_div) simp
  then show ?thesis
    unfolding ff by (simp add: unsigned_ucast_eq take_bit_eq_mod flip: take_bit_eq_mask)
qed

lemma drive_mode_bits:
  "bit (ucast (0xE0 OR (drop_bit 24 (lba :: u32) AND 0x0F)) :: u8) 6"
  "\<not> bit (ucast (0xE0 OR (drop_bit 24 (lba :: u32) AND 0x0F)) :: u8) 4"
  by (simp_all add: bit_simps)

text \<open>The six register writes of a command are accepted by a drive known to be at rest.\<close>

lemma drive_after_command:
  assumes "unat lba + unat chunk \<le> 2 ^ 28" and "chunk \<noteq> 0"
    and idle: "drive_phase (drive_after tr) = Quiescent"
  defines "c \<equiv> drive_after (ata_read_command lba chunk tr)"
  shows "drive_phase c = Awaiting" and "next_sector c = unat lba" and "sectors_left c = unat chunk"
proof -
  have "0 < unat chunk" using assms(2) by (simp add: unat_gt_0)
  then have lba: "unat lba < 2 ^ 28" using assms(1) by simp
  define lo mid hi dr :: u8 where "lo = ucast (lba AND 0xFF)"
    and "mid = ucast (drop_bit 8 lba AND 0xFF)" and "hi = ucast (drop_bit 16 lba AND 0xFF)"
    and "dr = ucast (0xE0 OR (drop_bit 24 lba AND 0x0F))"
  have addr: "unat lo + 256 * unat mid + 65536 * unat hi + 16777216 * (unat dr mod 16) = unat lba"
    using lba28_digits [OF lba] lba_register [of 0 lba] lba_register [of 8 lba]
      lba_register [of 16 lba] drive_register [OF lba]
    by (simp add: lo_def mid_def hi_def dr_def)
  have mode: "bit dr 6" "\<not> bit dr 4" using drive_mode_bits [of lba] by (simp_all add: dr_def)
  have "ata_read_command lba chunk tr =
      tr @ [Out8 0x1F6 dr, Out8 0x1F2 chunk, Out8 0x1F3 lo, Out8 0x1F4 mid, Out8 0x1F5 hi,
        Out8 0x1F7 0x20]"
    by (simp add: ata_read_command_def outb_def ata_regs Let_def lo_def mid_def hi_def dr_def)
  then have "c = accept_read (unat lba) (unat chunk) ((drive_after tr)\<lparr>reg_drive := Some dr,
      reg_count := Some chunk, reg_low := Some lo, reg_mid := Some mid, reg_high := Some hi\<rparr>)"
    using idle mode addr assms(2)
    by (simp add: c_def drive_after_append ata_ports_def drive_register_write_def other_device_def
        drive_command_def lba_mode_def drive_lba_def command_sectors_def)
  then show "drive_phase c = Awaiting" and "next_sector c = unat lba" and "sectors_left c = unat chunk"
    by (simp_all add: accept_read_def)
qed

lemma read_loop_serves:
  assumes "ata_serves dev disk cap" and "settled (drive_after tr)"
    and "unat lba + unat remaining \<le> cap"
  shows "\<exists>tr'. ata_read_loop dev lba remaining data (m, tr) =
    (True, write_bytes m data (disk_bytes disk (512 * unat lba) (512 * unat remaining)), tr') \<and>
    settled (drive_after tr')"
  using assms
proof (induction "unat remaining" arbitrary: lba remaining data m tr rule: less_induct)
  case less
  show ?case
  proof (cases "remaining = 0")
    case True
    then show ?thesis using less.prems(2) by (subst ata_read_loop.simps) (simp add: disk_bytes_def)
  next
    case False
    define chunk where "chunk = ata_chunk remaining"
    define n where "n = unat chunk"
    have pos: "0 < unat remaining" using False by (simp add: unat_gt_0)
    have n: "n = min 255 (unat remaining)" by (simp add: n_def chunk_def unat_ata_chunk)
    then have n0: "0 < n" "n \<le> 255" "n \<le> unat remaining" using pos by auto
    then have "chunk \<noteq> 0" by (auto simp: n_def)
    obtain tr0 where wait: "ata_wait_not_busy dev tr = (True, tr0)"
      and "drive_after tr0 = (drive_after tr)\<lparr>drive_phase := Quiescent\<rparr>"
      by (rule wait_not_busy_serves [OF less.prems(1,2)])
    then have idle: "drive_phase (drive_after tr0) = Quiescent" by simp
    let ?tr = "ata_read_command lba chunk tr0"
    have fits: "unat lba + unat chunk \<le> cap" using less.prems(3) n0 by (simp add: n_def)
    have cap: "cap \<le> 2 ^ 28" using less.prems(1) by (simp add: ata_serves_def)
    note drv = drive_after_command [OF le_trans [OF fits cap] \<open>chunk \<noteq> 0\<close> idle]
    from read_sectors_serves [OF less.prems(1) n0(2), of ?tr data m] obtain tr1 where
      1: "ata_read_sectors dev n data (m, ?tr) = (True, data + of_nat (512 * n),
        write_bytes m data (disk_bytes disk (512 * unat lba) (512 * n)), tr1)"
      and rest: "settled (drive_after tr1)"
      using fits n0(1) by (auto simp: drv n_def)
    have c32: "unat (ucast chunk :: u32) = n"
      using n0(2) by (simp add: unsigned_ucast_eq take_bit_eq_mod n_def)
    have rem: "unat (remaining - ucast chunk) = unat remaining - n"
      unfolding chunk_def unat_sub_chunk n by (rule refl)
    have lba: "unat (lba + ucast chunk) = unat lba + n"
      using fits cap n0 c32 by (simp add: unat_word_ariths n_def)
    have "unat (remaining - ucast chunk) < unat remaining" using rem pos n0 by simp
    from less.hyps [OF this less.prems(1) rest, of "lba + ucast chunk" "data + of_nat (512 * n)"
        "write_bytes m data (disk_bytes disk (512 * unat lba) (512 * n))"] less.prems(3) n0
    obtain tr' where 2: "ata_read_loop dev (lba + ucast chunk) (remaining - ucast chunk)
        (data + of_nat (512 * n))
        (write_bytes m data (disk_bytes disk (512 * unat lba) (512 * n)), tr1) =
      (True, write_bytes (write_bytes m data (disk_bytes disk (512 * unat lba) (512 * n)))
         (data + of_nat (512 * n))
         (disk_bytes disk (512 * (unat lba + n)) (512 * (unat remaining - n))), tr')"
      and fin: "settled (drive_after tr')"
      by (auto simp: rem lba)
    have "write_bytes (write_bytes m data (disk_bytes disk (512 * unat lba) (512 * n)))
        (data + of_nat (length (disk_bytes disk (512 * unat lba) (512 * n))))
        (disk_bytes disk (512 * unat lba + 512 * n) (512 * (unat remaining - n))) =
      write_bytes m data (disk_bytes disk (512 * unat lba) (512 * n + 512 * (unat remaining - n)))"
      unfolding disk_bytes_append
      using unat_u32_bound [of remaining] n0(3) by (intro write_bytes_append) simp
    moreover have "512 * n + 512 * (unat remaining - n) = 512 * unat remaining"
      using n0(3) by simp
    moreover have "512 * (unat lba + n) = 512 * unat lba + 512 * n" by simp
    moreover have "remaining > 0" using False by (simp add: word_neq_0_conv)
    ultimately show ?thesis
      using 1 2 wait fin
      by (subst ata_read_loop.simps)
        (simp add: Let_def del: of_nat_mult flip: chunk_def n_def)
  qed
qed

section \<open>What a transfer may write, for any device\<close>

definition only_range :: "u64 \<Rightarrow> nat \<Rightarrow> mem \<Rightarrow> mem \<Rightarrow> bool" where
  "only_range a n m m' \<longleftrightarrow> (\<forall>x. \<not> in_range a n x \<longrightarrow> m' x = m x)"

lemma only_range_refl [simp]: "only_range a n m m"
  by (simp add: only_range_def)

lemma only_range_trans: "only_range a n m1 m2 \<Longrightarrow> only_range a n m2 m3 \<Longrightarrow> only_range a n m1 m3"
  by (simp add: only_range_def)

lemma in_range_sub:
  assumes "in_range (a + of_nat i) j x" and "i + j \<le> n" and "n \<le> 18446744073709551616"
  shows "in_range a n x"
proof -
  from assms(1) obtain k where "k < j" and x: "x = a + of_nat i + of_nat k" by (rule in_rangeE)
  then have "x = a + of_nat (i + k)" by (simp add: add.assoc)
  with \<open>k < j\<close> assms(2,3) show ?thesis by (simp del: of_nat_add)
qed

lemma only_range_sub:
  "only_range (a + of_nat i) j m m' \<Longrightarrow> i + j \<le> n \<Longrightarrow> n \<le> 18446744073709551616 \<Longrightarrow>
     only_range a n m m'"
  unfolding only_range_def using in_range_sub by blast

lemma read_words_only:
  "k \<le> 256 \<Longrightarrow> fold (ata_read_word dev data) [0..<k] (m, tr) = (m', tr') \<Longrightarrow>
     only_range data 512 m m'"
proof (induction k arbitrary: m' tr')
  case (Suc k)
  obtain m1 tr1 where 1: "fold (ata_read_word dev data) [0..<k] (m, tr) = (m1, tr1)" by fastforce
  with Suc.prems(2) have "ata_read_word dev data k (m1, tr1) = (m', tr')" by simp
  then have m': "\<exists>v. m' = wr16 m1 (data + of_nat (2 * k)) v"
    by (auto simp: ata_read_word_def inw_def Let_def)
  then have "only_range (data + of_nat (2 * k)) 2 m1 m'"
    by (auto simp: only_range_def wr16_def write_bytes_apply)
  then have "only_range data 512 m1 m'" by (rule only_range_sub) (use Suc.prems in simp_all)
  with Suc.IH [OF _ 1] Suc.prems(1) show ?case by (auto intro: only_range_trans)
qed simp

lemma read_sectors_only:
  "512 * n \<le> 18446744073709551616 \<Longrightarrow> ata_read_sectors dev n data (m, tr) = (ok, data', m', tr') \<Longrightarrow>
     only_range data (512 * n) m m' \<and> (ok \<longrightarrow> data' = data + of_nat (512 * n))"
proof (induction n arbitrary: data m tr)
  case (Suc n)
  obtain ok1 tr1 where w: "ata_wait_for_data dev tr = (ok1, tr1)" by fastforce
  show ?case
  proof (cases ok1)
    case False
    with w Suc.prems show ?thesis by auto
  next
    case True
    obtain m2 tr2 where 2: "fold (ata_read_word dev data) [0..<256] (m, tr1) = (m2, tr2)" by fastforce
    with True w Suc.prems have 3: "ata_read_sectors dev n (data + 512) (m2, tr2) = (ok, data', m', tr')"
      by simp
    have "only_range (data + of_nat 0) 512 m m2" using read_words_only [OF _ 2] by simp
    then have "only_range data (512 * Suc n) m m2" by (rule only_range_sub) (use Suc.prems in simp_all)
    moreover have IH: "only_range (data + of_nat 512) (512 * n) m2 m'"
      "ok \<longrightarrow> data' = data + 512 + of_nat (512 * n)"
      using Suc.IH [OF _ 3] Suc.prems(1) by simp_all
    have "only_range data (512 * Suc n) m2 m'"
      by (rule only_range_sub [OF IH(1)]) (use Suc.prems in simp_all)
    ultimately show ?thesis using IH(2) by (auto intro: only_range_trans)
  qed
qed simp

lemma read_loop_only:
  "512 * unat remaining \<le> 18446744073709551616 \<Longrightarrow>
     ata_read_loop dev lba remaining data (m, tr) = (ok, m', tr') \<Longrightarrow>
     only_range data (512 * unat remaining) m m'"
proof (induction "unat remaining" arbitrary: lba remaining data m tr rule: less_induct)
  case less
  show ?case
  proof (cases "remaining = 0")
    case True
    with less.prems show ?thesis by (subst (asm) ata_read_loop.simps) simp
  next
    case False
    define chunk where "chunk = ata_chunk remaining"
    define n where "n = unat chunk"
    have pos: "0 < unat remaining" using False by (simp add: unat_gt_0)
    have n: "n = min 255 (unat remaining)" by (simp add: n_def chunk_def unat_ata_chunk)
    then have n0: "0 < n" "n \<le> unat remaining" using pos by auto
    obtain ok1 tr1 where w: "ata_wait_not_busy dev tr = (ok1, tr1)" by fastforce
    obtain ok2 data2 m2 tr2 where s: "ata_read_sectors dev (unat chunk) data
        (m, ata_read_command lba chunk tr1) = (ok2, data2, m2, tr2)" by (metis prod_cases4)
    have "remaining > 0" using False by (simp add: word_neq_0_conv)
    with less.prems(2) w s have res: "(if \<not> ok1 then (False, m, tr1)
        else if \<not> ok2 then (False, m2, tr2)
        else ata_read_loop dev (lba + ucast chunk) (remaining - ucast chunk) data2 (m2, tr2)) =
        (ok, m', tr')"
      by (subst (asm) ata_read_loop.simps; cases ok1) (simp_all add: Let_def flip: chunk_def)
    have sec: "only_range data (512 * n) m m2 \<and> (ok2 \<longrightarrow> data2 = data + of_nat (512 * n))"
      using read_sectors_only [OF _ s] less.prems(1) n0 by (simp add: n_def)
    then have "only_range (data + of_nat 0) (512 * n) m m2" by simp
    then have "only_range data (512 * unat remaining) m m2"
      by (rule only_range_sub) (use less.prems n0 in simp_all)
    show ?thesis
    proof (cases "ok1 \<and> ok2")
      case False
      with res \<open>only_range data (512 * unat remaining) m m2\<close> show ?thesis by (auto split: if_splits)
    next
      case True
      have rem: "unat (remaining - ucast chunk) = unat remaining - n"
        unfolding chunk_def unat_sub_chunk n by (rule refl)
      have "ata_read_loop dev (lba + ucast chunk) (remaining - ucast chunk) data2 (m2, tr2) =
          (ok, m', tr')" using True res by simp
      then have "only_range data2 (512 * (unat remaining - n)) m2 m'"
        using less.hyps [of "remaining - ucast chunk"] less.prems(1) pos n0 by (simp add: rem)
      then have "only_range (data + of_nat (512 * n)) (512 * (unat remaining - n)) m2 m'"
        using True sec by simp
      then have "only_range data (512 * unat remaining) m2 m'"
        by (rule only_range_sub) (use less.prems n0 in simp_all)
      with \<open>only_range data (512 * unat remaining) m m2\<close> show ?thesis by (rule only_range_trans)
    qed
  qed
qed

section \<open>Properties\<close>


lemma settled_start [simp]: "settled (drive_after [])"
  by (simp add: settled_def drive_after_def drive_zero_def)


text \<open>
  C36 (ata_read_only_buffer): whatever the drive does, \<open>ata_read\<close> returns, and it writes no
  byte outside the buffer of \<open>512 * n\<close> bytes, also when it fails half way.
\<close>

theorem ata_read_only_buffer:
  assumes "ata_read dev ready lba n buffer (m, tr) = (ok, m', tr')"
    and "\<not> in_range buffer (512 * unat n) x"
  shows "m' x = m x"
proof (cases "\<not> ready \<or> buffer = 0 \<or> n = 0")
  case True
  with assms(1) show ?thesis by (auto simp: ata_read_def)
next
  case False
  with assms(1) have "ata_read_loop dev lba n buffer (m, tr) = (ok, m', tr')"
    by (auto simp: ata_read_def)
  moreover have "512 * unat n \<le> 18446744073709551616" using unat_u32_bound [of n] by simp
  ultimately have "only_range buffer (512 * unat n) m m'" by (intro read_loop_only)
  with assms(2) show ?thesis by (simp add: only_range_def)
qed

lemma ata_read_only_buffer_witness:
  "(fst (snd (ata_read (ideal_drive (\<lambda>i. 7) 8) True 0 1 0x200000 (\<lambda>_. 0, [])))) 0x200200 = 0"
proof -
  obtain ok m' tr' where r:
    "ata_read (ideal_drive (\<lambda>i. 7) 8) True 0 1 0x200000 (\<lambda>_. 0, []) = (ok, m', tr')"
    by (metis prod_cases3)
  from ata_read_only_buffer [OF r, where x = "0x200200"] show ?thesis
    by (simp add: r in_range_def)
qed

text \<open>
  A drive that reports busy on every poll does not hang the boot.
  After the control write and exactly 100000 status reads \<open>ata_init\<close> gives up and reports
  the driver as not ready.
\<close>

lemma ata_init_timeout:
  assumes "\<And>k. status_busy (poll_status dev k (tr @ [Out8 0x3F6 0]))"
  shows "ata_init dev tr = (False, poll_history dev 100000 (tr @ [Out8 0x3F6 0]))"
proof -
  have "outb ATA_PRIMARY_CTRL 0 tr = tr @ [Out8 0x3F6 0]" by (simp add: outb_def ata_regs)
  then show ?thesis
    unfolding ata_init_def ata_wait_not_busy_def using spin_not_busy_timeout [of 100000] assms by simp
qed

lemma ata_init_timeout_witness:
  "\<not> fst (ata_init \<lparr>dev_in8 = \<lambda>_ _. 0xFF, dev_in16 = \<lambda>_ _. 0\<rparr> [])"
proof -
  have "status_busy (poll_status \<lparr>dev_in8 = \<lambda>_ _. 0xFF, dev_in16 = \<lambda>_ _. 0\<rparr> k tr)" for k tr
    by (simp add: poll_status_def status_busy_def bit_iff_and_push_bit_not_eq_0)
  from ata_init_timeout [OF this] show ?thesis by simp
qed

end

