(* ===== verification/App_Fs.thy ===== *)
theory App_Fs
  imports Boot_Info Page_Allocator C_Strings Ata
begin

text \<open>
  The read-only application volume, kernel/src/appfs.c. The volume's image is bytes of
  memory; the packed structures of kernel/include/appfs.h are read at their offsets: the
  header has 24 bytes (magic, version, entry count, header size, image size), an entry has 44
  (a 32-byte name, offset, size, a reserved word).
\<close>

section \<open>The packed structures\<close>

definition sizeof_AppFsHeader :: u64 where "sizeof_AppFsHeader = 24"
definition sizeof_AppFsEntry :: u64 where "sizeof_AppFsEntry = 44"

definition hdr_version :: "mem \<Rightarrow> u64 \<Rightarrow> u32" where "hdr_version m h = rd32 m (h + 8)"
definition hdr_entry_count :: "mem \<Rightarrow> u64 \<Rightarrow> u32" where "hdr_entry_count m h = rd32 m (h + 12)"
definition hdr_header_size :: "mem \<Rightarrow> u64 \<Rightarrow> u32" where "hdr_header_size m h = rd32 m (h + 16)"
definition hdr_image_size :: "mem \<Rightarrow> u64 \<Rightarrow> u32" where "hdr_image_size m h = rd32 m (h + 20)"

definition ent_offset :: "mem \<Rightarrow> u64 \<Rightarrow> u32" where "ent_offset m e = rd32 m (e + 32)"
definition ent_size :: "mem \<Rightarrow> u64 \<Rightarrow> u32" where "ent_size m e = rd32 m (e + 36)"

definition expected_magic :: bytes where
  "expected_magic = chars ''SAPPFS1'' @ [0]"

section \<open>The functions\<close>

record appfs =
  appfs_image :: u64
  appfs_header :: u64
  boot_lba :: u32
  boot_sectors :: u32

definition appfs_zero :: appfs where
  "appfs_zero = \<lparr>appfs_image = 0, appfs_header = 0, boot_lba = 0, boot_sectors = 0\<rparr>"

definition appfs_validate :: "appfs \<Rightarrow> mem \<Rightarrow> bool" where
  "appfs_validate af m =
     (if appfs_header af = 0 then False
      else if memory_compare (ptr_at m (appfs_header af)) (lit expected_magic) 8 \<noteq> 0 then False
      else if hdr_version m (appfs_header af) \<noteq> 1 then False
      else if ucast (hdr_header_size m (appfs_header af)) <
          sizeof_AppFsHeader + ucast (hdr_entry_count m (appfs_header af)) * sizeof_AppFsEntry
        then False
      else if hdr_image_size m (appfs_header af) > boot_sectors af * 512 then False
      else True)"

text \<open>
  \<open>appfs_init\<close> works on the states of the disk driver (its ready flag and the port history),
  of the page allocator, of memory, and its own. \<open>volume_pages\<close> is its \<open>page_count\<close>,
  computed in 32 bits.
\<close>

definition volume_pages :: "u32 \<Rightarrow> u64" where
  "volume_pages sectors = ucast ((sectors * 512 + 4096 - 1) div 4096)"

record storage =
  driver_ready :: bool
  volume :: appfs
  pages :: memory_state
  ram :: mem
  ports :: history

definition appfs_init :: "device \<Rightarrow> BootInfo option \<Rightarrow> storage \<Rightarrow> bool \<times> storage" where
  "appfs_init dev boot_info s =
     (case boot_info of
        None \<Rightarrow> (False, s)
      | Some info \<Rightarrow>
          if boot_appfs_sectors info = 0 then (False, s)
          else
            (let s1 = s\<lparr>volume := (volume s)\<lparr>boot_lba := boot_appfs_lba info,
                                            boot_sectors := boot_appfs_sectors info\<rparr>\<rparr>;
                 (ready, tr1) = ata_init dev (ports s1);
                 s2 = s1\<lparr>driver_ready := ready, ports := tr1\<rparr>
             in if \<not> ready then (False, s2)
                else
                  (let page_count = volume_pages (boot_sectors (volume s2));
                       (image, mm3) = page_alloc page_count (pages s2);
                       s3 = s2\<lparr>pages := mm3, volume := (volume s2)\<lparr>appfs_image := image\<rparr>\<rparr>
                   in if image = 0 then (False, s3)
                      else
                        (let (ok, m4, tr4) = ata_read dev (driver_ready s3)
                               (boot_lba (volume s3)) (boot_sectors (volume s3)) image
                               (ram s3, ports s3);
                             s4 = s3\<lparr>ram := m4, ports := tr4\<rparr>
                         in if \<not> ok then (False, s4)
                            else
                              (let s5 = s4\<lparr>volume := (volume s4)\<lparr>appfs_header := image\<rparr>\<rparr>
                               in (appfs_validate (volume s5) (ram s5), s5))))))"

definition appfs_is_ready :: "appfs \<Rightarrow> mem \<Rightarrow> bool" where
  "appfs_is_ready af m = appfs_validate af m"

definition appfs_entry_count :: "appfs \<Rightarrow> mem \<Rightarrow> u32" where
  "appfs_entry_count af m =
     (if appfs_is_ready af m then hdr_entry_count m (appfs_header af) else 0)"

definition appfs_entry_at :: "u32 \<Rightarrow> appfs \<Rightarrow> mem \<Rightarrow> u64" where
  "appfs_entry_at index af m =
     (if \<not> appfs_is_ready af m \<or> index \<ge> hdr_entry_count m (appfs_header af) then 0
      else appfs_image af + sizeof_AppFsHeader + ucast index * sizeof_AppFsEntry)"

text \<open>
  The loop of \<open>appfs_find\<close> from an index on. The comparison of names may not end (\<open>None\<close>),
  as it stops only at a NUL.
\<close>

function appfs_find_from :: "u32 \<Rightarrow> cptr \<Rightarrow> appfs \<Rightarrow> mem \<Rightarrow> u64 option" where
  "appfs_find_from index name af m =
     (if index < appfs_entry_count af m then
        (let entry = appfs_entry_at index af m in
         if entry = 0 then appfs_find_from (index + 1) name af m
         else (case string_compare (ptr_at m entry) name of
                 None \<Rightarrow> None
               | Some c \<Rightarrow> if c = 0 then Some entry else appfs_find_from (index + 1) name af m))
      else Some 0)"
  by pat_completeness auto
termination
proof (relation "measure (\<lambda>(index, name, af, m). unat (appfs_entry_count af m) - unat index)",
    goal_cases)
  case (2 index name af m entry)
  then have "unat (index + 1) = unat index + 1"
    using unat_u32_bound [of "appfs_entry_count af m"]
    by (simp add: word_less_nat_alt unat_word_ariths)
  with 2 show ?case by (simp add: word_less_nat_alt)
next
  case (3 index name af m entry c)
  then have "unat (index + 1) = unat index + 1"
    using unat_u32_bound [of "appfs_entry_count af m"]
    by (simp add: word_less_nat_alt unat_word_ariths)
  with 3 show ?case by (simp add: word_less_nat_alt)
qed simp

declare appfs_find_from.simps [simp del]

definition appfs_find :: "cptr \<Rightarrow> appfs \<Rightarrow> mem \<Rightarrow> u64 option" where
  "appfs_find name af m = appfs_find_from 0 name af m"

definition appfs_data_at :: "u64 \<Rightarrow> appfs \<Rightarrow> mem \<Rightarrow> u64" where
  "appfs_data_at entry af m =
     (if \<not> appfs_is_ready af m \<or> entry = 0 then 0
      else if ent_offset m entry + ent_size m entry > hdr_image_size m (appfs_header af) then 0
      else appfs_image af + ucast (ent_offset m entry))"

definition appfs_lba :: "appfs \<Rightarrow> u32" where
  "appfs_lba af = boot_lba af"

definition appfs_sectors :: "appfs \<Rightarrow> u32" where
  "appfs_sectors af = boot_sectors af"

definition appfs_size :: "appfs \<Rightarrow> mem \<Rightarrow> u32" where
  "appfs_size af m = (if appfs_is_ready af m then hdr_image_size m (appfs_header af) else 0)"

section \<open>Loading the volume\<close>

lemma ata_init_serves:
  assumes "ata_serves dev disk cap" and "settled (drive_after tr)"
  obtains tr' where "ata_init dev tr = (True, tr')" and "settled (drive_after tr')"
proof -
  let ?tr = "outb ATA_PRIMARY_CTRL 0 tr"
  have "drive_phase (drive_after tr) \<noteq> Resetting" using assms(2) by (auto simp: settled_def)
  then have "drive_after ?tr = drive_after tr"
    by (simp add: outb_def ata_regs drive_after_append drive_control_write_def soft_reset_def)
  then have "settled (drive_after ?tr)" using assms(2) by simp
  from wait_not_busy_serves [OF assms(1) this] obtain tr' where "ata_wait_not_busy dev ?tr = (True, tr')"
    "drive_after tr' = (drive_after ?tr)\<lparr>drive_phase := Quiescent\<rparr>" .
  then show thesis using that by (simp add: ata_init_def settled_def)
qed

lemma volume_pages_cover: "512 * n \<le> 4096 * ((512 * n + 4095) div 4096 :: nat)"
proof -
  have "4096 * ((512 * n + 4095) div 4096) + (512 * n + 4095) mod 4096 = 512 * n + 4095" by simp
  moreover have "(512 * n + 4095) mod 4096 < 4096" by simp
  ultimately show ?thesis by linarith
qed

lemma unat_volume_pages:
  assumes "unat sectors \<le> 8388600"
  shows "unat (volume_pages sectors) = (512 * unat sectors + 4095) div 4096"
proof -
  have "sectors * 512 + 4096 - 1 = 4095 + sectors * 512" by simp
  moreover have "unat (4095 + sectors * 512) = 512 * unat sectors + 4095"
    using assms by (simp add: unat_word_ariths)
  ultimately have "unat ((sectors * 512 + 4096 - 1) div 4096) = (512 * unat sectors + 4095) div 4096"
    by (simp add: unat_div)
  moreover have "(512 * unat sectors + 4095) div 4096 < 18446744073709551616"
    using assms by (intro less_mult_imp_div_less) simp
  ultimately show ?thesis by (simp add: volume_pages_def unsigned_ucast_eq take_bit_eq_mod)
qed

lemma volume_update:
  "v\<lparr>boot_lba := a, boot_sectors := b, appfs_image := c, appfs_header := d\<rparr> =
     \<lparr>appfs_image = c, appfs_header = d, boot_lba = a, boot_sectors = b\<rparr>"
  by (cases v) simp

lemma appfs_init_loads_pages:
  assumes serves: "ata_serves dev disk cap" and rest: "settled (drive_after (ports s))"
    and ok: "alloc_ok (pages s)"
    and n: "n = boot_appfs_sectors info" "n \<noteq> 0" and lba: "unat (boot_appfs_lba info) + unat n \<le> cap"
    and run: "volume_pages n \<noteq> 0" "\<exists>r. free_run (pages s) (unat (volume_pages n)) r"
  shows "\<exists>r s'. appfs_init dev (Some info) s = (appfs_validate (volume s') (ram s'), s') \<and>
    volume s' = \<lparr>appfs_image = page_addr r, appfs_header = page_addr r,
      boot_lba = boot_appfs_lba info, boot_sectors = n\<rparr> \<and>
    pages s' = fold (\<lambda>p. bitmap_set p True) [r..<r + unat (volume_pages n)] (pages s) \<and>
    ram s' = write_bytes (ram s) (page_addr r)
      (disk_bytes disk (512 * unat (boot_appfs_lba info)) (512 * unat n)) \<and>
    free_run (pages s) (unat (volume_pages n)) r"
proof -
  have bok: "bitmap_ok (pages s)" using ok by (simp add: alloc_ok_def)
  from page_alloc_cases [OF bok run(1)] run(2) obtain r where fr: "free_run (pages s) (unat (volume_pages n)) r"
    and al: "page_alloc (volume_pages n) (pages s) = (page_addr r,
      fold (\<lambda>p. bitmap_set p True) [r..<r + unat (volume_pages n)] (pages s))" by metis
  have r: "r \<le> SNSX_MAX_PAGES" using fr bok by (simp add: free_run_def bitmap_ok_def)
  have r0: "r \<noteq> 0"
  proof
    assume "r = 0"
    with fr ok run(1) show False by (auto simp: free_run_def alloc_ok_def unat_gt_0)
  qed
  then have a0: "page_addr r \<noteq> 0" using r by (simp add: page_addr_eq_0)
  obtain tr1 where init: "ata_init dev (ports s) = (True, tr1)" and rest1: "settled (drive_after tr1)"
    by (rule ata_init_serves [OF serves rest])
  from read_loop_serves [OF serves rest1 lba, of "page_addr r" "ram s"] obtain tr2 where
    rd: "ata_read dev True (boot_appfs_lba info) n (page_addr r) (ram s, tr1) =
      (True, write_bytes (ram s) (page_addr r)
        (disk_bytes disk (512 * unat (boot_appfs_lba info)) (512 * unat n)), tr2)"
    using a0 n(2) by (auto simp: ata_read_def)
  let ?s' = "s\<lparr>driver_ready := True,
        volume := \<lparr>appfs_image = page_addr r, appfs_header = page_addr r,
          boot_lba = boot_appfs_lba info, boot_sectors = n\<rparr>,
        pages := fold (\<lambda>p. bitmap_set p True) [r..<r + unat (volume_pages n)] (pages s),
        ram := write_bytes (ram s) (page_addr r)
          (disk_bytes disk (512 * unat (boot_appfs_lba info)) (512 * unat n)), ports := tr2\<rparr>"
  have "appfs_init dev (Some info) s = (appfs_validate (volume ?s') (ram ?s'), ?s')"
    using n a0 al rd init by (simp add: appfs_init_def Let_def volume_update)
  with fr show ?thesis by (intro exI [of _ r] exI [of _ ?s']) simp
qed

section \<open>Properties\<close>


definition example_info :: BootInfo where
  "example_info = \<lparr>magic = SNSX_BOOTINFO_MAGIC, stage2_sectors = 8, kernel_sectors = 64, boot_flags = 1,
     boot_drive = 0x80, boot_reserved = [0, 0, 0], boot_appfs_lba = 100, boot_appfs_sectors = 3,
     mapped_memory_mb = 64\<rparr>"

definition example_storage :: storage where
  "example_storage = \<lparr>driver_ready = False, volume = appfs_zero, pages = small_pool, ram = (\<lambda>_. 0), ports = []\<rparr>"

lemma example_drive: "ata_serves (ideal_drive disk 9000000) disk 9000000"
  by (rule ideal_drive_serves) simp

lemma example_settled: "settled (drive_after (ports example_storage))"
  by (simp add: example_storage_def)

lemma small_pool_run: "free_run small_pool 1 1"
  unfolding free_run_def
proof (intro conjI allI impI)
  show "1 + 1 \<le> unat (total_page_count small_pool)" by (simp add: small_pool_def)
  fix p :: nat assume "1 \<le> p \<and> p < 1 + 1"
  then have "p = 1" by simp
  with small_pool_tests(3) show "\<not> bitmap_test small_pool p" by simp
qed

lemma example_facts:
  "boot_appfs_sectors example_info = 3" "boot_appfs_lba example_info = 100"
  "ram example_storage = (\<lambda>_. 0)" "pages example_storage = small_pool"
  by (simp_all add: example_info_def example_storage_def)




end
