(* ===== verification/Mk_App_Fs.thy ===== *)
theory Mk_App_Fs
  imports App_Fs
begin

text \<open>
  The build tool that packs the application volume, tools/mkappfs.c, and its round trip with
  the kernel's reader: what the tool writes, the functions of App_Fs find again. The host's
  file system is a parameter. The tool runs on a little-endian host, as its output is the
  raw structures.
\<close>

section \<open>The tool\<close>

text \<open>
  The host: the contents of the files that can be opened, whether seeking, measuring,
  allocating or reading one of them fails, whether \<open>calloc\<close> fails, and which files can be
  opened for writing. A failing \<open>fwrite\<close> is not modelled (the tool ignores it as well).
\<close>

record host =
  host_file :: "bytes \<Rightarrow> bytes option"
  host_fault :: "bytes \<Rightarrow> bool"
  host_no_memory :: bool
  host_writable :: "bytes \<Rightarrow> bool"

definition read_file :: "host \<Rightarrow> bytes \<Rightarrow> bytes option" where
  "read_file h path =
     (case host_file h path of
        None \<Rightarrow> None
      | Some content \<Rightarrow> if host_fault h path then None else Some content)"

record pack_header =
  pack_magic :: bytes
  pack_version :: u32
  pack_entry_count :: u32
  pack_header_size :: u32
  pack_image_size :: u32

record pack_entry =
  pack_name :: bytes
  pack_offset :: u32
  pack_size :: u32
  pack_reserved :: u32

text \<open>\<open>strncpy\<close> of at most 31 bytes into a zeroed 32-byte field.\<close>

definition name_field :: "bytes \<Rightarrow> bytes" where
  "name_field name = take 31 name @ replicate (32 - length (take 31 name)) 0"

fun pack_files ::
    "host \<Rightarrow> (bytes \<times> bytes) list \<Rightarrow> u32 \<Rightarrow> (pack_entry list \<times> bytes list \<times> u32) option" where
  "pack_files h [] running_offset = Some ([], [], running_offset)"
| "pack_files h ((name, path) # args) running_offset =
     (case read_file h path of
        None \<Rightarrow> None
      | Some payload \<Rightarrow>
          (let entry = \<lparr>pack_name = name_field name, pack_offset = running_offset,
                        pack_size = of_nat (length payload), pack_reserved = 0\<rparr>
           in case pack_files h args (running_offset + of_nat (length payload)) of
                None \<Rightarrow> None
              | Some (entries, payloads, off) \<Rightarrow> Some (entry # entries, payload # payloads, off)))"

definition le32 :: "u32 \<Rightarrow> bytes" where
  "le32 v = le_bytes 4 (unat v)"

definition header_bytes :: "pack_header \<Rightarrow> bytes" where
  "header_bytes h = pack_magic h @ le32 (pack_version h) @ le32 (pack_entry_count h) @
     le32 (pack_header_size h) @ le32 (pack_image_size h)"

definition entry_bytes :: "pack_entry \<Rightarrow> bytes" where
  "entry_bytes e = pack_name e @ le32 (pack_offset e) @ le32 (pack_size e) @ le32 (pack_reserved e)"

text \<open>The arguments \<open>NAME FILE\<close> in pairs, and the whole of \<open>main\<close>: exit code and output.\<close>

definition arg_pairs :: "bytes list \<Rightarrow> (bytes \<times> bytes) list" where
  "arg_pairs argv =
     map (\<lambda>index. (argv ! (2 + index * 2), argv ! (3 + index * 2))) [0..<(length argv - 2) div 2]"

definition mkappfs_main :: "host \<Rightarrow> bytes list \<Rightarrow> int \<times> bytes option" where
  "mkappfs_main h argv =
     (if length argv < 4 \<or> (length argv - 2) mod 2 \<noteq> 0 then (1, None)
      else
        (let entry_count = (length argv - 2) div 2;
             header = \<lparr>pack_magic = chars ''SAPPFS1'' @ [0], pack_version = 1,
                       pack_entry_count = of_nat entry_count,
                       pack_header_size = of_nat (24 + 44 * entry_count), pack_image_size = 0\<rparr>
         in if host_no_memory h then (1, None)
            else
              (case pack_files h (arg_pairs argv) (pack_header_size header) of
                 None \<Rightarrow> (1, None)
               | Some (entries, payloads, running_offset) \<Rightarrow>
                   (let header' = header\<lparr>pack_image_size := running_offset\<rparr>
                    in if \<not> host_writable h (argv ! 1) then (1, None)
                       else (0, Some (header_bytes header' @ concat (map entry_bytes entries) @
                                      concat payloads))))))"

section \<open>Fields of concatenated structures\<close>

lemma length_le32 [simp]: "length (le32 v) = 4"
  by (simp add: le32_def)

lemma length_name_field [simp]: "length (name_field name) = 32"
  by (simp add: name_field_def)

lemma of_le32: "of_nat (le_value (le32 v)) = v"
  using unat_u32_bound [of v] by (simp add: le32_def le_value_le_bytes)

lemma take_concat_blocks:
  "(\<And>x. x \<in> set xs \<Longrightarrow> length (f x) = k) \<Longrightarrow> i < length xs \<Longrightarrow>
     take k (drop (k * i) (concat (map f xs))) = f (xs ! i)"
proof (induction xs arbitrary: i)
  case (Cons x xs)
  then show ?case by (cases i) (auto simp: add_mult_distrib2)
qed simp

lemma take_concat_payload:
  "i < length ps \<Longrightarrow>
     take (length (ps ! i)) (drop (sum_list (map length (take i ps))) (concat ps)) = ps ! i"
proof (induction ps arbitrary: i)
  case (Cons p ps)
  then show ?case by (cases i) auto
qed simp

section \<open>What the tool packs\<close>

text \<open>The sizes and offsets of a list of payloads, without wrap-around.\<close>

definition payload_offset :: "nat \<Rightarrow> bytes list \<Rightarrow> nat \<Rightarrow> nat" where
  "payload_offset start ps i = start + sum_list (map length (take i ps))"

lemma pack_files_spec:
  "pack_files h args off = Some (es, ps, off') \<Longrightarrow>
     map (read_file h \<circ> snd) args = map Some ps \<and> length es = length args \<and>
     off' = off + of_nat (sum_list (map length ps)) \<and>
     (\<forall>i < length args. es ! i = \<lparr>pack_name = name_field (fst (args ! i)),
        pack_offset = off + of_nat (sum_list (map length (take i ps))),
        pack_size = of_nat (length (ps ! i)), pack_reserved = 0\<rparr>)"
proof (induction h args off arbitrary: es ps off' rule: pack_files.induct)
  case (2 h name path args off)
  obtain p where p: "read_file h path = Some p" using 2(2) by (auto split: option.splits)
  obtain es1 ps1 where r: "pack_files h args (off + of_nat (length p)) = Some (es1, ps1, off')"
    and es: "es = \<lparr>pack_name = name_field name, pack_offset = off,
      pack_size = of_nat (length p), pack_reserved = 0\<rparr> # es1" and ps: "ps = p # ps1"
    using 2(2) p by (auto simp: Let_def split: option.splits)
  from 2(1) [OF p refl r] p show ?case
    by (auto simp: es ps nth_Cons' add.assoc take_Cons' gr0_conv_Suc)
qed simp

section \<open>Reading the image back\<close>

definition image_bytes :: "pack_header \<Rightarrow> pack_entry list \<Rightarrow> bytes list \<Rightarrow> bytes" where
  "image_bytes hdr es ps = header_bytes hdr @ concat (map entry_bytes es) @ concat ps"

definition well_packed :: "pack_header \<Rightarrow> pack_entry list \<Rightarrow> bool" where
  "well_packed hdr es \<longleftrightarrow> pack_magic hdr = expected_magic \<and> (\<forall>e \<in> set es. length (pack_name e) = 32)"

lemma length_expected_magic [simp]: "length expected_magic = 8"
  by (simp add: expected_magic_def)

lemma length_header_bytes: "well_packed hdr es \<Longrightarrow> length (header_bytes hdr) = 24"
  by (simp add: well_packed_def header_bytes_def)

lemma length_entry_bytes: "well_packed hdr es \<Longrightarrow> e \<in> set es \<Longrightarrow> length (entry_bytes e) = 44"
  by (simp add: well_packed_def entry_bytes_def)

lemma length_concat_entries: "well_packed hdr es \<Longrightarrow> length (concat (map entry_bytes es)) = 44 * length es"
  by (induction es) (auto simp: well_packed_def entry_bytes_def)

lemma length_image_bytes:
  "well_packed hdr es \<Longrightarrow>
     length (image_bytes hdr es ps) = 24 + 44 * length es + sum_list (map length ps)"
  by (simp add: image_bytes_def length_header_bytes length_concat_entries length_concat [of ps])

lemma header_fields:
  assumes wp: "well_packed hdr es" and img: "read_bytes m b (length img) = img"
    and eq: "img = image_bytes hdr es ps"
  shows "hdr_version m b = pack_version hdr" "hdr_entry_count m b = pack_entry_count hdr"
    "hdr_header_size m b = pack_header_size hdr" "hdr_image_size m b = pack_image_size hdr"
    "memory_compare (ptr_at m b) (lit expected_magic) 8 = 0"
proof -
  have "length img = 24 + 44 * length es + sum_list (map length ps)"
    unfolding eq by (rule length_image_bytes [OF wp])
  then have l: "24 \<le> length img" by simp
  have "read_bytes m b 24 = take 24 img"
    using read_bytes_sub [of 0 24 "length img" m b] l img by simp
  then have h: "read_bytes m b 24 = header_bytes hdr"
    using length_header_bytes [OF wp] by (simp add: eq image_bytes_def)
  then have r: "read_bytes m b (length (header_bytes hdr)) = header_bytes hdr"
    using length_header_bytes [OF wp] by simp
  have mg: "length (pack_magic hdr) = 8" "pack_magic hdr = expected_magic"
    using wp by (simp_all add: well_packed_def)
  note len = length_header_bytes [OF wp]
  show "hdr_version m b = pack_version hdr"
    using rd32_slice [OF r, of 8] len mg by (simp add: hdr_version_def header_bytes_def of_le32)
  show "hdr_entry_count m b = pack_entry_count hdr"
    using rd32_slice [OF r, of 12] len mg by (simp add: hdr_entry_count_def header_bytes_def of_le32)
  show "hdr_header_size m b = pack_header_size hdr"
    using rd32_slice [OF r, of 16] len mg by (simp add: hdr_header_size_def header_bytes_def of_le32)
  show "hdr_image_size m b = pack_image_size hdr"
    using rd32_slice [OF r, of 20] len mg by (simp add: hdr_image_size_def header_bytes_def of_le32)
  have "m (b + of_nat j) = expected_magic ! j" if "j < 8" for j
    using nth_read_bytes [of j 24 m b] that mg by (simp add: h header_bytes_def nth_append)
  then show "memory_compare (ptr_at m b) (lit expected_magic) 8 = 0"
    by (simp add: memory_compare_eq_0 ptr_at_def lit_def unat_of_nat_u64_small)
qed

definition entry_addr :: "u64 \<Rightarrow> nat \<Rightarrow> u64" where
  "entry_addr b i = b + of_nat (24 + 44 * i)"

lemma entry_fields:
  assumes wp: "well_packed hdr es" and img: "read_bytes m b (length img) = img"
    and eq: "img = image_bytes hdr es ps" and i: "i < length es"
  shows "ent_offset m (entry_addr b i) = pack_offset (es ! i)"
    "ent_size m (entry_addr b i) = pack_size (es ! i)"
    "read_bytes m (entry_addr b i) 32 = pack_name (es ! i)"
proof -
  have len: "length img = 24 + 44 * length es + sum_list (map length ps)"
    unfolding eq by (rule length_image_bytes [OF wp])
  have i': "44 * i + 44 \<le> 44 * length es" using i by simp
  have "24 + 44 * i + 44 \<le> length img" unfolding len using i' by linarith
  from read_bytes_sub [OF this, of m b]
  have "read_bytes m (entry_addr b i) 44 = take 44 (drop (24 + 44 * i) img)"
    unfolding entry_addr_def img .
  also have "drop (24 + 44 * i) img = drop (44 * i) (concat (map entry_bytes es)) @ concat ps"
    using length_header_bytes [OF wp] length_concat_entries [OF wp] i'
    by (simp add: eq image_bytes_def)
  also have "take 44 \<dots> = take 44 (drop (44 * i) (concat (map entry_bytes es)))"
    using length_concat_entries [OF wp] i' by simp
  also have "\<dots> = entry_bytes (es ! i)"
    using take_concat_blocks [of es entry_bytes 44 i] length_entry_bytes [OF wp] i by blast
  finally have e: "read_bytes m (entry_addr b i) 44 = entry_bytes (es ! i)" .
  have l: "length (entry_bytes (es ! i)) = 44" "length (pack_name (es ! i)) = 32"
    using length_entry_bytes [OF wp nth_mem [OF i]] wp i by (auto simp: well_packed_def)
  then have r: "read_bytes m (entry_addr b i) (length (entry_bytes (es ! i))) = entry_bytes (es ! i)"
    using e by simp
  show "ent_offset m (entry_addr b i) = pack_offset (es ! i)"
    using rd32_slice [OF r, of 32] l by (simp add: ent_offset_def entry_bytes_def of_le32)
  show "ent_size m (entry_addr b i) = pack_size (es ! i)"
    using rd32_slice [OF r, of 36] l by (simp add: ent_size_def entry_bytes_def of_le32)
  show "read_bytes m (entry_addr b i) 32 = pack_name (es ! i)"
    using read_bytes_sub [of 0 32 44 m "entry_addr b i"] e l by (simp add: entry_bytes_def)
qed

lemma payload_bytes:
  assumes wp: "well_packed hdr es" and img: "read_bytes m b (length img) = img"
    and eq: "img = image_bytes hdr es ps" and i: "i < length ps"
  shows "read_bytes m (b + of_nat (payload_offset (24 + 44 * length es) ps i)) (length (ps ! i)) = ps ! i"
proof -
  let ?o = "payload_offset (24 + 44 * length es) ps i"
  let ?s = "sum_list (map length (take i ps))"
  have "take i ps @ ps ! i # drop (Suc i) ps = ps" using i by (rule id_take_nth_drop [symmetric])
  then have "sum_list (map length (take i ps @ ps ! i # drop (Suc i) ps)) = sum_list (map length ps)"
    by simp
  then have "?s + length (ps ! i) \<le> sum_list (map length ps)" by simp
  moreover have "length img = 24 + 44 * length es + sum_list (map length ps)"
    unfolding eq by (rule length_image_bytes [OF wp])
  ultimately have "?o + length (ps ! i) \<le> length img" by (simp add: payload_offset_def)
  from read_bytes_sub [OF this, of m b]
  have "read_bytes m (b + of_nat ?o) (length (ps ! i)) = take (length (ps ! i)) (drop ?o img)"
    unfolding img .
  also have "drop ?o img = drop ?s (concat ps)"
    using length_header_bytes [OF wp] length_concat_entries [OF wp]
    by (simp add: eq image_bytes_def payload_offset_def)
  finally show ?thesis using take_concat_payload [OF i] by simp
qed

lemma name_field_cstr:
  assumes "read_bytes m e 32 = name_field name" and "0 \<notin> set name"
  shows "is_cstr (ptr_at m e) (take 31 name)"
  unfolding is_cstr_iff
proof (intro conjI allI impI)
  let ?t = "take 31 name"
  have at: "m (e + of_nat i) = name_field name ! i" if "i < 32" for i
    using nth_read_bytes [OF that, of m e] assms(1) by simp
  fix i assume i: "i < length ?t"
  then have "?t ! i \<in> set name" by (metis in_set_takeD nth_mem)
  with assms(2) show "?t ! i \<noteq> 0" by metis
  show "ptr_at m e (of_nat i) = ?t ! i"
    using at [of i] i by (simp add: ptr_at_def name_field_def nth_append)
next
  let ?t = "take 31 name"
  have "m (e + of_nat (length ?t)) = name_field name ! length ?t"
    using nth_read_bytes [of "length ?t" 32 m e] assms(1) by simp
  then show "ptr_at m e (of_nat (length ?t)) = 0"
    by (simp add: ptr_at_def name_field_def nth_append)
qed

lemma mkappfs_image:
  assumes "mkappfs_main h argv = (0, Some img)"
  obtains hdr es ps where "img = image_bytes hdr es ps" and "well_packed hdr es"
    and "map (read_file h \<circ> snd) (arg_pairs argv) = map Some ps"
    and "length es = length (arg_pairs argv)" and "4 \<le> length argv"
    and "pack_version hdr = 1" and "pack_entry_count hdr = of_nat (length es)"
    and "pack_header_size hdr = of_nat (24 + 44 * length es)"
    and "pack_image_size hdr = of_nat (length img)"
    and "\<forall>i < length es. pack_name (es ! i) = name_field (fst (arg_pairs argv ! i)) \<and>
      pack_offset (es ! i) = of_nat (payload_offset (24 + 44 * length es) ps i) \<and>
      pack_size (es ! i) = of_nat (length (ps ! i))"
proof -
  define n where "n = (length argv - 2) div 2"
  have len: "length (arg_pairs argv) = n" by (simp add: arg_pairs_def n_def)
  have argc: "4 \<le> length argv" using assms by (auto simp: mkappfs_main_def split: if_splits)
  obtain es ps off where pf: "pack_files h (arg_pairs argv) (of_nat (24 + 44 * n)) = Some (es, ps, off)"
    and img: "img = image_bytes \<lparr>pack_magic = chars ''SAPPFS1'' @ [0], pack_version = 1,
        pack_entry_count = of_nat n, pack_header_size = of_nat (24 + 44 * n),
        pack_image_size = off\<rparr> es ps"
    using assms
    by (auto simp: mkappfs_main_def image_bytes_def n_def Let_def split: if_splits option.splits)
  let ?hdr = "\<lparr>pack_magic = chars ''SAPPFS1'' @ [0], pack_version = 1,
        pack_entry_count = of_nat n, pack_header_size = of_nat (24 + 44 * n),
        pack_image_size = off\<rparr>"
  note spec = pack_files_spec [OF pf]
  have es: "length es = n" using spec len by simp
  have nm: "pack_name (es ! i) = name_field (fst (arg_pairs argv ! i))"
    "pack_offset (es ! i) = of_nat (payload_offset (24 + 44 * length es) ps i)"
    "pack_size (es ! i) = of_nat (length (ps ! i))" if "i < length es" for i
    using spec that es len by (simp_all add: payload_offset_def)
  have wp: "well_packed ?hdr es"
    using nm(1) by (auto simp: well_packed_def expected_magic_def in_set_conv_nth)
  have "length img = 24 + 44 * n + sum_list (map length ps)"
    using length_image_bytes [OF wp] es by (simp add: img)
  then have "pack_image_size ?hdr = of_nat (length img)" using spec by simp
  then show thesis
    using img wp spec len es nm argc by (intro that [of ?hdr es ps]) simp_all
qed

lemma ucast_index: "n < 4294967296 \<Longrightarrow> (ucast (of_nat n :: u32) :: u64) = of_nat n"
  by (simp add: word_unat_eq_iff unsigned_ucast_eq unat_of_nat take_bit_eq_mod)

lemma word_le_of_nat_u32:
  "a < 4294967296 \<Longrightarrow> unat (of_nat a :: u32) = a"
  by (simp add: unat_of_nat)

text \<open>
  The names of a valid volume's entries, in order, when each is a string.
\<close>

definition catalogue :: "mem \<Rightarrow> appfs \<Rightarrow> bytes list \<Rightarrow> bool" where
  "catalogue m af names \<longleftrightarrow> appfs_is_ready af m \<and>
     unat (hdr_entry_count m (appfs_header af)) = length names \<and>
     (\<forall>i < length names. entry_addr (appfs_image af) i \<noteq> 0 \<and>
        is_cstr (ptr_at m (entry_addr (appfs_image af) i)) (names ! i))"

lemma catalogue_count:
  assumes "catalogue m af names"
  shows "length names < 4294967296" and "appfs_entry_count af m = of_nat (length names)"
proof -
  let ?c = "hdr_entry_count m (appfs_header af)"
  have c: "unat ?c = length names" "appfs_is_ready af m" using assms by (simp_all add: catalogue_def)
  show "length names < 4294967296" using unat_u32_bound [of ?c] c(1) by simp
  have "of_nat (unat ?c) = ?c" by simp
  then show "appfs_entry_count af m = of_nat (length names)" using c by (simp add: appfs_entry_count_def)
qed

text \<open>The search goes on over entries of another name.\<close>

lemma appfs_find_skip:
  assumes cat: "catalogue m af names" and name: "is_cstr p s"
    and "i \<le> j" and "j \<le> length names" and "\<And>l. l < j \<Longrightarrow> names ! l \<noteq> s"
  shows "appfs_find_from (of_nat i) p af m = appfs_find_from (of_nat j) p af m"
  using assms(3)
proof (induction i rule: inc_induct)
  case (step i)
  let ?b = "appfs_image af"
  note n = catalogue_count [OF cat]
  have i: "i < length names" using step(2) assms(4) by simp
  have less: "(of_nat i :: u32) < of_nat (length names)"
    using i n(1) by (simp add: word_less_nat_alt word_le_of_nat_u32)
  have "appfs_entry_at (of_nat i) af m = entry_addr ?b i"
    using cat less n i by (simp add: appfs_entry_at_def appfs_entry_count_def catalogue_def entry_addr_def
        ucast_index sizeof_AppFsHeader_def sizeof_AppFsEntry_def algebra_simps not_le split: if_splits)
  moreover have "entry_addr ?b i \<noteq> 0" "is_cstr (ptr_at m (entry_addr ?b i)) (names ! i)"
    using cat i by (auto simp: catalogue_def)
  moreover obtain c where "string_compare (ptr_at m (entry_addr ?b i)) p = Some c" "c \<noteq> 0"
    using string_compare_eq [OF calculation(3) name] assms(5) [OF step(2)] by auto
  ultimately show ?case
    using step(3) less
    by (subst appfs_find_from.simps) (simp add: n(2) Let_def add.commute)
qed simp

lemma appfs_find_named:
  assumes cat: "catalogue m af names" and name: "is_cstr p (names ! j)"
    and j: "j < length names" and first: "\<And>l. l < j \<Longrightarrow> names ! l \<noteq> names ! j"
  shows "appfs_find p af m = Some (entry_addr (appfs_image af) j)"
proof -
  let ?e = "entry_addr (appfs_image af) j"
  note n = catalogue_count [OF cat]
  have less: "(of_nat j :: u32) < of_nat (length names)"
    using j n(1) by (simp add: word_less_nat_alt word_le_of_nat_u32)
  have "appfs_entry_at (of_nat j) af m = ?e"
    using cat less n j by (simp add: appfs_entry_at_def appfs_entry_count_def catalogue_def entry_addr_def
        ucast_index sizeof_AppFsHeader_def sizeof_AppFsEntry_def algebra_simps not_le split: if_splits)
  moreover have "?e \<noteq> 0" "is_cstr (ptr_at m ?e) (names ! j)" using cat j by (auto simp: catalogue_def)
  moreover have "string_compare (ptr_at m ?e) p = Some 0"
    using string_compare_eq [OF calculation(3) name] by auto
  ultimately have "appfs_find_from (of_nat j) p af m = Some ?e"
    using less by (subst appfs_find_from.simps) (simp add: n(2) Let_def)
  then show ?thesis
    using appfs_find_skip [OF cat name _ _ first, of 0 j] j by (simp add: appfs_find_def)
qed

lemma appfs_find_missing:
  assumes cat: "catalogue m af names" and name: "is_cstr p s" and "s \<notin> set names"
  shows "appfs_find p af m = Some 0"
proof -
  have "appfs_find_from (of_nat (length names)) p af m = Some 0"
    by (subst appfs_find_from.simps) (simp add: catalogue_count(2) [OF cat])
  moreover have "names ! l \<noteq> s" if "l < length names" for l using assms(3) that by auto
  ultimately show ?thesis
    using appfs_find_skip [OF cat name, of 0 "length names"] by (simp add: appfs_find_def)
qed

text \<open>
  A packed image in memory: \<open>stored\<close> collects what the tool's success says of its parts and
  where the volume is.
\<close>

definition stored :: "host \<Rightarrow> bytes list \<Rightarrow> bytes \<Rightarrow> mem \<Rightarrow> appfs \<Rightarrow> bool" where
  "stored h argv img m af \<longleftrightarrow>
     mkappfs_main h argv = (0, Some img) \<and> length img < 4294967296 \<and>
     (\<forall>(name, path) \<in> set (arg_pairs argv). 0 \<notin> set name) \<and>
     distinct (map (take 31 \<circ> fst) (arg_pairs argv)) \<and>
     read_bytes m (appfs_image af) (length img) = img \<and> appfs_image af \<noteq> 0 \<and>
     appfs_header af = appfs_image af \<and>
     unat (appfs_image af) + length img < 18446744073709551616 \<and>
     length img \<le> unat (boot_sectors af * 512)"

lemma stored_parts:
  assumes "stored h argv img m af"
  obtains hdr es ps where "img = image_bytes hdr es ps" and "well_packed hdr es"
    and "map (read_file h \<circ> snd) (arg_pairs argv) = map Some ps"
    and "length es = length (arg_pairs argv)" and "length ps = length (arg_pairs argv)"
    and "pack_version hdr = 1" "pack_entry_count hdr = of_nat (length es)"
      "pack_header_size hdr = of_nat (24 + 44 * length es)" "pack_image_size hdr = of_nat (length img)"
    and "\<forall>i < length es. pack_name (es ! i) = name_field (fst (arg_pairs argv ! i)) \<and>
      pack_offset (es ! i) = of_nat (payload_offset (24 + 44 * length es) ps i) \<and>
      pack_size (es ! i) = of_nat (length (ps ! i))"
    and "length img = 24 + 44 * length es + sum_list (map length ps)"
proof -
  from assms have "mkappfs_main h argv = (0, Some img)" by (simp add: stored_def)
  from mkappfs_image [OF this] obtain hdr es ps where
    r: "img = image_bytes hdr es ps" "well_packed hdr es"
      "map (read_file h \<circ> snd) (arg_pairs argv) = map Some ps" "length es = length (arg_pairs argv)"
      "pack_version hdr = 1" "pack_entry_count hdr = of_nat (length es)"
      "pack_header_size hdr = of_nat (24 + 44 * length es)" "pack_image_size hdr = of_nat (length img)"
      "\<forall>i < length es. pack_name (es ! i) = name_field (fst (arg_pairs argv ! i)) \<and>
        pack_offset (es ! i) = of_nat (payload_offset (24 + 44 * length es) ps i) \<and>
        pack_size (es ! i) = of_nat (length (ps ! i))" by metis
  have "length ps = length (arg_pairs argv)" using r(3) by (metis length_map)
  moreover have "length img = 24 + 44 * length es + sum_list (map length ps)"
    unfolding r(1) by (rule length_image_bytes [OF r(2)])
  ultimately show thesis using that [OF r(1-4)] r(5-9) by blast
qed

lemma stored_valid:
  assumes st: "stored h argv img m af"
  shows "appfs_validate af m"
    and "hdr_entry_count m (appfs_image af) = of_nat (length (arg_pairs argv))"
    and "hdr_image_size m (appfs_image af) = of_nat (length img)"
proof -
  from st obtain hdr es ps where eq: "img = image_bytes hdr es ps" and wp: "well_packed hdr es"
    and n: "length es = length (arg_pairs argv)"
    and hdr: "pack_version hdr = 1" "pack_entry_count hdr = of_nat (length es)"
      "pack_header_size hdr = of_nat (24 + 44 * length es)" "pack_image_size hdr = of_nat (length img)"
    and len: "length img = 24 + 44 * length es + sum_list (map length ps)" by (rule stored_parts)
  from st have mem: "read_bytes m (appfs_image af) (length img) = img" by (simp add: stored_def)
  have n32: "24 + 44 * length es < 4294967296" using st len by (simp add: stored_def)
  note hf = header_fields [OF wp mem eq]
  have "\<not> (of_nat (24 + 44 * length es) :: u64) < 24 + of_nat (length es) * 44"
    by (simp add: mult.commute)
  moreover have "\<not> boot_sectors af * 512 < (of_nat (length img) :: u32)"
    using st by (simp add: stored_def word_less_nat_alt word_le_of_nat_u32)
  ultimately show "appfs_validate af m"
    using hf hdr st n32
    by (simp add: stored_def appfs_validate_def sizeof_AppFsHeader_def sizeof_AppFsEntry_def
        ucast_index del: of_nat_add of_nat_mult)
  show "hdr_entry_count m (appfs_image af) = of_nat (length (arg_pairs argv))"
    "hdr_image_size m (appfs_image af) = of_nat (length img)" using hf hdr n by simp_all
qed

lemma stored_name:
  assumes st: "stored h argv img m af" and i: "i < length (arg_pairs argv)"
  shows "is_cstr (ptr_at m (entry_addr (appfs_image af) i)) (take 31 (fst (arg_pairs argv ! i)))"
    and "entry_addr (appfs_image af) i \<noteq> 0"
proof -
  from st obtain hdr es ps where eq: "img = image_bytes hdr es ps" and wp: "well_packed hdr es"
    and n: "length es = length (arg_pairs argv)"
    and es: "\<forall>i < length es. pack_name (es ! i) = name_field (fst (arg_pairs argv ! i)) \<and>
      pack_offset (es ! i) = of_nat (payload_offset (24 + 44 * length es) ps i) \<and>
      pack_size (es ! i) = of_nat (length (ps ! i))"
    and len: "length img = 24 + 44 * length es + sum_list (map length ps)" by (rule stored_parts)
  from st have mem: "read_bytes m (appfs_image af) (length img) = img"
    and names: "\<forall>(name, path) \<in> set (arg_pairs argv). 0 \<notin> set name"
    and b: "unat (appfs_image af) + length img < 18446744073709551616" by (auto simp: stored_def)
  have i': "i < length es" using i n by simp
  have "unat (entry_addr (appfs_image af) i) = unat (appfs_image af) + (24 + 44 * i)"
    unfolding entry_addr_def using i' b len by (intro unat_add_of_nat_u64) simp
  then show "entry_addr (appfs_image af) i \<noteq> 0" by (metis add_is_0 unat_0 zero_neq_numeral)
  show "is_cstr (ptr_at m (entry_addr (appfs_image af) i)) (take 31 (fst (arg_pairs argv ! i)))"
  proof (rule name_field_cstr)
    show "read_bytes m (entry_addr (appfs_image af) i) 32 = name_field (fst (arg_pairs argv ! i))"
      using entry_fields(3) [OF wp mem eq i'] es i' by simp
    have "arg_pairs argv ! i \<in> set (arg_pairs argv)" using i by simp
    with names show "0 \<notin> set (fst (arg_pairs argv ! i))" by (auto simp: split_beta)
  qed
qed

lemma stored_catalogue:
  assumes st: "stored h argv img m af"
  shows "catalogue m af (map (take 31 \<circ> fst) (arg_pairs argv))"
proof -
  let ?n = "length (arg_pairs argv)"
  from st have hd: "appfs_header af = appfs_image af" by (simp add: stored_def)
  from st obtain es :: "pack_entry list" and ps :: "bytes list" where "length es = ?n"
    "length img = 24 + 44 * length es + sum_list (map length ps)" by (rule stored_parts)
  then have "?n < 4294967296" using st by (simp add: stored_def)
  then have "unat (hdr_entry_count m (appfs_header af)) = ?n"
    using stored_valid(2) [OF st] hd by (simp add: word_le_of_nat_u32)
  then show ?thesis
    using stored_valid(1) [OF st] stored_name [OF st] by (simp add: catalogue_def appfs_is_ready_def)
qed

lemma stored_find:
  assumes st: "stored h argv img m af" and i: "i < length (arg_pairs argv)"
    and nm: "is_cstr name (take 31 (fst (arg_pairs argv ! i)))"
  shows "appfs_find name af m = Some (entry_addr (appfs_image af) i)"
proof -
  have "distinct (map (take 31 \<circ> fst) (arg_pairs argv))" using st by (simp add: stored_def)
  then have "map (take 31 \<circ> fst) (arg_pairs argv) ! k \<noteq> map (take 31 \<circ> fst) (arg_pairs argv) ! i"
    if "k < i" for k using that i nth_eq_iff_index_eq [of "map (take 31 \<circ> fst) (arg_pairs argv)" k i] by simp
  with appfs_find_named [OF stored_catalogue [OF st], of name i] nm i show ?thesis by simp
qed

lemma stored_data:
  assumes st: "stored h argv img m af" and i: "i < length (arg_pairs argv)"
  obtains off content where "read_file h (snd (arg_pairs argv ! i)) = Some content"
    and "unat (ent_size m (entry_addr (appfs_image af) i)) = length content"
    and "appfs_data_at (entry_addr (appfs_image af) i) af m = appfs_image af + of_nat off"
    and "0 < off" and "off + length content \<le> length img"
    and "read_bytes m (appfs_image af + of_nat off) (length content) = content"
proof -
  let ?e = "entry_addr (appfs_image af) i"
  from st obtain hdr es ps where eq: "img = image_bytes hdr es ps" and wp: "well_packed hdr es"
    and files: "map (read_file h \<circ> snd) (arg_pairs argv) = map Some ps"
    and n: "length es = length (arg_pairs argv)" "length ps = length (arg_pairs argv)"
    and es: "\<forall>i < length es. pack_name (es ! i) = name_field (fst (arg_pairs argv ! i)) \<and>
      pack_offset (es ! i) = of_nat (payload_offset (24 + 44 * length es) ps i) \<and>
      pack_size (es ! i) = of_nat (length (ps ! i))"
    and len: "length img = 24 + 44 * length es + sum_list (map length ps)" by (rule stored_parts)
  from st have mem: "read_bytes m (appfs_image af) (length img) = img"
    and small: "length img < 4294967296" and hd: "appfs_header af = appfs_image af"
    by (simp_all add: stored_def)
  let ?c = "ps ! i" and ?o = "payload_offset (24 + 44 * length es) ps i"
  have i': "i < length es" "i < length ps" using i n by simp_all
  have rf: "read_file h (snd (arg_pairs argv ! i)) = Some ?c"
    using arg_cong [OF files, of "\<lambda>xs. xs ! i"] i i' by simp
  have "sum_list (map length (take i ps @ ps ! i # drop (Suc i) ps)) = sum_list (map length ps)"
    by (simp only: id_take_nth_drop [OF i'(2), symmetric])
  then have o: "?o + length ?c \<le> length img" unfolding len payload_offset_def by simp
  have f: "ent_size m ?e = of_nat (length ?c)" "ent_offset m ?e = of_nat ?o"
    using entry_fields(1,2) [OF wp mem eq i'(1)] es i'(1) by simp_all
  have "ent_offset m ?e + ent_size m ?e = of_nat (?o + length ?c)" unfolding f by simp
  then have "\<not> hdr_image_size m (appfs_image af) < ent_offset m ?e + ent_size m ?e"
    using o small stored_valid(3) [OF st]
    by (simp add: word_less_nat_alt word_le_of_nat_u32 del: of_nat_add)
  then have "appfs_data_at ?e af m = appfs_image af + of_nat ?o"
    using stored_valid(1) [OF st] stored_name(2) [OF st i] hd o small
    by (simp add: appfs_data_at_def appfs_is_ready_def f(2) ucast_index)
  moreover have "unat (ent_size m ?e) = length ?c" using f(1) o small by (simp add: word_le_of_nat_u32)
  moreover have "0 < ?o" by (simp add: payload_offset_def)
  ultimately show thesis using that rf o payload_bytes [OF wp mem eq i'(2)] by blast
qed

section \<open>Properties\<close>

text \<open>
  C5 (mkappfs_appfs_roundtrip): the kernel's reader finds again what the tool packed. When the
  tool succeeds with an image below 4 GiB, and its bytes are in memory, in an application
  volume large enough for them, the volume is valid, it has one entry per \<open>NAME FILE\<close> pair,
  and looking a name up (cut to 31 bytes; the cut names being distinct) gives an entry whose
  size and data are exactly those of the file the tool was given, inside the image.
\<close>

theorem mkappfs_appfs_roundtrip:
  assumes tool: "mkappfs_main h argv = (0, Some img)" and small: "length img < 4294967296"
    and names: "\<forall>(name, path) \<in> set (arg_pairs argv). 0 \<notin> set name"
    and dist: "distinct (map (take 31 \<circ> fst) (arg_pairs argv))"
    and mem: "read_bytes m b (length img) = img" and b: "b \<noteq> 0"
      "unat b + length img < 18446744073709551616"
    and af: "appfs_image af = b" "appfs_header af = b" "length img \<le> unat (boot_sectors af * 512)"
  shows "appfs_validate af m \<and> appfs_entry_count af m = of_nat (length (arg_pairs argv)) \<and>
    (\<forall>i < length (arg_pairs argv). \<exists>e content.
       read_file h (snd (arg_pairs argv ! i)) = Some content \<and>
       (\<forall>name. is_cstr name (take 31 (fst (arg_pairs argv ! i))) \<longrightarrow> appfs_find name af m = Some e) \<and>
       e \<noteq> 0 \<and> unat (ent_size m e) = length content \<and> appfs_data_at e af m \<noteq> 0 \<and>
       read_bytes m (appfs_data_at e af m) (length content) = content \<and>
       unat (appfs_data_at e af m) + length content \<le> unat b + length img)"
proof -
  have st: "stored h argv img m af" using assms by (simp add: stored_def)
  have "\<exists>e content. read_file h (snd (arg_pairs argv ! i)) = Some content \<and>
      (\<forall>name. is_cstr name (take 31 (fst (arg_pairs argv ! i))) \<longrightarrow> appfs_find name af m = Some e) \<and>
      e \<noteq> 0 \<and> unat (ent_size m e) = length content \<and> appfs_data_at e af m \<noteq> 0 \<and>
      read_bytes m (appfs_data_at e af m) (length content) = content \<and>
      unat (appfs_data_at e af m) + length content \<le> unat b + length img"
    if i: "i < length (arg_pairs argv)" for i
  proof -
    obtain off content where d: "read_file h (snd (arg_pairs argv ! i)) = Some content"
      "unat (ent_size m (entry_addr b i)) = length content"
      "appfs_data_at (entry_addr b i) af m = b + of_nat off" "0 < off"
      "off + length content \<le> length img" "read_bytes m (b + of_nat off) (length content) = content"
      using stored_data [OF st i] af(1) by blast
    have u: "unat (b + of_nat off) = unat b + off" using b(2) d(5) by (intro unat_add_of_nat_u64) simp
    then have "b + of_nat off \<noteq> 0" using d(4) by auto
    with d u stored_find [OF st i] stored_name(2) [OF st i] af(1) show ?thesis
      by (intro exI [of _ "entry_addr b i"] exI [of _ content]) auto
  qed
  then show ?thesis
    using stored_valid [OF st] af by (simp add: appfs_entry_count_def appfs_is_ready_def)
qed

definition example_host :: host where
  "example_host = \<lparr>host_file = (\<lambda>path. if path = chars ''a.elf'' then Some [1, 2, 3] else Some [9, 8]),
     host_fault = (\<lambda>_. False), host_no_memory = False, host_writable = (\<lambda>_. True)\<rparr>"

definition example_argv :: "bytes list" where
  "example_argv = map chars [''mkappfs'', ''out.img'', ''demo'', ''a.elf'', ''edit'', ''b.elf'']"

lemma mkappfs_appfs_roundtrip_witness:
  "\<exists>img e. mkappfs_main example_host example_argv = (0, Some img) \<and>
     appfs_find (lit (chars ''edit'')) \<lparr>appfs_image = 0x200000, appfs_header = 0x200000, boot_lba = 0,
       boot_sectors = 1\<rparr> (write_bytes (\<lambda>_. 0) 0x200000 img) = Some e \<and> e \<noteq> 0"
proof -
  define img where "img = the (snd (mkappfs_main example_host example_argv))"
  have run: "mkappfs_main example_host example_argv = (0, Some img)"
    "length img = 117" "\<forall>(name, path) \<in> set (arg_pairs example_argv). 0 \<notin> set name"
    "distinct (map (take 31 \<circ> fst) (arg_pairs example_argv))"
    "length (arg_pairs example_argv) = 2" "take 31 (fst (arg_pairs example_argv ! 1)) = chars ''edit''"
    unfolding img_def by code_simp+
  let ?m = "write_bytes (\<lambda>_. 0) 0x200000 img"
  let ?af = "\<lparr>appfs_image = 0x200000, appfs_header = 0x200000, boot_lba = 0, boot_sectors = 1\<rparr>"
  have "read_bytes ?m 0x200000 (length img) = img"
    using read_write_same [of img "\<lambda>_. 0" "0x200000"] run(2) by simp
  from mkappfs_appfs_roundtrip [OF run(1) _ run(3,4) this, of ?af] run(2)
  have "\<forall>i < length (arg_pairs example_argv). \<exists>e content.
       (\<forall>name. is_cstr name (take 31 (fst (arg_pairs example_argv ! i))) \<longrightarrow>
          appfs_find name ?af ?m = Some e) \<and> e \<noteq> 0" by auto
  then obtain e where "\<forall>name. is_cstr name (chars ''edit'') \<longrightarrow> appfs_find name ?af ?m = Some e" "e \<noteq> 0"
    using run(5,6) by (metis one_less_numeral_iff semiring_norm(76))
  moreover have "is_cstr (lit (chars ''edit'')) (chars ''edit'')"
    by (intro is_cstr_lit) (simp_all add: chars_def)
  ultimately show ?thesis using run(1) by blast
qed

end
