(* ===== verification/Elf_Loader.thy ===== *)
theory Elf_Loader
  imports App_Fs
begin

text \<open>
  The ELF64 loader of kernel/src/runtime.c: validation of the header and loading of the
  segments into the application window. The packed structures are read from memory at their
  offsets, each time the code reads them, since loading writes the memory they are in.
\<close>

section \<open>The packed structures\<close>

definition ELF_MAGIC :: u32 where "ELF_MAGIC = 0x464C457F"
definition ELF_CLASS_64 :: u8 where "ELF_CLASS_64 = 2"
definition ELF_DATA_LITTLE :: u8 where "ELF_DATA_LITTLE = 1"
definition ELF_TYPE_EXEC :: u16 where "ELF_TYPE_EXEC = 2"
definition ELF_MACHINE_X86_64 :: u16 where "ELF_MACHINE_X86_64 = 62"
definition ELF_PT_LOAD :: u32 where "ELF_PT_LOAD = 1"

definition sizeof_Elf64Header :: u64 where "sizeof_Elf64Header = 64"
definition sizeof_Elf64ProgramHeader :: u64 where "sizeof_Elf64ProgramHeader = 56"

definition elf_magic :: "mem \<Rightarrow> u64 \<Rightarrow> u32" where "elf_magic m h = rd32 m h"
definition elf_class_id :: "mem \<Rightarrow> u64 \<Rightarrow> u8" where "elf_class_id m h = m (h + 4)"
definition elf_data_encoding :: "mem \<Rightarrow> u64 \<Rightarrow> u8" where "elf_data_encoding m h = m (h + 5)"
definition elf_type :: "mem \<Rightarrow> u64 \<Rightarrow> u16" where "elf_type m h = rd16 m (h + 16)"
definition elf_machine :: "mem \<Rightarrow> u64 \<Rightarrow> u16" where "elf_machine m h = rd16 m (h + 18)"
definition elf_entry :: "mem \<Rightarrow> u64 \<Rightarrow> u64" where "elf_entry m h = rd64 m (h + 24)"
definition elf_phoff :: "mem \<Rightarrow> u64 \<Rightarrow> u64" where "elf_phoff m h = rd64 m (h + 32)"
definition elf_phentsize :: "mem \<Rightarrow> u64 \<Rightarrow> u16" where "elf_phentsize m h = rd16 m (h + 54)"
definition elf_phnum :: "mem \<Rightarrow> u64 \<Rightarrow> u16" where "elf_phnum m h = rd16 m (h + 56)"

definition ph_type :: "mem \<Rightarrow> u64 \<Rightarrow> u32" where "ph_type m p = rd32 m p"
definition ph_offset :: "mem \<Rightarrow> u64 \<Rightarrow> u64" where "ph_offset m p = rd64 m (p + 8)"
definition ph_vaddr :: "mem \<Rightarrow> u64 \<Rightarrow> u64" where "ph_vaddr m p = rd64 m (p + 16)"
definition ph_filesz :: "mem \<Rightarrow> u64 \<Rightarrow> u64" where "ph_filesz m p = rd64 m (p + 32)"
definition ph_memsz :: "mem \<Rightarrow> u64 \<Rightarrow> u64" where "ph_memsz m p = rd64 m (p + 40)"

section \<open>The functions\<close>

definition runtime_validate_elf :: "u64 \<Rightarrow> u64 \<Rightarrow> mem \<Rightarrow> bool" where
  "runtime_validate_elf img sz m =
     (if sz < sizeof_Elf64Header then False
      else if elf_magic m img \<noteq> ELF_MAGIC \<or> elf_class_id m img \<noteq> ELF_CLASS_64 \<or>
              elf_data_encoding m img \<noteq> ELF_DATA_LITTLE \<or> elf_type m img \<noteq> ELF_TYPE_EXEC \<or>
              elf_machine m img \<noteq> ELF_MACHINE_X86_64
        then False
      else if elf_phoff m img + ucast (elf_phentsize m img) * ucast (elf_phnum m img) > sz
        then False
      else True)"

text \<open>The body of the loop for one program header: go on (\<open>Some\<close>) or return false (\<open>None\<close>).\<close>

definition runtime_load_segment :: "u64 \<Rightarrow> u64 \<Rightarrow> u64 \<Rightarrow> mem \<Rightarrow> mem option" where
  "runtime_load_segment img sz program m =
     (if ph_type m program \<noteq> ELF_PT_LOAD \<or> ph_memsz m program = 0 then Some m
      else if ph_offset m program + ph_filesz m program > sz then None
      else if ph_vaddr m program < SNSX_APP_WINDOW_START \<or>
              ph_vaddr m program + ph_memsz m program > SNSX_APP_WINDOW_START + SNSX_APP_WINDOW_SIZE
        then None
      else
        (let m1 = memory_copy (ph_vaddr m program) (img + ph_offset m program)
                    (ph_filesz m program) m
         in Some (if ph_memsz m1 program > ph_filesz m1 program
                  then memory_set (ph_vaddr m1 program + ph_filesz m1 program) 0
                         (ph_memsz m1 program - ph_filesz m1 program) m1
                  else m1)))"

function runtime_load_from :: "u64 \<Rightarrow> u64 \<Rightarrow> u64 \<Rightarrow> u64 \<Rightarrow> u16 \<Rightarrow> mem \<Rightarrow> bool \<times> mem" where
  "runtime_load_from img sz header program_headers index m =
     (if index < elf_phnum m header then
        (case runtime_load_segment img sz
                (program_headers + ucast index * sizeof_Elf64ProgramHeader) m of
           None \<Rightarrow> (False, m)
         | Some m' \<Rightarrow> runtime_load_from img sz header program_headers (index + 1) m')
      else (True, m))"
  by pat_completeness auto
termination
proof (relation "measure (\<lambda>(img, sz, header, phs, index, m). 65536 - unat index)", goal_cases)
  case (2 img sz header phs index m m')
  then have "unat (index + 1) = unat index + 1"
    using unat_u16_bound [of "elf_phnum m header"]
    by (simp add: word_less_nat_alt unat_word_ariths)
  with 2 show ?case using unat_u16_bound [of index] by simp
qed simp

declare runtime_load_from.simps [simp del]

definition runtime_load_segments :: "u64 \<Rightarrow> u64 \<Rightarrow> u64 \<Rightarrow> mem \<Rightarrow> bool \<times> mem" where
  "runtime_load_segments img sz header m =
     (let program_headers = img + elf_phoff m header;
          m1 = memory_set SNSX_APP_WINDOW_START 0 SNSX_APP_WINDOW_SIZE m
      in runtime_load_from img sz header program_headers 0 m1)"

section \<open>What loading should produce\<close>

text \<open>The application window, and memory that agrees with \<open>m\<close> outside it.\<close>

definition window :: "u64 \<Rightarrow> bool" where
  "window x \<longleftrightarrow> 0x400000 \<le> unat x \<and> unat x < 0x800000"

definition agrees :: "mem \<Rightarrow> mem \<Rightarrow> bool" where
  "agrees m m' \<longleftrightarrow> (\<forall>x. \<not> window x \<longrightarrow> m' x = m x)"

record segment =
  seg_type :: u32
  seg_offset :: u64
  seg_vaddr :: u64
  seg_filesz :: u64
  seg_memsz :: u64

definition segment_at :: "mem \<Rightarrow> u64 \<Rightarrow> segment" where
  "segment_at m p = \<lparr>seg_type = ph_type m p, seg_offset = ph_offset m p, seg_vaddr = ph_vaddr m p,
     seg_filesz = ph_filesz m p, seg_memsz = ph_memsz m p\<rparr>"

definition segments :: "mem \<Rightarrow> u64 \<Rightarrow> nat \<Rightarrow> segment list" where
  "segments m phs n = map (\<lambda>i. segment_at m (phs + of_nat (56 * i))) [0..<n]"

definition loadable :: "segment \<Rightarrow> bool" where
  "loadable s \<longleftrightarrow> seg_type s = ELF_PT_LOAD \<and> seg_memsz s \<noteq> 0"

text \<open>
  A segment is sane when its sums do not wrap and its file part is not larger than its memory
  part; it is in place when its file part is in the file and its memory part in the window.
\<close>

definition sane :: "segment \<Rightarrow> bool" where
  "sane s \<longleftrightarrow> unat (seg_offset s) + unat (seg_filesz s) < 18446744073709551616 \<and>
     unat (seg_vaddr s) + unat (seg_memsz s) < 18446744073709551616 \<and> seg_filesz s \<le> seg_memsz s"

definition in_place :: "u64 \<Rightarrow> segment \<Rightarrow> bool" where
  "in_place sz s \<longleftrightarrow> unat (seg_offset s) + unat (seg_filesz s) \<le> unat sz \<and>
     0x400000 \<le> unat (seg_vaddr s) \<and> unat (seg_vaddr s) + unat (seg_memsz s) \<le> 0x800000"

text \<open>
  The reference: the byte at \<open>x\<close> of the loaded program. It starts as 0, and each loadable
  segment that covers \<open>x\<close>, in order, makes it a byte of the file or 0.
\<close>

definition seg_byte :: "mem \<Rightarrow> u64 \<Rightarrow> segment \<Rightarrow> u64 \<Rightarrow> u8" where
  "seg_byte m img s x =
     (if unat (x - seg_vaddr s) < unat (seg_filesz s)
      then m (img + seg_offset s + (x - seg_vaddr s)) else 0)"

definition program_byte :: "mem \<Rightarrow> u64 \<Rightarrow> segment list \<Rightarrow> u64 \<Rightarrow> u8" where
  "program_byte m img segs x =
     fold (\<lambda>s v. if loadable s \<and> in_range (seg_vaddr s) (unat (seg_memsz s)) x
                 then seg_byte m img s x else v) segs 0"

section \<open>Loading one segment\<close>

lemma window_range: "window x \<longleftrightarrow> in_range SNSX_APP_WINDOW_START (unat SNSX_APP_WINDOW_SIZE) x"
  by (auto simp: window_def in_range_nat SNSX_APP_WINDOW_START_def SNSX_APP_WINDOW_SIZE_def)

lemma agrees_refl [simp]: "agrees m m"
  by (simp add: agrees_def)

lemma memory_copy_window:
  assumes "0x400000 \<le> unat d" and "unat d + unat n \<le> 0x800000"
    and "unat src + unat n \<le> 18446744073709551616"
    and "\<And>x. in_range src (unat n) x \<Longrightarrow> \<not> window x"
  shows "memory_copy d src n m x = (if in_range d (unat n) x then m (src + (x - d)) else m x)"
proof (cases "unat n = 0")
  case True
  then show ?thesis by (simp add: memory_copy_def)
next
  case False
  have "apart d (unat n) src (unat n)"
  proof (rule ccontr)
    assume "\<not> apart d (unat n) src (unat n)"
    then have o: "unat src < unat d + unat n" "unat d < unat src + unat n"
      using assms(1-3) by (auto simp: apart_def)
    define y :: u64 where "y = (if unat src \<le> unat d then d else src)"
    have "in_range src (unat n) y" "window y"
      using o assms(1-3) False by (auto simp: y_def in_range_nat window_def)
    with assms(4) show False by blast
  qed
  then show ?thesis by (rule memory_copy_apply)
qed

text \<open>
  Where the image is: it does not wrap and does not meet the window, and the program header
  at \<open>p\<close> lies in it.
\<close>

definition image_clear :: "u64 \<Rightarrow> u64 \<Rightarrow> bool" where
  "image_clear img sz \<longleftrightarrow> unat img + unat sz \<le> 18446744073709551616 \<and>
     (unat img + unat sz \<le> 0x400000 \<or> 0x800000 \<le> unat img)"

lemma image_clear_window:
  assumes "image_clear img sz" and "unat off + n \<le> unat sz" and "in_range (img + off) n x"
  shows "\<not> window x"
proof -
  have "0 < n" using assms(3) by (cases n) simp_all
  then have "unat (img + off) = unat img + unat off"
    using assms(1,2) by (intro unat_add_u64_small) (auto simp: image_clear_def)
  then have "unat img + unat off \<le> unat x" "unat x < unat img + unat off + n"
    using assms by (auto simp: in_range_nat image_clear_def)
  with assms(1,2) show ?thesis by (auto simp: image_clear_def window_def)
qed

lemma segment_at_agrees:
  assumes "agrees m m'" and "\<And>x. in_range p 56 x \<Longrightarrow> \<not> window x"
  shows "segment_at m' p = segment_at m p"
proof -
  have eq: "m' x = m x" if "in_range p 56 x" for x
    using assms that by (simp add: agrees_def)
  have sub: "in_range p 56 x" if "in_range (p + of_nat i) k x" "i + k \<le> 56" for i k x
  proof -
    from that(1) obtain j where "j < k" and x: "x = p + of_nat i + of_nat j" by (rule in_rangeE)
    then have "x = p + of_nat (i + j)" by (simp add: add.assoc)
    with \<open>j < k\<close> that(2) show ?thesis by (simp del: of_nat_add)
  qed
  have "ph_type m' p = ph_type m p"
    unfolding ph_type_def by (rule rd32_cong) (use eq sub [of 0 4] in simp)
  moreover have "ph_offset m' p = ph_offset m p"
    unfolding ph_offset_def by (rule rd64_cong) (use eq sub [of 8 8] in simp)
  moreover have "ph_vaddr m' p = ph_vaddr m p"
    unfolding ph_vaddr_def by (rule rd64_cong) (use eq sub [of 16 8] in simp)
  moreover have "ph_filesz m' p = ph_filesz m p"
    unfolding ph_filesz_def by (rule rd64_cong) (use eq sub [of 32 8] in simp)
  moreover have "ph_memsz m' p = ph_memsz m p"
    unfolding ph_memsz_def by (rule rd64_cong) (use eq sub [of 40 8] in simp)
  ultimately show ?thesis by (simp add: segment_at_def)
qed

lemma segment_fields:
  assumes "segment_at m p = s"
  shows "ph_type m p = seg_type s" "ph_offset m p = seg_offset s" "ph_vaddr m p = seg_vaddr s"
    "ph_filesz m p = seg_filesz s" "ph_memsz m p = seg_memsz s"
  using assms by (auto simp: segment_at_def)

text \<open>The checks of the code, on a sane segment, are \<open>in_place\<close>.\<close>

lemma checks_in_place:
  assumes "sane s"
  shows "\<not> (seg_offset s + seg_filesz s > sz) \<and> \<not> seg_vaddr s < SNSX_APP_WINDOW_START \<and>
      \<not> seg_vaddr s + seg_memsz s > SNSX_APP_WINDOW_START + SNSX_APP_WINDOW_SIZE \<longleftrightarrow> in_place sz s"
proof -
  have "unat (seg_offset s + seg_filesz s) = unat (seg_offset s) + unat (seg_filesz s)"
    "unat (seg_vaddr s + seg_memsz s) = unat (seg_vaddr s) + unat (seg_memsz s)"
    using assms by (auto simp: sane_def intro!: unat_add_u64_small)
  then show ?thesis
    by (auto simp: in_place_def word_less_nat_alt SNSX_APP_WINDOW_START_def SNSX_APP_WINDOW_SIZE_def)
qed

text \<open>
  \<open>place_segment img s m\<close>: what loading one segment does to memory, copy and clear, for a
  segment that passed the checks.
\<close>

definition place_segment :: "u64 \<Rightarrow> segment \<Rightarrow> mem \<Rightarrow> mem" where
  "place_segment img s m =
     (let m1 = memory_copy (seg_vaddr s) (img + seg_offset s) (seg_filesz s) m
      in if seg_memsz s > seg_filesz s
         then memory_set (seg_vaddr s + seg_filesz s) 0 (seg_memsz s - seg_filesz s) m1 else m1)"

lemma in_place_bounds:
  assumes "sane s" and "in_place sz s"
  shows "unat (seg_filesz s) \<le> unat (seg_memsz s)" and "0x400000 \<le> unat (seg_vaddr s)"
    and "unat (seg_vaddr s) + unat (seg_memsz s) \<le> 0x800000"
    and "unat (seg_offset s) + unat (seg_filesz s) \<le> unat sz"
    and "in_range (seg_vaddr s) (unat (seg_memsz s)) x \<Longrightarrow> window x"
  using assms by (auto simp: sane_def in_place_def word_le_nat_alt in_range_nat window_def)

lemma segment_source_clear:
  assumes "image_clear img sz" and "sane s" and "in_place sz s"
    and "in_range (img + seg_offset s) (unat (seg_filesz s)) x"
  shows "\<not> window x"
  by (rule image_clear_window [OF assms(1) in_place_bounds(4) [OF assms(2,3)] assms(4)])

lemma segment_copied:
  assumes clear: "image_clear img sz" and sn: "sane s" and pl: "in_place sz s"
  shows "memory_copy (seg_vaddr s) (img + seg_offset s) (seg_filesz s) m x =
    (if in_range (seg_vaddr s) (unat (seg_filesz s)) x
     then m (img + seg_offset s + (x - seg_vaddr s)) else m x)"
proof (cases "unat (seg_filesz s) = 0")
  case True
  then show ?thesis by (simp add: memory_copy_def)
next
  case False
  note b = in_place_bounds [OF sn pl]
  have "unat (img + seg_offset s) = unat img + unat (seg_offset s)"
    using clear b(4) False by (intro unat_add_u64_small) (auto simp: image_clear_def)
  then have "unat (img + seg_offset s) + unat (seg_filesz s) \<le> 18446744073709551616"
    using clear b(4) by (auto simp: image_clear_def)
  then show ?thesis
    using b(1-3) segment_source_clear [OF clear sn pl] by (intro memory_copy_window) auto
qed

lemma place_segment_apply:
  assumes clear: "image_clear img sz" and sn: "sane s" and pl: "in_place sz s" and ag: "agrees m0 m"
  shows "place_segment img s m x =
    (if in_range (seg_vaddr s) (unat (seg_memsz s)) x then seg_byte m0 img s x else m x)"
proof -
  let ?v = "seg_vaddr s" and ?fs = "seg_filesz s" and ?ms = "seg_memsz s" and ?src = "img + seg_offset s"
  note b = in_place_bounds [OF sn pl]
  have "unat (?ms - ?fs) = unat ?ms - unat ?fs" using sn by (simp add: sane_def unat_sub)
  then have set: "place_segment img s m x =
      (if in_range (?v + ?fs) (unat ?ms - unat ?fs) x then 0
       else if in_range ?v (unat ?fs) x then m (?src + (x - ?v)) else m x)"
    unfolding place_segment_def Let_def using b(1) segment_copied [OF clear sn pl, of m]
    by (cases "?ms > ?fs") (simp_all add: memory_set_apply word_less_nat_alt)
  have "unat (?v + ?fs) = unat ?v + unat ?fs" using b by (intro unat_add_u64_small) simp
  then have r: "in_range ?v (unat ?fs) x \<longleftrightarrow> unat ?v \<le> unat x \<and> unat x < unat ?v + unat ?fs"
    "in_range ?v (unat ?ms) x \<longleftrightarrow> unat ?v \<le> unat x \<and> unat x < unat ?v + unat ?ms"
    "in_range (?v + ?fs) (unat ?ms - unat ?fs) x \<longleftrightarrow>
       unat ?v + unat ?fs \<le> unat x \<and> unat x < unat ?v + unat ?ms"
    using b(1-3) by (auto simp: in_range_nat)
  have d: "in_range ?v (unat ?fs) x \<longleftrightarrow> unat (x - ?v) < unat ?fs" by (simp add: in_range_def)
  show ?thesis
  proof (cases "in_range ?v (unat ?fs) x")
    case True
    then have "in_range ?src (unat ?fs) (?src + (x - ?v))" by (simp add: in_range_def)
    with segment_source_clear [OF clear sn pl] ag have "m (?src + (x - ?v)) = m0 (?src + (x - ?v))"
      by (simp add: agrees_def)
    moreover have "in_range ?v (unat ?ms) x" "\<not> in_range (?v + ?fs) (unat ?ms - unat ?fs) x"
      using True r b(1) by auto
    ultimately show ?thesis using True d by (simp add: set seg_byte_def)
  next
    case False
    with r have "in_range (?v + ?fs) (unat ?ms - unat ?fs) x \<longleftrightarrow> in_range ?v (unat ?ms) x" by auto
    with False d show ?thesis by (simp add: set seg_byte_def)
  qed
qed

lemma load_segment_place:
  assumes ag: "agrees m0 m" and clear: "image_clear img sz"
    and p: "\<And>x. in_range p 56 x \<Longrightarrow> \<not> window x" and s: "s = segment_at m0 p"
    and ld: "loadable s" and sn: "sane s" and pl: "in_place sz s"
  shows "runtime_load_segment img sz p m = Some (place_segment img s m)"
proof -
  let ?m1 = "memory_copy (seg_vaddr s) (img + seg_offset s) (seg_filesz s) m"
  have "segment_at m p = s" using segment_at_agrees [OF ag p] s by simp
  note fm = segment_fields [OF this]
  have "agrees m0 ?m1"
    unfolding agrees_def
  proof (intro allI impI)
    fix x assume x: "\<not> window x"
    then have "\<not> in_range (seg_vaddr s) (unat (seg_filesz s)) x"
      using in_place_bounds(1) [OF sn pl] in_place_bounds(5) [OF sn pl, of x]
      by (auto simp: in_range_def)
    with ag x show "?m1 x = m0 x" by (simp add: segment_copied [OF clear sn pl] agrees_def)
  qed
  then have "segment_at ?m1 p = s" using segment_at_agrees [OF _ p] s by simp
  note fm1 = segment_fields [OF this]
  have "\<not> (seg_offset s + seg_filesz s > sz)" "\<not> seg_vaddr s < SNSX_APP_WINDOW_START"
    "\<not> seg_vaddr s + seg_memsz s > SNSX_APP_WINDOW_START + SNSX_APP_WINDOW_SIZE"
    using checks_in_place [OF sn, of sz] pl by blast+
  with ld fm fm1 show ?thesis
    unfolding runtime_load_segment_def loadable_def by (simp add: Let_def place_segment_def)
qed

lemma load_segment_ok:
  assumes ag: "agrees m0 m" and clear: "image_clear img sz"
    and p: "\<And>x. in_range p 56 x \<Longrightarrow> \<not> window x" and s: "s = segment_at m0 p"
    and sane: "loadable s \<Longrightarrow> sane s" and place: "loadable s \<Longrightarrow> in_place sz s"
  shows "\<exists>m'. runtime_load_segment img sz p m = Some m' \<and> agrees m0 m' \<and>
    (\<forall>x. m' x = (if loadable s \<and> in_range (seg_vaddr s) (unat (seg_memsz s)) x
                 then seg_byte m0 img s x else m x))"
proof (cases "loadable s")
  case False
  have "segment_at m p = s" using segment_at_agrees [OF ag p] s by simp
  from segment_fields [OF this] False ag show ?thesis
    by (auto simp: runtime_load_segment_def loadable_def)
next
  case True
  note sp = sane [OF True] place [OF True]
  note val = place_segment_apply [OF clear sp ag]
  have "agrees m0 (place_segment img s m)"
    using ag in_place_bounds(5) [OF sp] unfolding agrees_def by (auto simp: val)
  with load_segment_place [OF ag clear p s True sp] val True show ?thesis
    by (intro exI [of _ "place_segment img s m"]) simp
qed

lemma load_segment_bad:
  assumes ag: "agrees m0 m" and p: "\<And>x. in_range p 56 x \<Longrightarrow> \<not> window x" and s: "s = segment_at m0 p"
    and "loadable s" and "sane s" and "\<not> in_place sz s"
  shows "runtime_load_segment img sz p m = None"
proof -
  have "segment_at m p = s" using segment_at_agrees [OF ag p] s by simp
  note fm = segment_fields [OF this]
  have "seg_offset s + seg_filesz s > sz \<or> seg_vaddr s < SNSX_APP_WINDOW_START \<or>
      seg_vaddr s + seg_memsz s > SNSX_APP_WINDOW_START + SNSX_APP_WINDOW_SIZE"
    using checks_in_place [OF assms(5), of sz] assms(6) by blast
  with assms(4) show ?thesis
    unfolding runtime_load_segment_def loadable_def by (auto simp: fm)
qed

section \<open>Loading all segments\<close>

definition write_segment :: "mem \<Rightarrow> u64 \<Rightarrow> u64 \<Rightarrow> segment \<Rightarrow> u8 \<Rightarrow> u8" where
  "write_segment m img x s v =
     (if loadable s \<and> in_range (seg_vaddr s) (unat (seg_memsz s)) x then seg_byte m img s x else v)"

lemma program_byte_fold: "program_byte m img segs x = fold (write_segment m img x) segs 0"
  by (simp add: program_byte_def write_segment_def [abs_def])

lemma ucast_index16: "i < 65536 \<Longrightarrow> (ucast (of_nat i :: u16) :: u64) = of_nat i"
  by (simp add: word_unat_eq_iff unsigned_ucast_eq unat_of_nat take_bit_eq_mod)

lemma drop_segments:
  "i < n \<Longrightarrow> drop i (segments m phs n) =
     segment_at m (phs + of_nat (56 * i)) # drop (Suc i) (segments m phs n)"
  using Cons_nth_drop_Suc [of i "segments m phs n"] by (simp add: segments_def)

lemma load_from_spec:
  assumes clear: "image_clear img sz" and num: "\<And>m. agrees m0 m \<Longrightarrow> elf_phnum m h = of_nat n"
    and n: "n < 65536" and phs: "\<And>i x. i < n \<Longrightarrow> in_range (phs + of_nat (56 * i)) 56 x \<Longrightarrow> \<not> window x"
    and sane: "\<forall>s \<in> set (segments m0 phs n). loadable s \<longrightarrow> sane s"
    and "i \<le> n" and "agrees m0 m"
  shows "\<exists>m'. runtime_load_from img sz h phs (of_nat i) m =
      ((\<forall>s \<in> set (drop i (segments m0 phs n)). loadable s \<longrightarrow> in_place sz s), m') \<and> agrees m0 m' \<and>
    ((\<forall>s \<in> set (drop i (segments m0 phs n)). loadable s \<longrightarrow> in_place sz s) \<longrightarrow>
     (\<forall>x. m' x = fold (write_segment m0 img x) (drop i (segments m0 phs n)) (m x)))"
  using assms(6,7)
proof (induction i arbitrary: m rule: inc_induct)
  case base
  have "length (segments m0 phs n) = n" by (simp add: segments_def)
  with base num [OF base] show ?case by (subst runtime_load_from.simps) simp
next
  case (step i)
  let ?p = "phs + of_nat (56 * i)" and ?rest = "drop (Suc i) (segments m0 phs n)"
  define s where "s = segment_at m0 ?p"
  have dr: "drop i (segments m0 phs n) = s # ?rest"
    unfolding s_def using step(2) by (rule drop_segments)
  then have "s \<in> set (segments m0 phs n)" by (metis in_set_dropD list.set_intros(1))
  with sane have sn: "loadable s \<Longrightarrow> sane s" by blast
  have less: "(of_nat i :: u16) < elf_phnum m h"
    using step(2) n by (simp add: num [OF step(4)] word_less_nat_alt unat_of_nat)
  have addr: "phs + ucast (of_nat i :: u16) * sizeof_Elf64ProgramHeader = ?p"
    using step(2) n by (simp add: ucast_index16 sizeof_Elf64ProgramHeader_def)
  note ph = phs [OF step(2)]
  have unfold: "runtime_load_from img sz h phs (of_nat i) m =
      (case runtime_load_segment img sz ?p m of None \<Rightarrow> (False, m)
       | Some m' \<Rightarrow> runtime_load_from img sz h phs (of_nat (Suc i)) m')"
    using less by (subst runtime_load_from.simps) (simp only: addr if_True of_nat_Suc add.commute)
  show ?case
  proof (cases "loadable s \<and> \<not> in_place sz s")
    case True
    with load_segment_bad [OF step(4) ph s_def] sn
    have "runtime_load_segment img sz ?p m = None" by blast
    then have "runtime_load_from img sz h phs (of_nat i) m = (False, m)" by (simp add: unfold)
    with True step(4) dr show ?thesis by auto
  next
    case False
    then have pl: "loadable s \<Longrightarrow> in_place sz s" by blast
    obtain m1 where seg: "runtime_load_segment img sz ?p m = Some m1" and ag: "agrees m0 m1"
      and m1: "\<forall>x. m1 x = write_segment m0 img x s (m x)"
      using load_segment_ok [OF step(4) clear ph s_def sn pl] unfolding write_segment_def by blast
    have r1: "runtime_load_from img sz h phs (of_nat i) m =
        runtime_load_from img sz h phs (of_nat (Suc i)) m1"
      unfolding unfold seg option.case by (rule refl)
    have all: "(\<forall>s \<in> set (drop i (segments m0 phs n)). loadable s \<longrightarrow> in_place sz s) \<longleftrightarrow>
        (\<forall>s \<in> set ?rest. loadable s \<longrightarrow> in_place sz s)" using pl by (auto simp: dr)
    have val: "fold (write_segment m0 img x) (drop i (segments m0 phs n)) (m x) =
        fold (write_segment m0 img x) ?rest (m1 x)" for x by (simp add: dr m1)
    from step(3) [OF ag] show ?thesis unfolding r1 all val .
  qed
qed

lemma header_stable:
  assumes "image_clear img sz" and "64 \<le> unat sz" and "agrees m0 m"
  shows "elf_phnum m img = elf_phnum m0 img" and "elf_phoff m img = elf_phoff m0 img"
    and "elf_entry m img = elf_entry m0 img"
proof -
  have eq: "m x = m0 x" if "in_range (img + of_nat i) k x" "i + k \<le> 64" for i k x
  proof -
    have "unat (of_nat i :: u64) = i" using that(2) by (simp add: unat_of_nat_u64_small)
    then have "\<not> window x"
      using image_clear_window [OF assms(1) _ that(1)] that(2) assms(2) by simp
    with assms(3) show ?thesis by (simp add: agrees_def)
  qed
  show "elf_phnum m img = elf_phnum m0 img"
    unfolding elf_phnum_def by (rule rd16_cong) (use eq [of 56 2] in simp)
  show "elf_phoff m img = elf_phoff m0 img"
    unfolding elf_phoff_def by (rule rd64_cong) (use eq [of 32 8] in simp)
  show "elf_entry m img = elf_entry m0 img"
    unfolding elf_entry_def by (rule rd64_cong) (use eq [of 24 8] in simp)
qed

lemma load_segments_spec:
  assumes clear: "image_clear img sz" and sz: "64 \<le> unat sz"
    and n: "n = unat (elf_phnum m img)" and ph: "unat (elf_phoff m img) + 56 * n \<le> unat sz"
    and sane: "\<forall>s \<in> set (segments m (img + elf_phoff m img) n). loadable s \<longrightarrow> sane s"
  shows "\<exists>m'. runtime_load_segments img sz img m =
      ((\<forall>s \<in> set (segments m (img + elf_phoff m img) n). loadable s \<longrightarrow> in_place sz s), m') \<and>
    agrees m m' \<and>
    ((\<forall>s \<in> set (segments m (img + elf_phoff m img) n). loadable s \<longrightarrow> in_place sz s) \<longrightarrow>
     (\<forall>x. window x \<longrightarrow> m' x = program_byte m img (segments m (img + elf_phoff m img) n) x))"
proof -
  let ?phs = "img + elf_phoff m img"
  let ?segs = "segments m ?phs n"
  define m1 where "m1 = memory_set SNSX_APP_WINDOW_START 0 SNSX_APP_WINDOW_SIZE m"
  have m1: "m1 x = (if window x then 0 else m x)" for x
    by (simp add: m1_def memory_set_apply window_range)
  then have ag: "agrees m m1" by (simp add: agrees_def)
  have n16: "n < 65536" unfolding n by (rule unat_u16_bound)
  have num: "elf_phnum m' img = of_nat n" if "agrees m m'" for m'
    using header_stable(1) [OF clear sz that] by (simp add: n)
  have phs: "\<not> window x" if "i < n" "in_range (?phs + of_nat (56 * i)) 56 x" for i x
  proof -
    have "unat (elf_phoff m img + of_nat (56 * i)) = unat (elf_phoff m img) + 56 * i"
      using that(1) ph unat_u64_bound [of sz] by (intro unat_add_of_nat_u64) linarith
    then have "unat (elf_phoff m img + of_nat (56 * i)) + 56 \<le> unat sz" using that(1) ph by simp
    moreover have "in_range (img + (elf_phoff m img + of_nat (56 * i))) 56 x"
      using that(2) by (simp add: add.assoc)
    ultimately show ?thesis using image_clear_window [OF clear] by blast
  qed
  have "\<exists>m'. runtime_load_from img sz img ?phs (of_nat 0) m1 =
      ((\<forall>s \<in> set (drop 0 ?segs). loadable s \<longrightarrow> in_place sz s), m') \<and> agrees m m' \<and>
      ((\<forall>s \<in> set (drop 0 ?segs). loadable s \<longrightarrow> in_place sz s) \<longrightarrow>
       (\<forall>x. m' x = fold (write_segment m img x) (drop 0 ?segs) (m1 x)))"
    by (rule load_from_spec [OF clear _ n16 _ sane le0 ag]) (use num phs in blast)+
  then obtain m' where
    r: "runtime_load_from img sz img ?phs 0 m1 = ((\<forall>s \<in> set ?segs. loadable s \<longrightarrow> in_place sz s), m')"
    and ag': "agrees m m'"
    and v: "(\<forall>s \<in> set ?segs. loadable s \<longrightarrow> in_place sz s) \<longrightarrow>
      (\<forall>x. m' x = fold (write_segment m img x) ?segs (m1 x))" by auto
  have "runtime_load_segments img sz img m = runtime_load_from img sz img ?phs 0 m1"
    by (simp add: runtime_load_segments_def m1_def Let_def)
  with r ag' v show ?thesis by (intro exI [of _ m']) (simp add: program_byte_fold m1)
qed

lemma validated_headers:
  assumes "runtime_validate_elf img sz m" and "elf_phentsize m img = 56"
    and "unat (elf_phoff m img) + 56 * unat (elf_phnum m img) < 18446744073709551616"
  shows "64 \<le> unat sz" and "unat (elf_phoff m img) + 56 * unat (elf_phnum m img) \<le> unat sz"
proof -
  have v: "\<not> sz < sizeof_Elf64Header \<and>
      \<not> sz < elf_phoff m img + ucast (elf_phentsize m img) * ucast (elf_phnum m img)"
    using assms(1) unfolding runtime_validate_elf_def by meson
  then show "64 \<le> unat sz"
    by (simp add: sizeof_Elf64Header_def word_less_nat_alt not_less)
  from v have ph: "elf_phoff m img + 56 * ucast (elf_phnum m img) \<le> sz"
    by (simp add: assms(2) not_less)
  let ?n = "unat (elf_phnum m img)"
  have c: "unat (ucast (elf_phnum m img) :: u64) = ?n"
    using unat_u16_bound [of "elf_phnum m img"] by (simp add: unsigned_ucast_eq take_bit_eq_mod)
  then have m56: "unat (56 * ucast (elf_phnum m img) :: u64) = 56 * ?n"
    using unat_u16_bound [of "elf_phnum m img"] by (simp add: unat_word_ariths)
  have "unat (elf_phoff m img + 56 * ucast (elf_phnum m img)) = unat (elf_phoff m img) + 56 * ?n"
    using assms(3) m56 by (subst unat_add_u64_small) simp_all
  with ph show "unat (elf_phoff m img) + 56 * ?n \<le> unat sz" by (simp add: word_le_nat_alt)
qed

text \<open>
  What the validation looks for, as a property of the file's bytes: the identification of a
  64-bit little-endian ELF executable for x86-64, and where its program header table ends.
\<close>

definition elf_head :: "bytes \<Rightarrow> bool" where
  "elf_head bs \<longleftrightarrow> 64 \<le> length bs \<and> take 4 bs = [0x7F, 0x45, 0x4C, 0x46] \<and> bs ! 4 = 2 \<and> bs ! 5 = 1 \<and>
     le_value (take 2 (drop 16 bs)) = 2 \<and> le_value (take 2 (drop 18 bs)) = 62"

definition table_end :: "bytes \<Rightarrow> nat" where
  "table_end bs = le_value (take 8 (drop 32 bs)) +
     le_value (take 2 (drop 54 bs)) * le_value (take 2 (drop 56 bs))"

lemma validated_bytes:
  assumes "runtime_validate_elf img sz m"
  defines "bs \<equiv> read_bytes m img (unat sz)"
  shows "elf_head bs" and "table_end bs < 18446744073709551616 \<Longrightarrow> table_end bs \<le> length bs"
proof -
  have "\<not> sz < 64 \<and> elf_magic m img = 0x464C457F \<and> elf_class_id m img = 2 \<and>
      elf_data_encoding m img = 1 \<and> elf_type m img = 2 \<and> elf_machine m img = 62 \<and>
      \<not> sz < elf_phoff m img + ucast (elf_phentsize m img) * ucast (elf_phnum m img)"
    using assms(1) unfolding runtime_validate_elf_def sizeof_Elf64Header_def ELF_MAGIC_def
      ELF_CLASS_64_def ELF_DATA_LITTLE_def ELF_TYPE_EXEC_def ELF_MACHINE_X86_64_def by meson
  then have v: "\<not> sz < 64" "elf_magic m img = 0x464C457F" "elf_class_id m img = 2" "elf_data_encoding m img = 1"
    "elf_type m img = 2" "elf_machine m img = 62"
    "\<not> sz < elf_phoff m img + ucast (elf_phentsize m img) * ucast (elf_phnum m img)" by blast+
  have len: "64 \<le> length bs" using v(1) by (simp add: bs_def word_less_nat_alt not_less)
  have sub: "take j (drop i bs) = read_bytes m (img + of_nat i) j" if "i + j \<le> 64" for i j
    using read_bytes_sub [of i j "unat sz" m img] that len by (simp add: bs_def)
  have "le_value (take 4 bs) = unat (elf_magic m img)"
    using sub [of 0 4] by (simp add: elf_magic_def unat_rd)
  then have magic: "take 4 bs = le_bytes 4 0x464C457F"
    using le_bytes_le_value [of "take 4 bs" 4] len v(2) by simp
  have four: "(4 :: nat) = Suc (Suc (Suc (Suc 0)))" by simp
  have id: "le_bytes 4 0x464C457F = [0x7F, 0x45, 0x4C, 0x46]" unfolding four by simp
  have at: "bs ! i = m (img + of_nat i)" if "i < 64" for i
    using that len by (simp add: bs_def nth_read_bytes)
  have fields: "le_value (take 2 (drop 16 bs)) = unat (elf_type m img)"
    "le_value (take 2 (drop 18 bs)) = unat (elf_machine m img)"
    "le_value (take 8 (drop 32 bs)) = unat (elf_phoff m img)"
    "le_value (take 2 (drop 54 bs)) = unat (elf_phentsize m img)"
    "le_value (take 2 (drop 56 bs)) = unat (elf_phnum m img)"
    by (simp_all add: sub elf_type_def elf_machine_def elf_phoff_def elf_phentsize_def elf_phnum_def unat_rd)
  have "bs ! 4 = 2" "bs ! 5 = 1"
    using at [of 4] at [of 5] v(3,4) by (simp_all add: elf_class_id_def elf_data_encoding_def)
  then show "elf_head bs"
    using len magic fields(1,2) v(5,6) by (simp add: elf_head_def id)
  assume no_wrap: "table_end bs < 18446744073709551616"
  let ?e = "elf_phentsize m img" and ?n = "elf_phnum m img"
  have c: "unat (ucast x :: u64) = unat x" for x :: u16
    using unat_u16_bound [of x] by (simp add: unsigned_ucast_eq take_bit_eq_mod)
  have te: "table_end bs = unat (elf_phoff m img) + unat ?e * unat ?n"
    by (simp only: table_end_def fields)
  then have "unat (ucast ?e * ucast ?n :: u64) = unat ?e * unat ?n"
    using no_wrap by (simp add: unat_word_ariths c)
  then have "unat (elf_phoff m img + ucast ?e * ucast ?n) = table_end bs"
    using no_wrap te by (subst unat_add_u64_small) simp_all
  then show "table_end bs \<le> length bs" using v(7) by (simp add: word_less_nat_alt not_less bs_def)
qed

lemma load_valid_spec:
  assumes "runtime_validate_elf img sz m" and "image_clear img sz"
    and "elf_phentsize m img = 56" and n: "n = unat (elf_phnum m img)"
    and "unat (elf_phoff m img) + 56 * n < 18446744073709551616"
    and segs: "segs = segments m (img + elf_phoff m img) n"
    and sane: "\<forall>s \<in> set segs. loadable s \<longrightarrow> sane s"
    and res: "runtime_load_segments img sz img m = (ok, m')"
  shows "(ok \<longleftrightarrow> (\<forall>s \<in> set segs. loadable s \<longrightarrow> in_place sz s)) \<and>
    (\<forall>x. \<not> window x \<longrightarrow> m' x = m x) \<and>
    (ok \<longrightarrow> (\<forall>x. window x \<longrightarrow> m' x = program_byte m img segs x))"
proof -
  have "unat (elf_phoff m img) + 56 * unat (elf_phnum m img) < 18446744073709551616"
    using assms(5) n by simp
  from validated_headers [OF assms(1,3) this] n have "64 \<le> unat sz"
    "unat (elf_phoff m img) + 56 * n \<le> unat sz" by simp_all
  from load_segments_spec [OF assms(2) this(1) n this(2)] sane res show ?thesis
    unfolding segs agrees_def by auto
qed

section \<open>Properties\<close>

text \<open>
  C4 (elf_load_correct): for a validated image that lies outside the application window, with
  program headers of the ELF64 size and sane loadable segments (no wrap-around, no larger in
  the file than in memory), loading succeeds exactly when every loadable segment is inside
  the file and inside the window. No byte outside the window changes in either case, and on
  success every byte of the window is the byte of the program: the file's bytes of the last
  segment that covers it, 0 in its tail, and 0 where no segment is.
\<close>

theorem elf_load_correct:
  assumes "runtime_validate_elf img sz m" and "image_clear img sz"
    and "elf_phentsize m img = 56" and n: "n = unat (elf_phnum m img)"
    and "unat (elf_phoff m img) + 56 * n < 18446744073709551616"
    and segs: "segs = segments m (img + elf_phoff m img) n"
    and sane: "\<forall>s \<in> set segs. loadable s \<longrightarrow> sane s"
    and res: "runtime_load_segments img sz img m = (ok, m')"
  shows "(ok \<longleftrightarrow> (\<forall>s \<in> set segs. loadable s \<longrightarrow> in_place sz s)) \<and>
    (\<forall>x. \<not> window x \<longrightarrow> m' x = m x) \<and>
    (ok \<longrightarrow> (\<forall>x. window x \<longrightarrow> m' x = program_byte m img segs x))"
  using load_valid_spec [OF assms] .

text \<open>A small executable: one segment of four bytes in the file and six in memory.\<close>

definition demo_elf :: bytes where
  "demo_elf = le_bytes 4 0x464C457F @ [2, 1, 1, 0, 0] @ replicate 7 0 @ le_bytes 2 2 @ le_bytes 2 62 @
     le_bytes 4 1 @ le_bytes 8 0x400000 @ le_bytes 8 64 @ le_bytes 8 0 @ le_bytes 4 0 @ le_bytes 2 64 @
     le_bytes 2 56 @ le_bytes 2 1 @ le_bytes 2 0 @ le_bytes 2 0 @ le_bytes 2 0 @
     le_bytes 4 1 @ le_bytes 4 5 @ le_bytes 8 120 @ le_bytes 8 0x400000 @ le_bytes 8 0x400000 @
     le_bytes 8 4 @ le_bytes 8 6 @ le_bytes 8 4096 @ [0x90, 0x90, 0x31, 0xC3]"

definition demo_ram :: mem where
  "demo_ram = write_bytes (\<lambda>_. 0) 0x900000 demo_elf"

lemma demo_elf_length: "length demo_elf = 124"
  by (simp add: demo_elf_def)

lemma demo_ram_bytes: "read_bytes demo_ram 0x900000 (length demo_elf) = demo_elf"
  using read_write_same [of demo_elf "\<lambda>_. 0" "0x900000"] by (simp add: demo_ram_def demo_elf_length)

lemma demo_fields:
  "of_nat (le_value (take 4 (drop 0 demo_elf))) = (0x464C457F :: u32)"
  "demo_elf ! 4 = 2" "demo_elf ! 5 = 1" "demo_elf ! 122 = 0x31"
  "of_nat (le_value (take 2 (drop 16 demo_elf))) = (2 :: u16)"
  "of_nat (le_value (take 2 (drop 18 demo_elf))) = (62 :: u16)"
  "of_nat (le_value (take 8 (drop 24 demo_elf))) = (0x400000 :: u64)"
  "of_nat (le_value (take 8 (drop 32 demo_elf))) = (64 :: u64)"
  "of_nat (le_value (take 2 (drop 54 demo_elf))) = (56 :: u16)"
  "of_nat (le_value (take 2 (drop 56 demo_elf))) = (1 :: u16)"
  "of_nat (le_value (take 4 (drop 64 demo_elf))) = (1 :: u32)"
  "of_nat (le_value (take 8 (drop 72 demo_elf))) = (120 :: u64)"
  "of_nat (le_value (take 8 (drop 80 demo_elf))) = (0x400000 :: u64)"
  "of_nat (le_value (take 8 (drop 96 demo_elf))) = (4 :: u64)"
  "of_nat (le_value (take 8 (drop 104 demo_elf))) = (6 :: u64)"
  by (simp_all add: demo_elf_def nth_append le_value_le_bytes)

lemma demo_header:
  "elf_magic demo_ram 0x900000 = ELF_MAGIC" "elf_class_id demo_ram 0x900000 = 2"
  "elf_data_encoding demo_ram 0x900000 = 1" "elf_type demo_ram 0x900000 = 2"
  "elf_machine demo_ram 0x900000 = 62" "elf_entry demo_ram 0x900000 = 0x400000"
  "elf_phoff demo_ram 0x900000 = 64" "elf_phentsize demo_ram 0x900000 = 56"
  "elf_phnum demo_ram 0x900000 = 1"
  "segment_at demo_ram 0x900040 = \<lparr>seg_type = 1, seg_offset = 120, seg_vaddr = 0x400000,
     seg_filesz = 4, seg_memsz = 6\<rparr>"
proof -
  note r = rd_slice [OF demo_ram_bytes, unfolded demo_elf_length]
  note f = demo_fields
  show "elf_magic demo_ram 0x900000 = ELF_MAGIC"
    using r(2) [of 0] f by (simp add: elf_magic_def ELF_MAGIC_def)
  show "elf_class_id demo_ram 0x900000 = 2" "elf_data_encoding demo_ram 0x900000 = 1"
    using r(4) [of 4] r(4) [of 5] f by (simp_all add: elf_class_id_def elf_data_encoding_def)
  show "elf_type demo_ram 0x900000 = 2" "elf_machine demo_ram 0x900000 = 62"
    using r(1) [of 16] r(1) [of 18] f by (simp_all add: elf_type_def elf_machine_def)
  show "elf_entry demo_ram 0x900000 = 0x400000" "elf_phoff demo_ram 0x900000 = 64"
    using r(3) [of 24] r(3) [of 32] f by (simp_all add: elf_entry_def elf_phoff_def)
  show "elf_phentsize demo_ram 0x900000 = 56" "elf_phnum demo_ram 0x900000 = 1"
    using r(1) [of 54] r(1) [of 56] f by (simp_all add: elf_phentsize_def elf_phnum_def)
  show "segment_at demo_ram 0x900040 = \<lparr>seg_type = 1, seg_offset = 120, seg_vaddr = 0x400000,
     seg_filesz = 4, seg_memsz = 6\<rparr>"
    using r(2) [of 64] r(3) [of 72] r(3) [of 80] r(3) [of 96] r(3) [of 104] f
    by (simp add: segment_at_def ph_type_def ph_offset_def ph_vaddr_def ph_filesz_def ph_memsz_def)
qed

lemma demo_valid: "runtime_validate_elf 0x900000 124 demo_ram"
  by (simp add: runtime_validate_elf_def demo_header sizeof_Elf64Header_def ELF_CLASS_64_def
      ELF_DATA_LITTLE_def ELF_TYPE_EXEC_def ELF_MACHINE_X86_64_def)

lemma demo_segments:
  "segments demo_ram (0x900000 + elf_phoff demo_ram 0x900000) 1 =
     [\<lparr>seg_type = 1, seg_offset = 120, seg_vaddr = 0x400000, seg_filesz = 4, seg_memsz = 6\<rparr>]"
  by (simp add: segments_def demo_header)

lemma elf_load_correct_witness:
  "fst (runtime_load_segments 0x900000 124 0x900000 demo_ram) \<and>
   snd (runtime_load_segments 0x900000 124 0x900000 demo_ram) 0x400002 = 0x31"
proof -
  obtain ok m' where res: "runtime_load_segments 0x900000 124 0x900000 demo_ram = (ok, m')" by fastforce
  have clear: "image_clear 0x900000 124" by (simp add: image_clear_def)
  have n: "1 = unat (elf_phnum demo_ram 0x900000)" by (simp add: demo_header)
  from elf_load_correct [OF demo_valid clear demo_header(8) n _ refl _ res] demo_segments
  have ok: "ok" and val: "window x \<Longrightarrow> m' x = program_byte demo_ram 0x900000
      [\<lparr>seg_type = 1, seg_offset = 120, seg_vaddr = 0x400000, seg_filesz = 4, seg_memsz = 6\<rparr>] x" for x
    by (auto simp: demo_header sane_def in_place_def)
  have "demo_ram (0x900000 + of_nat 122) = demo_elf ! 122"
    using rd_slice(4) [OF demo_ram_bytes, of 122] by (simp add: demo_elf_length)
  moreover have "demo_elf ! 122 = 0x31" by (rule demo_fields)
  ultimately have "m' 0x400002 = 0x31"
    using val [of "0x400002"]
    by (simp add: window_def program_byte_def loadable_def ELF_PT_LOAD_def in_range_def seg_byte_def)
  with ok res show ?thesis by simp
qed

text \<open>
  C38 (elf_file_size_escapes_window): the bounds checks do not compare the file size of a
  segment with its memory size. A segment whose memory part ends in the window but whose file
  part is longer is accepted, and the copy runs past the end of the window: the byte right
  after the window becomes a byte of the file. (The segment's bytes in the image, and its
  program header, lie outside the \<open>filesz\<close> bytes that the copy writes.)
\<close>

theorem elf_file_size_escapes_window:
  assumes s: "segment_at m p = s" and "loadable s"
    and "unat (seg_offset s) + unat (seg_filesz s) \<le> unat sz"
    and "0x400000 \<le> unat (seg_vaddr s)" and "unat (seg_vaddr s) + unat (seg_memsz s) \<le> 0x800000"
    and long: "0x800000 < unat (seg_vaddr s) + unat (seg_filesz s)"
    and ap: "apart (seg_vaddr s) (unat (seg_filesz s)) (img + seg_offset s) (unat (seg_filesz s))"
    and hd: "apart (seg_vaddr s) (unat (seg_filesz s)) p 56"
  shows "\<exists>m'. runtime_load_segment img sz p m = Some m' \<and>
    m' 0x800000 = m (img + seg_offset s + (0x800000 - seg_vaddr s)) \<and> \<not> window 0x800000"
proof -
  note fm = segment_fields [OF s]
  let ?v = "seg_vaddr s" and ?fs = "seg_filesz s"
  define m1 where "m1 = memory_copy ?v (img + seg_offset s) ?fs m"
  have m1: "m1 x = (if in_range ?v (unat ?fs) x then m (img + seg_offset s + (x - ?v)) else m x)" for x
    unfolding m1_def by (rule memory_copy_apply [OF ap])
  have less: "unat (seg_memsz s) < unat ?fs" using assms(5) long by simp
  have same: "m1 x = m x" if "in_range p 56 x" for x
    using apart_no_common [OF hd] that by (auto simp: m1)
  have sub: "in_range p 56 x" if "in_range (p + of_nat i) 8 x" "i + 8 \<le> 56" for i x
  proof -
    from that(1) obtain j where "j < 8" and x: "x = p + of_nat i + of_nat j" by (rule in_rangeE)
    then have "x = p + of_nat (i + j)" by (simp add: add.assoc)
    with \<open>j < 8\<close> that(2) show ?thesis by (simp del: of_nat_add)
  qed
  have "ph_filesz m1 p = ?fs" "ph_memsz m1 p = seg_memsz s"
    using rd64_cong [of "p + 32" m1 m] rd64_cong [of "p + 40" m1 m] same sub [of 32] sub [of 40] fm
    by (simp_all add: ph_filesz_def ph_memsz_def)
  then have "\<not> ph_memsz m1 p > ph_filesz m1 p" using less by (simp add: word_less_nat_alt)
  moreover have "unat (seg_offset s + ?fs) \<le> unat sz"
  proof -
    have "unat (seg_offset s + ?fs) = unat (seg_offset s) + unat ?fs"
      using assms(3) unat_u64_bound [of sz] by (intro unat_add_u64_small) linarith
    with assms(3) show ?thesis by simp
  qed
  moreover have "unat (?v + seg_memsz s) = unat ?v + unat (seg_memsz s)"
    using assms(5) by (intro unat_add_u64_small) simp
  ultimately have res: "runtime_load_segment img sz p m = Some m1"
    using assms(2,4,5) fm
    unfolding runtime_load_segment_def loadable_def
    by (simp add: Let_def word_less_nat_alt SNSX_APP_WINDOW_START_def SNSX_APP_WINDOW_SIZE_def
        flip: m1_def)
  have "in_range ?v (unat ?fs) 0x800000"
    using assms(5) long ap by (auto simp: in_range_nat apart_def)
  then show ?thesis using res by (simp add: m1 window_def)
qed

text \<open>A program header of a one-byte segment at the last byte of the window, two bytes in the file.\<close>

definition long_segment :: bytes where
  "long_segment = le_bytes 4 1 @ le_bytes 4 5 @ le_bytes 8 56 @ le_bytes 8 0x7FFFFF @ le_bytes 8 0 @
     le_bytes 8 2 @ le_bytes 8 1 @ le_bytes 8 4096 @ [0xAA, 0xBB]"

definition long_ram :: mem where
  "long_ram = write_bytes (\<lambda>_. 0) 0x900000 long_segment"

lemma long_segment_length: "length long_segment = 58"
  by (simp add: long_segment_def)

lemma long_ram_bytes: "read_bytes long_ram 0x900000 (length long_segment) = long_segment"
  using read_write_same [of long_segment "\<lambda>_. 0" "0x900000"]
  by (simp add: long_ram_def long_segment_length)

lemma long_fields:
  "of_nat (le_value (take 4 (drop 0 long_segment))) = (1 :: u32)"
  "of_nat (le_value (take 8 (drop 8 long_segment))) = (56 :: u64)"
  "of_nat (le_value (take 8 (drop 16 long_segment))) = (0x7FFFFF :: u64)"
  "of_nat (le_value (take 8 (drop 32 long_segment))) = (2 :: u64)"
  "of_nat (le_value (take 8 (drop 40 long_segment))) = (1 :: u64)"
  "long_segment ! 57 = 0xBB"
  by (simp_all add: long_segment_def nth_append le_value_le_bytes)

lemma long_segment_at:
  "segment_at long_ram 0x900000 = \<lparr>seg_type = 1, seg_offset = 56, seg_vaddr = 0x7FFFFF,
     seg_filesz = 2, seg_memsz = 1\<rparr>"
proof -
  note r = rd_slice [OF long_ram_bytes, unfolded long_segment_length]
  show ?thesis
    using r(2) [of 0] r(3) [of 8] r(3) [of 16] r(3) [of 32] r(3) [of 40] long_fields
    by (simp add: segment_at_def ph_type_def ph_offset_def ph_vaddr_def ph_filesz_def ph_memsz_def)
qed

lemma elf_file_size_escapes_window_witness:
  "\<exists>m'. runtime_load_segment 0x900000 58 0x900000 long_ram = Some m' \<and> m' 0x800000 = 0xBB"
proof -
  have "\<exists>m'. runtime_load_segment 0x900000 58 0x900000 long_ram = Some m' \<and>
      m' 0x800000 = long_ram (0x900000 + 56 + (0x800000 - 0x7FFFFF)) \<and> \<not> window 0x800000"
    using elf_file_size_escapes_window [OF long_segment_at, of 58 "0x900000"]
    by (simp add: loadable_def ELF_PT_LOAD_def apart_def)
  moreover have "long_ram 0x900039 = 0xBB"
    using rd_slice(4) [OF long_ram_bytes, of 57] by (simp add: long_segment_length long_fields)
  ultimately show ?thesis by auto
qed

end
