(* ===== verification/Kernel_State.thy ===== *)
theory Kernel_State
  imports Elf_Loader Serial Terminal_Console Pit Keyboard Idt Pic Memory_Init
begin

text \<open>
  The static variables of the kernel's modules put together, for the modules that call
  several others (kernel/src/runtime.c, shell.c and main.c). The port history, memory, the
  page allocator and the volume are the components of \<open>storage\<close>. A step that may not return
  (the serial port never ready, a string with no end) is a function to \<open>kernel option\<close>.
\<close>

record kernel =
  screen :: terminal
  clock :: pit
  keys :: keyboard
  store :: storage
  idt_table :: "idt_entry list"
  interrupts_on :: bool
  runtime_ready :: bool
  last_exit_code :: u32

definition put_screen :: "(terminal \<Rightarrow> terminal) \<Rightarrow> kernel \<Rightarrow> kernel" where
  "put_screen f k = k\<lparr>screen := f (screen k)\<rparr>"

definition set_ports :: "history \<Rightarrow> kernel \<Rightarrow> kernel" where
  "set_ports tr k = k\<lparr>store := (store k)\<lparr>ports := tr\<rparr>\<rparr>"

definition set_ram :: "mem \<Rightarrow> kernel \<Rightarrow> kernel" where
  "set_ram m k = k\<lparr>store := (store k)\<lparr>ram := m\<rparr>\<rparr>"

abbreviation kports :: "kernel \<Rightarrow> history" where "kports k \<equiv> ports (store k)"
abbreviation kram :: "kernel \<Rightarrow> mem" where "kram k \<equiv> ram (store k)"
abbreviation kvol :: "kernel \<Rightarrow> appfs" where "kvol k \<equiv> volume (store k)"

definition serial_act :: "(history \<Rightarrow> history option) \<Rightarrow> kernel \<Rightarrow> kernel option" where
  "serial_act f k = map_option (\<lambda>tr. set_ports tr k) (f (kports k))"

text \<open>
  A \<open>const char *\<close> argument: a literal of the caller, or an address of memory. \<open>c_text\<close> is
  the string a reader of the pointer gets, up to the NUL.
\<close>

datatype text_ref = Literal bytes | At u64

fun text_at :: "text_ref \<Rightarrow> mem \<Rightarrow> cptr" where
  "text_at (Literal s) m = lit s"
| "text_at (At a) m = ptr_at m a"

definition c_text :: "cptr \<Rightarrow> bytes option" where
  "c_text p = do { n \<leftarrow> string_length p; Some (map (\<lambda>i. p (of_nat i)) [0..<unat n]) }"

lemma is_cstr_length:
  assumes "is_cstr v s"
  shows "length s < 18446744073709551616"
proof (rule ccontr)
  let ?j = "length s mod 18446744073709551616"
  assume "\<not> length s < 18446744073709551616"
  then have "?j < length s" by (meson less_le_trans mod_less_divisor not_less zero_less_numeral)
  moreover have "(of_nat ?j :: u64) = of_nat (length s)" by (rule of_nat_mod_pow64)
  ultimately show False using is_cstr_nth [OF assms, of ?j] is_cstr_end [OF assms] by simp
qed

lemma c_text_cstr: "is_cstr p s \<Longrightarrow> c_text p = Some s"
  using is_cstr_nth [of p s] is_cstr_length [of p s]
  by (auto simp: c_text_def string_length_cstr unat_of_nat_u64_small intro!: nth_equalityI)

lemma c_text_Literal: "0 \<notin> set s \<Longrightarrow> length s < 18446744073709551616 \<Longrightarrow> c_text (lit s) = Some s"
  by (intro c_text_cstr is_cstr_lit)

section \<open>Steps that only print\<close>

text \<open>
  \<open>emits scr ser k k'\<close>: from \<open>k\<close> to \<open>k'\<close> the text \<open>scr\<close> was written on the terminal and the
  bytes \<open>ser\<close> were sent to the serial port; nothing else changed but the port history, which
  grew by accesses to the serial port only.
\<close>

definition emits :: "bytes \<Rightarrow> bytes \<Rightarrow> kernel \<Rightarrow> kernel \<Rightarrow> bool" where
  "emits scr ser k k' \<longleftrightarrow> (\<exists>tr. k' = set_ports tr (put_screen (terminal_write scr) k) \<and>
     uart_only (kports k) tr \<and> out_bytes COM1_PORT tr = out_bytes COM1_PORT (kports k) @ ser)"

lemma kernel_lens [simp]:
  "screen (set_ports tr k) = screen k" "screen (put_screen f k) = f (screen k)"
  "store (put_screen f k) = store k" "kports (set_ports tr k) = tr" "kram (set_ports tr k) = kram k"
  "kvol (set_ports tr k) = kvol k" "pages (store (set_ports tr k)) = pages (store k)"
  "runtime_ready (set_ports tr k) = runtime_ready k" "runtime_ready (put_screen f k) = runtime_ready k"
  "clock (set_ports tr k) = clock k" "clock (put_screen f k) = clock k"
  "keys (set_ports tr k) = keys k" "keys (put_screen f k) = keys k"
  "last_exit_code (set_ports tr k) = last_exit_code k" "last_exit_code (put_screen f k) = last_exit_code k"
  "idt_table (set_ports tr k) = idt_table k" "idt_table (put_screen f k) = idt_table k"
  "interrupts_on (set_ports tr k) = interrupts_on k" "interrupts_on (put_screen f k) = interrupts_on k"
  "driver_ready (store (set_ports tr k)) = driver_ready (store k)"
  "set_ports tr (set_ports tr' k) = set_ports tr k" "set_ports (kports k) k = k"
  by (simp_all add: set_ports_def put_screen_def)

lemma kernel_lens_ram [simp]:
  "screen (set_ram m k) = screen k" "kports (set_ram m k) = kports k" "kram (set_ram m k) = m"
  "kvol (set_ram m k) = kvol k" "pages (store (set_ram m k)) = pages (store k)"
  "runtime_ready (set_ram m k) = runtime_ready k" "clock (set_ram m k) = clock k"
  "keys (set_ram m k) = keys k" "last_exit_code (set_ram m k) = last_exit_code k"
  "idt_table (set_ram m k) = idt_table k" "interrupts_on (set_ram m k) = interrupts_on k"
  by (simp_all add: set_ram_def)

lemma put_screen_ports: "put_screen f (set_ports tr k) = set_ports tr (put_screen f k)"
  by (simp add: put_screen_def set_ports_def)

lemma put_screen_twice: "put_screen f (put_screen g k) = put_screen (\<lambda>t. f (g t)) k"
  by (simp add: put_screen_def)

lemma emits_refl [simp]: "emits [] [] k k"
  by (auto simp: emits_def put_screen_def terminal_write_def intro!: exI [of _ "kports k"])

lemma emits_trans [trans]:
  assumes "emits a b k k1" and "emits c d k1 k2"
  shows "emits (a @ c) (b @ d) k k2"
proof -
  have w: "terminal_write (a @ c) = (\<lambda>t. terminal_write c (terminal_write a t))"
    by (rule ext) (rule terminal_write_append)
  obtain tr1 where 1: "k1 = set_ports tr1 (put_screen (terminal_write a) k)"
    "uart_only (kports k) tr1" "out_bytes COM1_PORT tr1 = out_bytes COM1_PORT (kports k) @ b"
    using assms(1) by (auto simp: emits_def)
  obtain tr2 where 2: "k2 = set_ports tr2 (put_screen (terminal_write c) k1)"
    "uart_only (kports k1) tr2" "out_bytes COM1_PORT tr2 = out_bytes COM1_PORT (kports k1) @ d"
    using assms(2) by (auto simp: emits_def)
  have "uart_only (kports k) tr2" using only_ports_trans [OF 1(2), of tr2] 1(1) 2(2) by simp
  moreover have "k2 = set_ports tr2 (put_screen (terminal_write (a @ c)) k)"
    unfolding w 2(1) 1(1) by (simp add: put_screen_ports put_screen_twice)
  ultimately show ?thesis unfolding emits_def using 1 2(3) by (intro exI [of _ tr2]) simp
qed

lemma emits_screen: "emits s [] k (put_screen (terminal_write s) k)"
  unfolding emits_def by (intro exI [of _ "kports k"]) (simp add: put_screen_def set_ports_def)

lemma emits_serial:
  assumes "sends dev f s"
  obtains k' where "serial_act f k = Some k'" and "emits [] s k k'"
proof -
  obtain tr where "f (kports k) = Some tr" "uart_only (kports k) tr"
    "out_bytes COM1_PORT tr = out_bytes COM1_PORT (kports k) @ s"
    using assms unfolding sends_def by blast
  moreover have "put_screen (terminal_write []) k = k" by (simp add: put_screen_def terminal_write_def)
  ultimately show thesis
    by (intro that [of "set_ports tr k"]) (auto simp: serial_act_def emits_def)
qed

lemma emits_keeps:
  assumes "emits a b k k'"
  shows "screen k' = terminal_write a (screen k)" "clock k' = clock k" "keys k' = keys k"
    "kram k' = kram k" "kvol k' = kvol k" "pages (store k') = pages (store k)"
    "idt_table k' = idt_table k" "interrupts_on k' = interrupts_on k"
    "runtime_ready k' = runtime_ready k" "last_exit_code k' = last_exit_code k"
    "out_bytes COM1_PORT (kports k') = out_bytes COM1_PORT (kports k) @ b"
  using assms by (auto simp: emits_def)

lemma emits_uart: "emits a b k k' \<Longrightarrow> uart_only (kports k) (kports k')"
  by (auto simp: emits_def)

text \<open>
  \<open>prints act k scr ser\<close>: in the state \<open>k\<close> the step returns and emits these two texts. A
  sequence of printing steps prints the concatenation.
\<close>

definition prints :: "(kernel \<Rightarrow> kernel option) \<Rightarrow> kernel \<Rightarrow> bytes \<Rightarrow> bytes \<Rightarrow> bool" where
  "prints act k scr ser \<longleftrightarrow> (\<exists>k'. act k = Some k' \<and> emits scr ser k k')"

lemma prints_serial: "sends dev f s \<Longrightarrow> prints (serial_act f) k [] s"
  unfolding prints_def by (rule emits_serial) auto

lemma prints_screen: "prints (\<lambda>k. Some (put_screen (terminal_write s) k)) k s []"
  by (simp add: prints_def emits_screen)

lemma prints_screen_then:
  assumes "prints act (put_screen (terminal_write s) k) a b"
  shows "prints (\<lambda>k. act (put_screen (terminal_write s) k)) k (s @ a) b"
  using assms emits_trans [OF emits_screen [of s k]] by (fastforce simp: prints_def)

lemma prints_then:
  assumes "prints f k a b" and "\<And>k'. emits a b k k' \<Longrightarrow> prints g k' c d"
  shows "prints (\<lambda>k. Option.bind (f k) g) k (a @ c) (b @ d)"
  using assms emits_trans unfolding prints_def by fastforce

lemma prints_return: "prints Some k [] []"
  by (simp add: prints_def)

end
