(* ===== verification/Program_Image.thy ===== *)
theory Program_Image
  imports Elf_Loader
begin

text \<open>
  An executable as a whole (for kernel/src/runtime.c): when the loader accepts an image, and
  that what it loads depends only on the bytes of the file, not on where in memory they are.
\<close>

text \<open>
  \<open>loads_as m img sz segs\<close>: a valid image outside the window whose loadable segments
  \<open>segs\<close> all fit.
\<close>

definition loads_as :: "mem \<Rightarrow> u64 \<Rightarrow> u64 \<Rightarrow> segment list \<Rightarrow> bool" where
  "loads_as m img sz segs \<longleftrightarrow>
     runtime_validate_elf img sz m \<and> image_clear img sz \<and> elf_phentsize m img = 56 \<and>
     unat (elf_phoff m img) + 56 * unat (elf_phnum m img) < 18446744073709551616 \<and>
     segs = segments m (img + elf_phoff m img) (unat (elf_phnum m img)) \<and>
     (\<forall>s \<in> set segs. loadable s \<longrightarrow> sane s \<and> in_place sz s)"

lemma load_runnable:
  assumes "loads_as m img sz segs"
  obtains m' where "runtime_load_segments img sz img m = (True, m')" and "agrees m m'"
    and "\<And>x. window x \<Longrightarrow> m' x = program_byte m img segs x"
    and "elf_entry m' img = elf_entry m img"
proof -
  obtain ok m' where r: "runtime_load_segments img sz img m = (ok, m')" by fastforce
  have l: "runtime_validate_elf img sz m" "image_clear img sz" "elf_phentsize m img = 56"
    "unat (elf_phoff m img) + 56 * unat (elf_phnum m img) < 18446744073709551616"
    "segs = segments m (img + elf_phoff m img) (unat (elf_phnum m img))"
    "\<forall>s \<in> set segs. loadable s \<longrightarrow> sane s" "\<forall>s \<in> set segs. loadable s \<longrightarrow> in_place sz s"
    using assms by (auto simp: loads_as_def)
  from load_valid_spec [OF l(1-3) refl l(4-6) r] l(7)
  have "ok" "agrees m m'" "\<And>x. window x \<Longrightarrow> m' x = program_byte m img segs x"
    by (simp_all add: agrees_def)
  moreover have "64 \<le> unat sz"
    using l(1) by (simp add: runtime_validate_elf_def sizeof_Elf64Header_def word_less_nat_alt
        split: if_splits)
  from header_stable(3) [OF l(2) this \<open>agrees m m'\<close>] have "elf_entry m' img = elf_entry m img" .
  ultimately show thesis using that r by simp
qed

section \<open>The same bytes elsewhere in memory\<close>

definition same_bytes :: "bytes \<Rightarrow> mem \<Rightarrow> u64 \<Rightarrow> mem \<Rightarrow> u64 \<Rightarrow> bool" where
  "same_bytes c m a m' a' \<longleftrightarrow>
     read_bytes m a (length c) = c \<and> read_bytes m' a' (length c) = c"

lemma same_bytes_reads:
  assumes "same_bytes c m a m' a'"
  shows "i + 2 \<le> length c \<Longrightarrow> rd16 m' (a' + of_nat i) = rd16 m (a + of_nat i)"
    and "i + 4 \<le> length c \<Longrightarrow> rd32 m' (a' + of_nat i) = rd32 m (a + of_nat i)"
    and "i + 8 \<le> length c \<Longrightarrow> rd64 m' (a' + of_nat i) = rd64 m (a + of_nat i)"
    and "i < length c \<Longrightarrow> m' (a' + of_nat i) = m (a + of_nat i)"
  using rd_slice [of m a c i] rd_slice [of m' a' c i] assms by (simp_all add: same_bytes_def)

lemma same_bytes_header:
  assumes "same_bytes c m a m' a'" and "64 \<le> length c"
  shows "elf_magic m' a' = elf_magic m a" "elf_class_id m' a' = elf_class_id m a"
    "elf_data_encoding m' a' = elf_data_encoding m a" "elf_type m' a' = elf_type m a"
    "elf_machine m' a' = elf_machine m a" "elf_entry m' a' = elf_entry m a"
    "elf_phoff m' a' = elf_phoff m a" "elf_phentsize m' a' = elf_phentsize m a"
    "elf_phnum m' a' = elf_phnum m a"
  using same_bytes_reads(1) [OF assms(1), of 16] same_bytes_reads(1) [OF assms(1), of 18]
    same_bytes_reads(1) [OF assms(1), of 54] same_bytes_reads(1) [OF assms(1), of 56]
    same_bytes_reads(2) [OF assms(1), of 0] same_bytes_reads(3) [OF assms(1), of 24]
    same_bytes_reads(3) [OF assms(1), of 32] same_bytes_reads(4) [OF assms(1), of 4]
    same_bytes_reads(4) [OF assms(1), of 5] assms(2)
  by (simp_all add: elf_magic_def elf_class_id_def elf_data_encoding_def elf_type_def
      elf_machine_def elf_entry_def elf_phoff_def elf_phentsize_def elf_phnum_def)

lemma same_bytes_segment:
  assumes "same_bytes c m a m' a'" and "i + 56 \<le> length c"
  shows "segment_at m' (a' + of_nat i) = segment_at m (a + of_nat i)"
proof -
  have f: "b + of_nat i + of_nat k = b + of_nat (i + k)" for b :: u64 and k by (simp add: add.assoc)
  show ?thesis
    using same_bytes_reads(2) [OF assms(1), of i] same_bytes_reads(3) [OF assms(1), of "i + 8"]
      same_bytes_reads(3) [OF assms(1), of "i + 16"] same_bytes_reads(3) [OF assms(1), of "i + 32"]
      same_bytes_reads(3) [OF assms(1), of "i + 40"] assms(2)
      f [of a 8] f [of a' 8] f [of a 16] f [of a' 16] f [of a 32] f [of a' 32] f [of a 40] f [of a' 40]
    by (simp add: segment_at_def ph_type_def ph_offset_def ph_vaddr_def ph_filesz_def ph_memsz_def
        add.assoc del: of_nat_add)
qed

lemma same_bytes_seg_byte:
  assumes "same_bytes c m a m' a'" and "length c < 18446744073709551616"
    and "in_place (of_nat (length c)) s"
  shows "seg_byte m' a' s x = seg_byte m a s x"
proof (cases "unat (x - seg_vaddr s) < unat (seg_filesz s)")
  case True
  define i where "i = unat (seg_offset s) + unat (x - seg_vaddr s)"
  have "i < length c"
    using True assms(2,3) by (simp add: i_def in_place_def unat_of_nat_u64_small)
  moreover have eq: "b + seg_offset s + (x - seg_vaddr s) = b + of_nat i" for b :: u64
    by (simp add: i_def add.assoc)
  ultimately show ?thesis unfolding seg_byte_def eq using same_bytes_reads(4) [OF assms(1), of i] by simp
qed (simp add: seg_byte_def)

lemma loads_as_relocate:
  assumes same: "same_bytes c m a m' a'" and len: "length c < 18446744073709551616"
    and loads: "loads_as m a (of_nat (length c)) segs" and clear: "image_clear a' (of_nat (length c))"
  shows "loads_as m' a' (of_nat (length c)) segs" and "elf_entry m' a' = elf_entry m a"
    and "program_byte m' a' segs x = program_byte m a segs x"
proof -
  let ?n = "unat (elf_phnum m a)" and ?o = "unat (elf_phoff m a)"
  have sz: "unat (of_nat (length c) :: u64) = length c" using len by (rule unat_of_nat_u64_small)
  have v: "runtime_validate_elf a (of_nat (length c)) m" "elf_phentsize m a = 56"
    "?o + 56 * ?n < 18446744073709551616" "segs = segments m (a + elf_phoff m a) ?n"
    and pl: "\<forall>s \<in> set segs. loadable s \<longrightarrow> sane s \<and> in_place (of_nat (length c)) s"
    using loads by (simp_all add: loads_as_def)
  have 64: "64 \<le> length c"
    using v(1) sz by (simp add: runtime_validate_elf_def sizeof_Elf64Header_def word_less_nat_alt
        split: if_splits)
  note hd = same_bytes_header [OF same 64]
  have ph: "?o + 56 * ?n \<le> length c" using validated_headers [OF v(1-3)] sz by simp
  have "segment_at m' (a' + elf_phoff m a + of_nat (56 * i)) =
      segment_at m (a + elf_phoff m a + of_nat (56 * i))" if "i < ?n" for i
  proof -
    have eq: "b + elf_phoff m a + of_nat (56 * i) = b + of_nat (?o + 56 * i)" for b :: u64
      by (simp add: add.assoc)
    show ?thesis unfolding eq using that ph by (intro same_bytes_segment [OF same]) simp
  qed
  then have "segments m' (a' + elf_phoff m a) ?n = segments m (a + elf_phoff m a) ?n"
    by (auto simp: segments_def)
  moreover have "runtime_validate_elf a' sz m' = runtime_validate_elf a sz m" for sz
    unfolding runtime_validate_elf_def hd by (rule refl)
  ultimately show "loads_as m' a' (of_nat (length c)) segs"
    using v pl clear hd by (simp add: loads_as_def)
  show "elf_entry m' a' = elf_entry m a" by (rule hd)
  show "program_byte m' a' segs x = program_byte m a segs x"
    unfolding program_byte_def
    by (rule fold_cong) (use pl same_bytes_seg_byte [OF same len] in auto)
qed

section \<open>An example\<close>

definition demo_segment :: segment where
  "demo_segment = \<lparr>seg_type = 1, seg_offset = 120, seg_vaddr = 0x400000, seg_filesz = 4, seg_memsz = 6\<rparr>"

lemma demo_loads: "loads_as demo_ram 0x900000 (of_nat (length demo_elf)) [demo_segment]"
  using demo_valid demo_segments
  by (simp add: loads_as_def demo_elf_length demo_header demo_segment_def image_clear_def sane_def
      in_place_def)

end
