(* ===== verification/Stored_Program.thy ===== *)
theory Stored_Program
  imports Mk_App_Fs Program_Image
begin

text \<open>
  An executable file as the packing tool reads it, and the same file as the kernel finds it in
  the application volume (kernel/src/appfs.c and runtime.c): whether a file can run is a
  property of its bytes alone.
\<close>

text \<open>The file put at 0x900000, above the application window.\<close>

definition file_ram :: "bytes \<Rightarrow> mem" where
  "file_ram c = write_bytes (\<lambda>_. 0) 0x900000 c"

definition runs_as :: "bytes \<Rightarrow> segment list \<Rightarrow> bool" where
  "runs_as c segs \<longleftrightarrow> loads_as (file_ram c) 0x900000 (of_nat (length c)) segs"

definition file_entry :: "bytes \<Rightarrow> u64" where
  "file_entry c = elf_entry (file_ram c) 0x900000"

definition file_byte :: "bytes \<Rightarrow> segment list \<Rightarrow> u64 \<Rightarrow> u8" where
  "file_byte c segs x = program_byte (file_ram c) 0x900000 segs x"

lemma stored_program:
  assumes st: "stored h argv img m af" and i: "i < length (arg_pairs argv)"
    and rf: "read_file h (snd (arg_pairs argv ! i)) = Some c" and runs: "runs_as c segs"
    and clear: "image_clear (appfs_image af) (of_nat (length img))"
  obtains d where
    "ucast (ent_size m (entry_addr (appfs_image af) i)) = (of_nat (length c) :: u64)"
    and "appfs_data_at (entry_addr (appfs_image af) i) af m = d" and "d \<noteq> 0"
    and "loads_as m d (of_nat (length c)) segs" and "elf_entry m d = file_entry c"
    and "\<And>x. program_byte m d segs x = file_byte c segs x"
proof -
  let ?e = "entry_addr (appfs_image af) i"
  obtain off where d: "unat (ent_size m ?e) = length c"
    "appfs_data_at ?e af m = appfs_image af + of_nat off" "0 < off"
    "off + length c \<le> length img" "read_bytes m (appfs_image af + of_nat off) (length c) = c"
    using stored_data [OF st i] rf by force
  from st have b: "length img < 4294967296"
    "unat (appfs_image af) + length img < 18446744073709551616" by (simp_all add: stored_def)
  define a where "a = appfs_image af + of_nat off"
  have ua: "unat a = unat (appfs_image af) + off"
    unfolding a_def using b d(4) by (intro unat_add_of_nat_u64) simp
  have len: "length c < 18446744073709551616" using b(1) d(4) by simp
  have "read_bytes (file_ram c) 0x900000 (length c) = c"
    using read_write_same [of c "\<lambda>_. 0" "0x900000"] len by (simp add: file_ram_def)
  then have same: "same_bytes c (file_ram c) 0x900000 m a" using d(5) by (simp add: same_bytes_def a_def)
  have "image_clear a (of_nat (length c))"
    using clear ua b d(4) len by (auto simp: image_clear_def unat_of_nat_u64_small)
  note r = loads_as_relocate [OF same len runs [unfolded runs_as_def] this]
  have "unat (ucast (ent_size m ?e) :: u64) = length c"
    using d(1) len by (simp add: unsigned_ucast_eq take_bit_eq_mod)
  then have "ucast (ent_size m ?e) = (of_nat (length c) :: u64)"
    using len by (metis unat_of_nat_u64_small word_unat_eq_iff)
  moreover have "a \<noteq> 0" using ua d(3) by auto
  ultimately show thesis using that d(2) r by (simp add: a_def file_entry_def file_byte_def)
qed

end
