(* ===== verification/Demo_Volume.thy ===== *)
theory Demo_Volume
  imports Stored_Program
begin

text \<open>
  A concrete application volume for the witnesses of the theories above: the packing tool run
  on the small executable \<open>demo_elf\<close>, stored at 0x900000.
\<close>

definition demo_host :: host where
  "demo_host = \<lparr>host_file = (\<lambda>_. Some demo_elf), host_fault = (\<lambda>_. False), host_no_memory = False,
     host_writable = (\<lambda>_. True)\<rparr>"

definition demo_argv :: "bytes list" where
  "demo_argv = map chars [''mkappfs'', ''out.img'', ''demo'', ''demo.elf'']"

definition demo_image :: bytes where
  "demo_image = the (snd (mkappfs_main demo_host demo_argv))"

lemma demo_pairs: "arg_pairs demo_argv = [(chars ''demo'', chars ''demo.elf'')]"
  by (simp add: arg_pairs_def demo_argv_def)

lemma demo_run: "mkappfs_main demo_host demo_argv = (0, Some demo_image)"
  by (simp add: demo_image_def mkappfs_main_def demo_pairs Let_def read_file_def demo_host_def)
    (simp add: demo_argv_def)

lemma demo_image_length: "length demo_image = 192"
proof -
  obtain hdr es ps where "demo_image = image_bytes hdr es ps" "well_packed hdr es"
    "map (read_file demo_host \<circ> snd) (arg_pairs demo_argv) = map Some ps"
    "length es = length (arg_pairs demo_argv)"
    using mkappfs_image [OF demo_run] by metis
  then show ?thesis
    using length_image_bytes [of hdr es ps]
    by (auto simp: demo_pairs read_file_def demo_host_def demo_elf_length)
qed

definition demo_volume :: appfs where
  "demo_volume = \<lparr>appfs_image = 0x900000, appfs_header = 0x900000, boot_lba = 100, boot_sectors = 1\<rparr>"

definition demo_store :: mem where
  "demo_store = write_bytes (\<lambda>_. 0) 0x900000 demo_image"

lemma demo_name: "is_cstr (lit (chars ''demo'')) (chars ''demo'')"
  by (rule is_cstr_lit; simp add: chars_def)

lemma demo_stored: "stored demo_host demo_argv demo_image demo_store demo_volume"
proof -
  have "read_bytes demo_store 0x900000 (length demo_image) = demo_image"
    using read_write_same [of demo_image "\<lambda>_. 0" "0x900000"] by (simp add: demo_store_def demo_image_length)
  moreover have "0 \<notin> set (chars ''demo'')" by (simp add: chars_def)
  ultimately show ?thesis
    using demo_run by (simp add: stored_def demo_image_length demo_pairs demo_volume_def)
qed

lemma demo_runs: "runs_as demo_elf [demo_segment]" "file_entry demo_elf = 0x400000"
  "file_byte demo_elf [demo_segment] 0x400002 = 0x31"
proof -
  have r: "file_ram demo_elf = demo_ram" by (simp add: file_ram_def demo_ram_def)
  show "runs_as demo_elf [demo_segment]" using demo_loads by (simp add: runs_as_def r)
  show "file_entry demo_elf = 0x400000" using demo_header(6) by (simp add: file_entry_def r)
  have "demo_ram (0x900000 + of_nat 122) = demo_elf ! 122"
    using rd_slice(4) [OF demo_ram_bytes, of 122] by (simp add: demo_elf_length)
  then show "file_byte demo_elf [demo_segment] 0x400002 = 0x31"
    using demo_fields(4)
    by (simp add: file_byte_def r program_byte_def loadable_def ELF_PT_LOAD_def in_range_def
        seg_byte_def demo_segment_def)
qed

lemma demo_file: "read_file demo_host (snd (arg_pairs demo_argv ! 0)) = Some demo_elf"
  by (simp add: read_file_def demo_host_def)

lemma demo_entry:
  obtains e d where "appfs_find (lit (chars ''demo'')) demo_volume demo_store = Some e" and "e \<noteq> 0"
    and "ucast (ent_size demo_store e) = (124 :: u64)" and "appfs_data_at e demo_volume demo_store = d"
    and "d \<noteq> 0" and "loads_as demo_store d 124 [demo_segment]" and "elf_entry demo_store d = 0x400000"
    and "program_byte demo_store d [demo_segment] 0x400002 = 0x31"
proof -
  have i: "0 < length (arg_pairs demo_argv)" by (simp add: demo_pairs)
  have nm: "take 31 (fst (arg_pairs demo_argv ! 0)) = chars ''demo''" by (simp add: demo_pairs chars_def)
  have "image_clear (appfs_image demo_volume) (of_nat (length demo_image))"
    by (simp add: image_clear_def demo_volume_def demo_image_length)
  from stored_program [OF demo_stored i demo_file demo_runs(1) this] obtain d where
    "ucast (ent_size demo_store (entry_addr (appfs_image demo_volume) 0)) = (of_nat (length demo_elf) :: u64)"
    "appfs_data_at (entry_addr (appfs_image demo_volume) 0) demo_volume demo_store = d" "d \<noteq> 0"
    "loads_as demo_store d (of_nat (length demo_elf)) [demo_segment]" "elf_entry demo_store d = file_entry demo_elf"
    "program_byte demo_store d [demo_segment] 0x400002 = file_byte demo_elf [demo_segment] 0x400002" by metis
  then show thesis
    using that [of "entry_addr (appfs_image demo_volume) 0" d] demo_runs(2,3)
      stored_find [OF demo_stored i, unfolded nm, OF demo_name] stored_name(2) [OF demo_stored i]
    by (simp add: demo_elf_length)
qed

end
