(* ===== verification/Runtime.thy ===== *)
theory Runtime
  imports Kernel_State Demo_Volume
begin

text \<open>
  The application runtime, kernel/src/runtime.c: the functions it offers to applications
  (shared/snsx_appabi.h), the catalogue it shows the shell, and the launch of an application.
  The code of an application is not part of the kernel: \<open>programs\<close> gives, for an entry
  address, what calling it does.
\<close>

section \<open>The interface offered to applications\<close>

record SnsxAppApi =
  app_write :: "text_ref \<Rightarrow> kernel \<Rightarrow> kernel option"
  app_writeln :: "text_ref \<Rightarrow> kernel \<Rightarrow> kernel option"
  app_write_u64 :: "u64 \<Rightarrow> kernel \<Rightarrow> kernel option"
  app_write_hex32 :: "u32 \<Rightarrow> kernel \<Rightarrow> kernel option"
  app_uptime_ticks :: "kernel \<Rightarrow> u64"
  app_memory_total_bytes :: "kernel \<Rightarrow> u64"
  app_memory_used_bytes :: "kernel \<Rightarrow> u64"

type_synonym programs = "u64 \<Rightarrow> SnsxAppApi \<Rightarrow> kernel \<Rightarrow> (u32 \<times> kernel) option"

definition api_write :: "device \<Rightarrow> text_ref \<Rightarrow> kernel \<Rightarrow> kernel option" where
  "api_write dev text k =
     do { s \<leftarrow> c_text (text_at text (kram k));
          serial_act (serial_write dev s) (put_screen (terminal_write s) k) }"

definition api_writeln :: "device \<Rightarrow> text_ref \<Rightarrow> kernel \<Rightarrow> kernel option" where
  "api_writeln dev text k =
     do { s \<leftarrow> c_text (text_at text (kram k));
          serial_act (serial_writeln dev s) (put_screen (terminal_writeln s) k) }"

definition api_write_u64 :: "device \<Rightarrow> u64 \<Rightarrow> kernel \<Rightarrow> kernel option" where
  "api_write_u64 dev value k =
     serial_act (serial_write_uint64 dev value) (put_screen (terminal_write_uint64 value) k)"

definition api_write_hex32 :: "device \<Rightarrow> u32 \<Rightarrow> kernel \<Rightarrow> kernel option" where
  "api_write_hex32 dev value k =
     serial_act (serial_write_hex32 dev value) (put_screen (terminal_write_hex32 value) k)"

definition api_uptime_ticks :: "kernel \<Rightarrow> u64" where
  "api_uptime_ticks k = pit_ticks (clock k)"

definition api_memory_total_bytes :: "kernel \<Rightarrow> u64" where
  "api_memory_total_bytes k = memory_total_bytes (pages (store k))"

definition api_memory_used_bytes :: "kernel \<Rightarrow> u64" where
  "api_memory_used_bytes k = memory_used_bytes (pages (store k))"

definition runtime_api :: "device \<Rightarrow> SnsxAppApi" where
  "runtime_api dev =
     \<lparr>app_write = api_write dev, app_writeln = api_writeln dev, app_write_u64 = api_write_u64 dev,
      app_write_hex32 = api_write_hex32 dev, app_uptime_ticks = api_uptime_ticks,
      app_memory_total_bytes = api_memory_total_bytes,
      app_memory_used_bytes = api_memory_used_bytes\<rparr>"

section \<open>The catalogue\<close>

definition runtime_init :: "device \<Rightarrow> BootInfo option \<Rightarrow> kernel \<Rightarrow> bool \<times> kernel" where
  "runtime_init dev boot_info k =
     (let (ready, s) = appfs_init dev boot_info (store k)
      in (ready, k\<lparr>store := s, runtime_ready := ready\<rparr>))"

definition runtime_is_ready :: "kernel \<Rightarrow> bool" where
  "runtime_is_ready k = runtime_ready k"

definition runtime_app_count :: "kernel \<Rightarrow> u32" where
  "runtime_app_count k =
     (if runtime_is_ready k then appfs_entry_count (kvol k) (kram k) else 0)"

definition runtime_app_name :: "u32 \<Rightarrow> kernel \<Rightarrow> text_ref" where
  "runtime_app_name index k =
     (let entry = appfs_entry_at index (kvol k) (kram k)
      in if entry \<noteq> 0 then At entry else Literal [])"

definition runtime_app_size :: "u32 \<Rightarrow> kernel \<Rightarrow> u32" where
  "runtime_app_size index k =
     (let entry = appfs_entry_at index (kvol k) (kram k)
      in if entry \<noteq> 0 then ent_size (kram k) entry else 0)"

section \<open>Launching an application\<close>

text \<open>
  \<open>log_text\<close> and \<open>log_line\<close> are \<open>serial_write\<close> and \<open>serial_writeln\<close> of a string,
  \<open>show_text\<close> and \<open>show_line\<close> the terminal's.
\<close>

definition log_text :: "device \<Rightarrow> text_ref \<Rightarrow> kernel \<Rightarrow> kernel option" where
  "log_text dev text k =
     do { s \<leftarrow> c_text (text_at text (kram k)); serial_act (serial_write dev s) k }"

definition log_line :: "device \<Rightarrow> text_ref \<Rightarrow> kernel \<Rightarrow> kernel option" where
  "log_line dev text k =
     do { s \<leftarrow> c_text (text_at text (kram k)); serial_act (serial_writeln dev s) k }"

definition show_text :: "text_ref \<Rightarrow> kernel \<Rightarrow> kernel option" where
  "show_text text k =
     do { s \<leftarrow> c_text (text_at text (kram k)); Some (put_screen (terminal_write s) k) }"

definition show_line :: "text_ref \<Rightarrow> kernel \<Rightarrow> kernel option" where
  "show_line text k =
     do { s \<leftarrow> c_text (text_at text (kram k)); Some (put_screen (terminal_writeln s) k) }"

definition runtime_launch ::
  "device \<Rightarrow> programs \<Rightarrow> text_ref \<Rightarrow> kernel \<Rightarrow> (bool \<times> kernel) option" where
  "runtime_launch dev programs name k =
     (if \<not> runtime_is_ready k then Some (False, k)
      else do {
        entry \<leftarrow> appfs_find (text_at name (kram k)) (kvol k) (kram k);
        if entry = 0 then Some (False, k)
        else (let image = appfs_data_at entry (kvol k) (kram k) in
          if image = 0 then Some (False, k)
          else if \<not> runtime_validate_elf image (ucast (ent_size (kram k) entry)) (kram k) then do {
            k1 \<leftarrow> log_line dev (Literal (chars ''[SNSX] ELF validation failed'')) k;
            Some (False, k1) }
          else (let (loaded, m) = runtime_load_segments image (ucast (ent_size (kram k) entry))
                      image (kram k);
                    k1 = set_ram m k in
            if \<not> loaded then do {
              k2 \<leftarrow> log_line dev (Literal (chars ''[SNSX] ELF segment load failed'')) k1;
              Some (False, k2) }
            else do {
              k2 \<leftarrow> log_text dev (Literal (chars ''[SNSX] launching app: '')) k1;
              k3 \<leftarrow> log_line dev name k2;
              k4 \<leftarrow> show_text (Literal (chars ''Launching       : '')) k3;
              k5 \<leftarrow> show_line name k4;
              (code, k6) \<leftarrow> programs (elf_entry (kram k5) image) (runtime_api dev) k5;
              let k7 = k6\<lparr>last_exit_code := code\<rparr>;
              k8 \<leftarrow> log_text dev (Literal (chars ''[SNSX] app exit code: '')) k7;
              k9 \<leftarrow> serial_act (serial_write_uint64 dev (ucast (last_exit_code k8))) k8;
              k10 \<leftarrow> log_text dev (Literal [10]) k9;
              Some (True, k10) })) })"

definition runtime_autorun :: "device \<Rightarrow> programs \<Rightarrow> kernel \<Rightarrow> kernel option" where
  "runtime_autorun dev programs k =
     (if \<not> runtime_is_ready k
      then log_line dev (Literal (chars ''[SNSX] autorun skipped: runtime not ready'')) k
      else do {
        let app_count = runtime_app_count k;
        k1 \<leftarrow> log_text dev (Literal (chars ''[SNSX] runtime app count: '')) k;
        k2 \<leftarrow> serial_act (serial_write_uint64 dev (ucast app_count)) k1;
        k3 \<leftarrow> log_text dev (Literal [10]) k2;
        if app_count = 0
        then log_line dev (Literal (chars ''[SNSX] autorun skipped: no packaged apps'')) k3
        else do {
          let name = runtime_app_name 0 k3;
          k4 \<leftarrow> log_text dev (Literal (chars ''[SNSX] autorun target: '')) k3;
          k5 \<leftarrow> log_line dev name k4;
          k6 \<leftarrow> show_text (Literal (chars ''Runtime self-test: launching '')) k5;
          k7 \<leftarrow> show_text name k6;
          k8 \<leftarrow> show_line (Literal (chars ''.'')) k7;
          (launched, k9) \<leftarrow> runtime_launch dev programs name k8;
          show_line (Literal []) k9 } })"

definition runtime_last_exit_code :: "kernel \<Rightarrow> u32" where
  "runtime_last_exit_code k = last_exit_code k"

definition runtime_storage_lba :: "kernel \<Rightarrow> u32" where
  "runtime_storage_lba k = appfs_lba (kvol k)"

definition runtime_storage_sectors :: "kernel \<Rightarrow> u32" where
  "runtime_storage_sectors k = appfs_sectors (kvol k)"

section \<open>What a launch does\<close>

lemma log_text_emits:
  assumes "uart_live dev" and "is_cstr (text_at t (kram k)) s"
  obtains k' where "log_text dev t k = Some k'" and "emits [] (crlf s) k k'"
  using emits_serial [OF sends_write [OF assms(1), of s], of k] c_text_cstr [OF assms(2)]
  by (auto simp: log_text_def)

lemma log_line_emits:
  assumes "uart_live dev" and "is_cstr (text_at t (kram k)) s"
  obtains k' where "log_line dev t k = Some k'" and "emits [] (crlf (s @ [10])) k k'"
  using emits_serial [OF sends_writeln [OF assms(1), of s], of k] c_text_cstr [OF assms(2)]
  by (auto simp: log_line_def crlf_append)

lemma show_text_emits:
  assumes "is_cstr (text_at t (kram k)) s"
  shows "\<exists>k'. show_text t k = Some k' \<and> emits s [] k k'"
  using c_text_cstr [OF assms] emits_screen [of s k] by (simp add: show_text_def)

lemma show_line_emits:
  assumes "is_cstr (text_at t (kram k)) s"
  shows "\<exists>k'. show_line t k = Some k' \<and> emits (s @ [10]) [] k k'"
  using c_text_cstr [OF assms] emits_screen [of "s @ [10]" k]
  by (simp add: show_line_def terminal_writeln_write)

lemma is_cstr_Literal:
  "0 \<notin> set s \<Longrightarrow> length s < 18446744073709551616 \<Longrightarrow> is_cstr (text_at (Literal s) m) s"
  by (simp add: is_cstr_lit)

text \<open>
  The texts a launch prints, around the name and the exit code; all are free of NUL.
\<close>

definition launch_screen :: "bytes \<Rightarrow> bytes" where
  "launch_screen name = chars ''Launching       : '' @ name @ [10]"

definition launch_log :: "bytes \<Rightarrow> bytes" where
  "launch_log name = crlf (chars ''[SNSX] launching app: '' @ name @ [10])"

definition exit_log :: "u32 \<Rightarrow> bytes" where
  "exit_log code = crlf (chars ''[SNSX] app exit code: '' @ dec_numeral (unat code) @ [10])"

lemma literal_texts:
  "is_cstr (lit (chars ''[SNSX] launching app: '')) (chars ''[SNSX] launching app: '')"
  "is_cstr (lit (chars ''Launching       : '')) (chars ''Launching       : '')"
  "is_cstr (lit (chars ''[SNSX] app exit code: '')) (chars ''[SNSX] app exit code: '')"
  "is_cstr (lit (chars ''[SNSX] ELF validation failed'')) (chars ''[SNSX] ELF validation failed'')"
  "is_cstr (lit (chars ''[SNSX] ELF segment load failed'')) (chars ''[SNSX] ELF segment load failed'')"
  "is_cstr (lit [10]) [10]"
  by (rule is_cstr_lit; simp add: chars_def)+

text \<open>
  \<open>names_text name s m\<close>: the name is the string \<open>s\<close>, and loading a program cannot
  overwrite it.
\<close>

fun names_text :: "text_ref \<Rightarrow> bytes \<Rightarrow> mem \<Rightarrow> bool" where
  "names_text (Literal t) s m \<longleftrightarrow> is_cstr (lit t) s"
| "names_text (At a) s m \<longleftrightarrow> is_cstr (ptr_at m a) s \<and> (\<forall>i \<le> length s. \<not> window (a + of_nat i))"

lemma names_text_agrees:
  assumes "names_text name s m" and "agrees m m'"
  shows "is_cstr (text_at name m') s"
proof (cases name)
  case (At a)
  with assms(1) have "is_cstr (ptr_at m a) s" and out: "\<forall>i \<le> length s. \<not> window (a + of_nat i)"
    by simp_all
  from is_cstr_cong [OF this(1), of "ptr_at m' a"] out assms(2) At show ?thesis
    by (simp add: ptr_at_def agrees_def)
qed (use assms(1) in simp)

lemma announce_emits:
  assumes live: "uart_live dev" and nm: "is_cstr (text_at name (kram k)) s"
  obtains k2 k3 k4 k5 where
    "log_text dev (Literal (chars ''[SNSX] launching app: '')) k = Some k2"
    "log_line dev name k2 = Some k3"
    "show_text (Literal (chars ''Launching       : '')) k3 = Some k4" "show_line name k4 = Some k5"
    "emits (launch_screen s) (launch_log s) k k5"
proof -
  obtain k2 where 2: "log_text dev (Literal (chars ''[SNSX] launching app: '')) k = Some k2"
    "emits [] (crlf (chars ''[SNSX] launching app: '')) k k2"
    using log_text_emits [OF live, of "Literal (chars ''[SNSX] launching app: '')" k
        "chars ''[SNSX] launching app: ''"] literal_texts(1)
    by auto
  obtain k3 where 3: "log_line dev name k2 = Some k3" "emits [] (crlf (s @ [10])) k2 k3"
    using log_line_emits [OF live, of name k2 s] nm emits_keeps(4) [OF 2(2)] by auto
  obtain k4 where 4: "show_text (Literal (chars ''Launching       : '')) k3 = Some k4"
    "emits (chars ''Launching       : '') [] k3 k4"
    using show_text_emits [of "Literal (chars ''Launching       : '')" k3] literal_texts(2) by auto
  have "is_cstr (text_at name (kram k4)) s"
    using nm emits_keeps(4) [OF 2(2)] emits_keeps(4) [OF 3(2)] emits_keeps(4) [OF 4(2)] by simp
  then obtain k5 where 5: "show_line name k4 = Some k5" "emits (s @ [10]) [] k4 k5"
    using show_line_emits by blast
  from emits_trans [OF emits_trans [OF emits_trans [OF 2(2) 3(2)] 4(2)] 5(2)]
  have "emits (launch_screen s) (launch_log s) k k5"
    by (simp add: launch_screen_def launch_log_def crlf_append)
  with 2 3 4 5 show thesis using that by blast
qed

lemma farewell_emits:
  assumes live: "uart_live dev"
  obtains k8 k9 k10 where
    "log_text dev (Literal (chars ''[SNSX] app exit code: '')) k = Some k8"
    "serial_act (serial_write_uint64 dev (ucast (last_exit_code k8))) k8 = Some k9"
    "log_text dev (Literal [10]) k9 = Some k10"
    "emits [] (exit_log (last_exit_code k)) k k10"
proof -
  obtain k8 where 8: "log_text dev (Literal (chars ''[SNSX] app exit code: '')) k = Some k8"
    "emits [] (crlf (chars ''[SNSX] app exit code: '')) k k8"
    using log_text_emits [OF live, of "Literal (chars ''[SNSX] app exit code: '')" k
        "chars ''[SNSX] app exit code: ''"] literal_texts(3) by auto
  let ?c = "ucast (last_exit_code k8) :: u64"
  obtain k9 where 9: "serial_act (serial_write_uint64 dev ?c) k8 = Some k9"
    "emits [] (dec_numeral (unat ?c)) k8 k9"
    using emits_serial [OF sends_uint64 [OF live]] by blast
  obtain k10 where 10: "log_text dev (Literal [10]) k9 = Some k10" "emits [] (crlf [10]) k9 k10"
    using log_text_emits [OF live, of "Literal [10]" k9 "[10]"] literal_texts(6) by auto
  have u: "unat ?c = unat (last_exit_code k)"
    using emits_keeps(10) [OF 8(2)] unat_u32_bound [of "last_exit_code k"]
    by (simp add: unsigned_ucast_eq take_bit_eq_mod)
  have "10 \<notin> set (dec_numeral (unat (last_exit_code k)))"
    using dec_numeral_digits [of 10 "unat (last_exit_code k)"] by (auto simp: is_digit_def)
  then have "emits [] (exit_log (last_exit_code k)) k k10"
    using emits_trans [OF emits_trans [OF 8(2) 9(2)] 10(2)]
    by (simp add: exit_log_def crlf_append crlf_plain u)
  with 8 9 10 show thesis using that by blast
qed

section \<open>Properties\<close>

lemma launch_loaded:
  assumes live: "uart_live dev" and ready: "runtime_ready k"
    and find: "appfs_find (text_at name (kram k)) (kvol k) (kram k) = Some e" "e \<noteq> 0"
    and img: "img = appfs_data_at e (kvol k) (kram k)" "img \<noteq> 0"
    and sz: "sz = ucast (ent_size (kram k) e)" and loads: "loads_as (kram k) img sz segs"
    and nm: "names_text name s (kram k)"
  obtains m k5 where "agrees (kram k) m" and "\<And>x. window x \<Longrightarrow> m x = program_byte (kram k) img segs x"
    and "emits (launch_screen s) (launch_log s) (set_ram m k) k5"
    and "case programs (elf_entry (kram k) img) (runtime_api dev) k5 of
         None \<Rightarrow> runtime_launch dev programs name k = None
       | Some (code, k6) \<Rightarrow> \<exists>k7. runtime_launch dev programs name k = Some (True, k7) \<and>
           emits [] (exit_log code) (k6\<lparr>last_exit_code := code\<rparr>) k7"
proof -
  obtain m where seg: "runtime_load_segments img sz img (kram k) = (True, m)"
    and m: "agrees (kram k) m" "\<And>x. window x \<Longrightarrow> m x = program_byte (kram k) img segs x"
      "elf_entry m img = elf_entry (kram k) img" using load_runnable [OF loads] by blast
  have "is_cstr (text_at name (kram (set_ram m k))) s" using names_text_agrees [OF nm m(1)] by simp
  then obtain k2 k3 k4 k5 where
    s: "log_text dev (Literal (chars ''[SNSX] launching app: '')) (set_ram m k) = Some k2"
      "log_line dev name k2 = Some k3"
      "show_text (Literal (chars ''Launching       : '')) k3 = Some k4" "show_line name k4 = Some k5"
    and em: "emits (launch_screen s) (launch_log s) (set_ram m k) k5"
    using announce_emits [OF live] by metis
  have e5: "elf_entry (kram k5) img = elf_entry (kram k) img" using emits_keeps(4) [OF em] m(3) by simp
  have valid: "runtime_validate_elf img sz (kram k)" using loads by (simp add: loads_as_def)
  have "runtime_launch dev programs name k =
      do { (code, k6) \<leftarrow> programs (elf_entry (kram k) img) (runtime_api dev) k5;
           let k7 = k6\<lparr>last_exit_code := code\<rparr>;
           k8 \<leftarrow> log_text dev (Literal (chars ''[SNSX] app exit code: '')) k7;
           k9 \<leftarrow> serial_act (serial_write_uint64 dev (ucast (last_exit_code k8))) k8;
           k10 \<leftarrow> log_text dev (Literal [10]) k9;
           Some (True, k10) }"
    using ready find(2) img(2) valid s seg
    by (simp add: runtime_launch_def runtime_is_ready_def find(1) Let_def e5 flip: img(1) sz)
  note run = this
  have fin: "\<exists>k8 k9 k10. log_text dev (Literal (chars ''[SNSX] app exit code: ''))
        (k6\<lparr>last_exit_code := code\<rparr>) = Some k8 \<and>
      serial_act (serial_write_uint64 dev (ucast (last_exit_code k8))) k8 = Some k9 \<and>
      log_text dev (Literal [10]) k9 = Some k10 \<and>
      emits [] (exit_log code) (k6\<lparr>last_exit_code := code\<rparr>) k10" for k6 :: kernel and code
    using farewell_emits [OF live, of "k6\<lparr>last_exit_code := code\<rparr>", simplified] by metis
  have "case programs (elf_entry (kram k) img) (runtime_api dev) k5 of
         None \<Rightarrow> runtime_launch dev programs name k = None
       | Some (code, k6) \<Rightarrow> \<exists>k7. runtime_launch dev programs name k = Some (True, k7) \<and>
           emits [] (exit_log code) (k6\<lparr>last_exit_code := code\<rparr>) k7"
  proof (cases "programs (elf_entry (kram k) img) (runtime_api dev) k5")
    case (Some r)
    obtain code k6 where "r = (code, k6)" by fastforce
    with Some run fin [of code k6] show ?thesis by (auto simp: Let_def)
  qed (simp add: run)
  with m em show thesis using that by blast
qed

text \<open>
  C8 (runtime_launch_runs_program): launching a stored program whose image is a valid ELF file
  with fitting segments loads it (the window holds exactly its bytes, nothing else in memory
  changes), announces it on the terminal and on the serial line, and calls the entry point of
  its header with the interface of the runtime. If the program never returns, neither does the
  launch; if it returns a code, the launch succeeds in the state the program left, with the
  code kept as the last exit code and logged in decimal.
\<close>

theorem runtime_launch_runs_program:
  assumes "uart_live dev" and "runtime_ready k"
    and "appfs_find (text_at name (kram k)) (kvol k) (kram k) = Some e" and "e \<noteq> 0"
    and "img = appfs_data_at e (kvol k) (kram k)" and "img \<noteq> 0"
    and "sz = ucast (ent_size (kram k) e)" and "loads_as (kram k) img sz segs"
    and "names_text name s (kram k)"
  shows "\<exists>m k5. agrees (kram k) m \<and> (\<forall>x. window x \<longrightarrow> m x = program_byte (kram k) img segs x) \<and>
    emits (launch_screen s) (launch_log s) (set_ram m k) k5 \<and>
    (case programs (elf_entry (kram k) img) (runtime_api dev) k5 of
       None \<Rightarrow> runtime_launch dev programs name k = None
     | Some (code, k6) \<Rightarrow> \<exists>k7. runtime_launch dev programs name k = Some (True, k7) \<and>
         emits [] (exit_log code) (k6\<lparr>last_exit_code := code\<rparr>) k7)"
proof -
  obtain m k5 where "agrees (kram k) m" "\<And>x. window x \<Longrightarrow> m x = program_byte (kram k) img segs x"
    "emits (launch_screen s) (launch_log s) (set_ram m k) k5"
    "case programs (elf_entry (kram k) img) (runtime_api dev) k5 of
       None \<Rightarrow> runtime_launch dev programs name k = None
     | Some (code, k6) \<Rightarrow> \<exists>k7. runtime_launch dev programs name k = Some (True, k7) \<and>
         emits [] (exit_log code) (k6\<lparr>last_exit_code := code\<rparr>) k7"
    by (rule launch_loaded [OF assms, where programs = programs]) (rule that)
  then show ?thesis by blast
qed

text \<open>A kernel that holds the demonstration volume, for the witnesses.\<close>

definition demo_kernel :: kernel where
  "demo_kernel = \<lparr>screen = blank_terminal, clock = pit_start, keys = keyboard_zero,
     store = \<lparr>driver_ready = True, volume = demo_volume, pages = small_pool, ram = demo_store, ports = []\<rparr>,
     idt_table = idt_zero, interrupts_on = True, runtime_ready = True, last_exit_code = 0\<rparr>"

definition ready_uart :: device where
  "ready_uart = \<lparr>dev_in8 = \<lambda>_ _. 0x20, dev_in16 = \<lambda>_ _. 0\<rparr>"

lemma ready_uart_live: "uart_live ready_uart"
  by (simp add: uart_live_def ready_uart_def gets_ready.now)

lemma runtime_launch_runs_program_witness:
  "\<exists>k'. runtime_launch ready_uart (\<lambda>entry api k. if entry = 0x400000 then Some (42, k) else None)
      (Literal (chars ''demo'')) demo_kernel = Some (True, k') \<and>
    last_exit_code k' = 42 \<and> kram k' 0x400002 = 0x31"
proof -
  let ?progs = "\<lambda>entry (api :: SnsxAppApi) (k :: kernel). if entry = (0x400000 :: u64) then Some (42 :: u32, k) else None"
  have f: "kram demo_kernel = demo_store" "kvol demo_kernel = demo_volume" "runtime_ready demo_kernel"
    by (simp_all add: demo_kernel_def)
  obtain e d where e: "appfs_find (lit (chars ''demo'')) demo_volume demo_store = Some e" "e \<noteq> 0"
    "ucast (ent_size demo_store e) = (124 :: u64)" "appfs_data_at e demo_volume demo_store = d" "d \<noteq> 0"
    "loads_as demo_store d 124 [demo_segment]" "elf_entry demo_store d = 0x400000"
    "program_byte demo_store d [demo_segment] 0x400002 = 0x31" by (rule demo_entry)
  have "\<exists>m k5. agrees (kram demo_kernel) m \<and>
      (\<forall>x. window x \<longrightarrow> m x = program_byte (kram demo_kernel) d [demo_segment] x) \<and>
      emits (launch_screen (chars ''demo'')) (launch_log (chars ''demo'')) (set_ram m demo_kernel) k5 \<and>
      (case ?progs (elf_entry (kram demo_kernel) d) (runtime_api ready_uart) k5 of
         None \<Rightarrow> runtime_launch ready_uart ?progs (Literal (chars ''demo'')) demo_kernel = None
       | Some (code, k6) \<Rightarrow>
           \<exists>k7. runtime_launch ready_uart ?progs (Literal (chars ''demo'')) demo_kernel = Some (True, k7) \<and>
             emits [] (exit_log code) (k6\<lparr>last_exit_code := code\<rparr>) k7)"
    by (rule runtime_launch_runs_program [OF ready_uart_live f(3), where e = e and sz = 124])
      (use e f demo_name in simp_all)
  then obtain m k5 k7 where m: "\<forall>x. window x \<longrightarrow> m x = program_byte demo_store d [demo_segment] x"
    and em: "emits (launch_screen (chars ''demo'')) (launch_log (chars ''demo'')) (set_ram m demo_kernel) k5"
    and k7: "runtime_launch ready_uart ?progs (Literal (chars ''demo'')) demo_kernel = Some (True, k7)"
      "emits [] (exit_log 42) (k5\<lparr>last_exit_code := 42\<rparr>) k7"
    using e(7) by (auto simp: f)
  from emits_keeps [OF k7(2)] emits_keeps [OF em] m e(8) have "last_exit_code k7 = 42" "kram k7 0x400002 = 0x31"
    by (simp_all add: window_def)
  with k7(1) show ?thesis by blast
qed

text \<open>
  Why a launch is refused, stated on the bytes of the volume and not on the answers of the
  functions that check them. An entry lies outside the image when its end, as a number, is
  beyond the size in the header (and is not cut by the 32-bit addition of the code); a file is
  no executable when its header is not the one of a 64-bit x86-64 ELF executable or its
  program headers end after the file (and the end is not cut by the 64-bit addition).
\<close>

definition entry_outside :: "mem \<Rightarrow> appfs \<Rightarrow> u64 \<Rightarrow> bool" where
  "entry_outside m af e \<longleftrightarrow>
     unat (hdr_image_size m (appfs_header af)) < unat (ent_offset m e) + unat (ent_size m e) \<and>
     unat (ent_offset m e) + unat (ent_size m e) < 2 ^ 32"

definition entry_file :: "mem \<Rightarrow> appfs \<Rightarrow> u64 \<Rightarrow> bytes" where
  "entry_file m af e = read_bytes m (appfs_image af + ucast (ent_offset m e)) (unat (ent_size m e))"

definition no_executable :: "bytes \<Rightarrow> bool" where
  "no_executable bs \<longleftrightarrow> \<not> elf_head bs \<or> (length bs < table_end bs \<and> table_end bs < 2 ^ 64)"

inductive launch_refused :: "kernel \<Rightarrow> bytes \<Rightarrow> bool" for k s where
  not_ready: "\<not> runtime_ready k \<Longrightarrow> launch_refused k s"
| unknown: "catalogue (kram k) (kvol k) names \<Longrightarrow> s \<notin> set names \<Longrightarrow> launch_refused k s"
| bad_entry: "catalogue (kram k) (kvol k) names \<Longrightarrow> j < length names \<Longrightarrow> names ! j = s \<Longrightarrow>
    s \<notin> set (take j names) \<Longrightarrow> e = entry_addr (appfs_image (kvol k)) j \<Longrightarrow>
    entry_outside (kram k) (kvol k) e \<or> no_executable (entry_file (kram k) (kvol k) e) \<Longrightarrow>
    launch_refused k s"

lemma outside_no_data:
  assumes "entry_outside m af e"
  shows "appfs_data_at e af m = 0"
proof -
  have "unat (ent_offset m e + ent_size m e) = unat (ent_offset m e) + unat (ent_size m e)"
    using assms by (simp add: entry_outside_def unat_word_ariths)
  then show ?thesis using assms by (simp add: appfs_data_at_def entry_outside_def word_less_nat_alt)
qed

lemma no_executable_invalid:
  assumes "no_executable (entry_file m af e)" and "appfs_data_at e af m \<noteq> 0"
  shows "\<not> runtime_validate_elf (appfs_data_at e af m) (ucast (ent_size m e)) m"
proof
  assume v: "runtime_validate_elf (appfs_data_at e af m) (ucast (ent_size m e)) m"
  have "unat (ucast (ent_size m e) :: u64) = unat (ent_size m e)"
    using unat_u32_bound [of "ent_size m e"] by (simp add: unsigned_ucast_eq take_bit_eq_mod)
  moreover have "appfs_data_at e af m = appfs_image af + ucast (ent_offset m e)"
    using assms(2) by (auto simp: appfs_data_at_def split: if_splits)
  ultimately show False
    using validated_bytes [OF v] assms(1) by (auto simp: no_executable_def entry_file_def)
qed

text \<open>The three ways out of \<open>runtime_launch\<close> before anything is loaded.\<close>

lemma launch_stops:
  assumes "runtime_ready k \<longrightarrow> appfs_find (text_at name (kram k)) (kvol k) (kram k) = Some e"
    and "img = appfs_data_at e (kvol k) (kram k)"
  shows "\<not> runtime_ready k \<or> e = 0 \<or> img = 0 \<Longrightarrow> runtime_launch dev programs name k = Some (False, k)"
    and "runtime_ready k \<Longrightarrow> e \<noteq> 0 \<Longrightarrow> img \<noteq> 0 \<Longrightarrow>
      \<not> runtime_validate_elf img (ucast (ent_size (kram k) e)) (kram k) \<Longrightarrow>
      log_line dev (Literal (chars ''[SNSX] ELF validation failed'')) k = Some k1 \<Longrightarrow>
      runtime_launch dev programs name k = Some (False, k1)"
  using assms(1) unfolding assms(2)
  by (auto simp: runtime_launch_def runtime_is_ready_def Let_def)

text \<open>
  C17 (runtime_launch_refuses): a launch with the runtime not ready, of a name that no entry of
  the volume has, or whose first entry of that name lies outside the image or is not an
  executable (its bytes are not those of a 64-bit little-endian x86-64 ELF executable with its
  program headers inside the file) returns false without running anything, whatever the
  programs are: the screen, memory and the exit code are as before, and at most one line was
  logged. An entry whose offset and size add up to \<open>2 ^ 32\<close> or more, or a file whose program
  headers would end past \<open>2 ^ 64\<close>, is not claimed to be refused: there the code's sum wraps.
\<close>

theorem runtime_launch_refuses:
  assumes "uart_live dev" and "is_cstr (text_at name (kram k)) s" and "launch_refused k s"
  shows "\<exists>k'. (\<forall>programs. runtime_launch dev programs name k = Some (False, k')) \<and>
    screen k' = screen k \<and> kram k' = kram k \<and> last_exit_code k' = last_exit_code k \<and>
    (k' = k \<or> emits [] (crlf (chars ''[SNSX] ELF validation failed'' @ [10])) k k')"
proof -
  obtain k1 where k1: "log_line dev (Literal (chars ''[SNSX] ELF validation failed'')) k = Some k1"
    "emits [] (crlf (chars ''[SNSX] ELF validation failed'' @ [10])) k k1"
    using log_line_emits [OF assms(1), of "Literal (chars ''[SNSX] ELF validation failed'')" k
        "chars ''[SNSX] ELF validation failed''"] literal_texts(4) by auto
  from assms(3) have "(\<forall>programs. runtime_launch dev programs name k = Some (False, k)) \<or>
    (\<forall>programs. runtime_launch dev programs name k = Some (False, k1))"
  proof cases
    case not_ready
    then show ?thesis by (auto intro: launch_stops(1))
  next
    case (unknown names)
    from appfs_find_missing [OF this(1) assms(2) this(2)]
    have "runtime_ready k \<longrightarrow> appfs_find (text_at name (kram k)) (kvol k) (kram k) = Some 0" by simp
    from launch_stops(1) [OF this HOL.refl] show ?thesis by simp
  next
    case (bad_entry names j e)
    have "names ! l \<noteq> names ! j" if "l < j" for l
      using that bad_entry(2-4) by (auto simp: in_set_conv_nth)
    from appfs_find_named [OF bad_entry(1) _ bad_entry(2) this] assms(2) bad_entry(3,5)
    have find: "appfs_find (text_at name (kram k)) (kvol k) (kram k) = Some e" by auto
    let ?img = "appfs_data_at e (kvol k) (kram k)"
    show ?thesis
    proof (cases "\<not> runtime_ready k \<or> e = 0 \<or> ?img = 0")
      case True
      then show ?thesis using find by (auto intro!: launch_stops(1))
    next
      case False
      then have "\<not> runtime_validate_elf ?img (ucast (ent_size (kram k) e)) (kram k)"
        using bad_entry(6) outside_no_data no_executable_invalid by blast
      with False find k1(1) show ?thesis by (auto intro!: launch_stops(2))
    qed
  qed
  with k1(2) emits_keeps [OF k1(2)] show ?thesis by (auto simp: terminal_write_def)
qed

lemma runtime_launch_refuses_witness:
  "\<exists>k'. runtime_launch ready_uart (\<lambda>_ _ k. Some (0, k)) (Literal (chars ''nope'')) demo_kernel =
     Some (False, k') \<and> screen k' = blank_terminal"
proof -
  have "catalogue (kram demo_kernel) (kvol demo_kernel) [chars ''demo'']"
    using stored_catalogue [OF demo_stored] by (simp add: demo_kernel_def demo_pairs chars_def)
  then have "launch_refused demo_kernel (chars ''nope'')"
    by (rule launch_refused.unknown) (simp add: chars_def)
  moreover have "is_cstr (text_at (Literal (chars ''nope'')) (kram demo_kernel)) (chars ''nope'')"
    by simp (rule is_cstr_lit; simp add: chars_def)
  ultimately obtain k' where
    "\<forall>programs. runtime_launch ready_uart programs (Literal (chars ''nope'')) demo_kernel = Some (False, k')"
    "screen k' = screen demo_kernel" using runtime_launch_refuses [OF ready_uart_live] by blast
  then show ?thesis by (simp add: demo_kernel_def)
qed

end
