(* ===== verification/Demo_App.thy ===== *)
theory Demo_App
  imports Runtime
begin

text \<open>
  The demonstration application, apps/demo/main.c, and what the kernel promises to any
  application that only prints through the interface of the runtime.
\<close>

section \<open>The application\<close>

definition snsx_app_main :: "SnsxAppApi \<Rightarrow> kernel \<Rightarrow> (u32 \<times> kernel) option" where
  "snsx_app_main api k =
     do { k1 \<leftarrow> app_writeln api (Literal (chars
            ''[aurora-demo] SNSX ExOS application runtime is online.'')) k;
          k2 \<leftarrow> app_writeln api (Literal (chars
            ''[aurora-demo] Custom storage, ELF loading, and native apps are active.'')) k1;
          k3 \<leftarrow> app_write api (Literal (chars ''[aurora-demo] Uptime ticks: '')) k2;
          k4 \<leftarrow> app_write_u64 api (app_uptime_ticks api k3) k3;
          k5 \<leftarrow> app_writeln api (Literal []) k4;
          k6 \<leftarrow> app_write api (Literal (chars ''[aurora-demo] Memory in use: '')) k5;
          k7 \<leftarrow> app_write_u64 api (app_memory_used_bytes api k6 div 1024) k6;
          k8 \<leftarrow> app_writeln api (Literal (chars '' KiB'')) k7;
          k9 \<leftarrow> app_writeln api (Literal (chars
            ''[aurora-demo] Next frontier: stronger isolation, GUI, networking, Wi-Fi, Bluetooth.'')) k8;
          Some (0, k9) }"

text \<open>What it prints, on both outputs.\<close>

definition demo_text :: "kernel \<Rightarrow> bytes" where
  "demo_text k =
     chars ''[aurora-demo] SNSX ExOS application runtime is online.'' @ [10] @
     chars ''[aurora-demo] Custom storage, ELF loading, and native apps are active.'' @ [10] @
     chars ''[aurora-demo] Uptime ticks: '' @ dec_numeral (unat (pit_ticks (clock k))) @ [10] @
     chars ''[aurora-demo] Memory in use: '' @
       dec_numeral (unat (memory_used_bytes (pages (store k)) div 1024)) @ chars '' KiB'' @ [10] @
     chars ''[aurora-demo] Next frontier: stronger isolation, GUI, networking, Wi-Fi, Bluetooth.'' @ [10]"

section \<open>The interface prints on both outputs\<close>

lemma api_write_prints:
  assumes "uart_live dev" and "is_cstr (lit s) s"
  shows "prints (app_write (runtime_api dev) (Literal s)) k s (crlf s)"
  using prints_screen_then [OF prints_serial [OF sends_write [OF assms(1), of s]], of s k]
    c_text_cstr [OF assms(2)]
  by (simp add: runtime_api_def api_write_def prints_def)

lemma api_writeln_prints:
  assumes "uart_live dev" and "is_cstr (lit s) s"
  shows "prints (app_writeln (runtime_api dev) (Literal s)) k (s @ [10]) (crlf (s @ [10]))"
  using prints_screen_then [OF prints_serial [OF sends_writeln [OF assms(1), of s]], of "s @ [10]" k]
    c_text_cstr [OF assms(2)]
  by (simp add: runtime_api_def api_writeln_def prints_def crlf_append terminal_writeln_write)

lemma crlf_dec [simp]: "crlf (dec_numeral n) = dec_numeral n"
  using dec_numeral_digits [of 10 n] by (intro crlf_plain) (auto simp: is_digit_def)

lemma api_write_u64_prints:
  assumes "uart_live dev"
  shows "prints (app_write_u64 (runtime_api dev) v) k (dec_numeral (unat v)) (crlf (dec_numeral (unat v)))"
  using prints_screen_then [OF prints_serial [OF sends_uint64 [OF assms, of v]], of "dec_numeral (unat v)" k]
  by (simp add: runtime_api_def api_write_u64_def prints_def write_uint64_numeral)

text \<open>\<open>says s k k'\<close>: the same text went to the terminal and, with its line ends, to the serial port.\<close>

definition says :: "bytes \<Rightarrow> kernel \<Rightarrow> kernel \<Rightarrow> bool" where
  "says s k k' \<longleftrightarrow> emits s (crlf s) k k'"

lemma says_trans [trans]: "says s k k1 \<Longrightarrow> says t k1 k2 \<Longrightarrow> says (s @ t) k k2"
  unfolding says_def crlf_append by (rule emits_trans)

lemma prints_says:
  assumes "prints f k s (crlf s)"
  obtains k' where "f k = Some k'" and "says s k k'"
  using assms by (auto simp: prints_def says_def)

lemma demo_literals:
  "is_cstr (lit (chars ''[aurora-demo] SNSX ExOS application runtime is online.''))
     (chars ''[aurora-demo] SNSX ExOS application runtime is online.'')"
  "is_cstr (lit (chars ''[aurora-demo] Custom storage, ELF loading, and native apps are active.''))
     (chars ''[aurora-demo] Custom storage, ELF loading, and native apps are active.'')"
  "is_cstr (lit (chars ''[aurora-demo] Uptime ticks: '')) (chars ''[aurora-demo] Uptime ticks: '')"
  "is_cstr (lit []) []"
  "is_cstr (lit (chars ''[aurora-demo] Memory in use: '')) (chars ''[aurora-demo] Memory in use: '')"
  "is_cstr (lit (chars '' KiB'')) (chars '' KiB'')"
  "is_cstr (lit (chars ''[aurora-demo] Next frontier: stronger isolation, GUI, networking, Wi-Fi, Bluetooth.''))
     (chars ''[aurora-demo] Next frontier: stronger isolation, GUI, networking, Wi-Fi, Bluetooth.'')"
  by (rule is_cstr_lit; simp add: chars_def)+

lemma demo_says:
  assumes live: "uart_live dev"
  shows "\<exists>k'. snsx_app_main (runtime_api dev) k = Some (0, k') \<and> says (demo_text k) k k'"
proof -
  note w = api_write_prints [OF live] and wl = api_writeln_prints [OF live]
    and wu = api_write_u64_prints [OF live]
  note l = demo_literals
  let ?l1 = "chars ''[aurora-demo] SNSX ExOS application runtime is online.''"
  let ?l2 = "chars ''[aurora-demo] Custom storage, ELF loading, and native apps are active.''"
  let ?l3 = "chars ''[aurora-demo] Uptime ticks: ''"
  let ?l6 = "chars ''[aurora-demo] Memory in use: ''"
  let ?l8 = "chars '' KiB''"
  let ?l9 = "chars ''[aurora-demo] Next frontier: stronger isolation, GUI, networking, Wi-Fi, Bluetooth.''"
  obtain k1 where 1: "app_writeln (runtime_api dev) (Literal ?l1) k = Some k1" "says (?l1 @ [10]) k k1"
    by (rule prints_says [OF wl [OF l(1)]])
  obtain k2 where 2: "app_writeln (runtime_api dev) (Literal ?l2) k1 = Some k2" "says (?l2 @ [10]) k1 k2"
    by (rule prints_says [OF wl [OF l(2)]])
  obtain k3 where 3: "app_write (runtime_api dev) (Literal ?l3) k2 = Some k3"
      "says ?l3 k2 k3" by (rule prints_says [OF w [OF l(3)]])
  let ?t = "app_uptime_ticks (runtime_api dev) k3"
  obtain k4 where 4: "app_write_u64 (runtime_api dev) ?t k3 = Some k4" "says (dec_numeral (unat ?t)) k3 k4"
    by (rule prints_says [OF wu])
  obtain k5 where 5: "app_writeln (runtime_api dev) (Literal []) k4 = Some k5" "says ([] @ [10]) k4 k5"
    by (rule prints_says [OF wl [OF l(4)]])
  obtain k6 where 6: "app_write (runtime_api dev) (Literal ?l6) k5 = Some k6"
      "says ?l6 k5 k6" by (rule prints_says [OF w [OF l(5)]])
  let ?u = "app_memory_used_bytes (runtime_api dev) k6 div 1024"
  obtain k7 where 7: "app_write_u64 (runtime_api dev) ?u k6 = Some k7" "says (dec_numeral (unat ?u)) k6 k7"
    by (rule prints_says [OF wu])
  obtain k8 where 8: "app_writeln (runtime_api dev) (Literal ?l8) k7 = Some k8" "says (?l8 @ [10]) k7 k8"
    by (rule prints_says [OF wl [OF l(6)]])
  obtain k9 where 9: "app_writeln (runtime_api dev) (Literal ?l9) k8 = Some k9"
      "says (?l9 @ [10]) k8 k9" by (rule prints_says [OF wl [OF l(7)]])
  note to3 = says_trans [OF says_trans [OF 1(2) 2(2)] 3(2)]
  note to6 = says_trans [OF says_trans [OF says_trans [OF to3 4(2)] 5(2)] 6(2)]
  have t: "?t = pit_ticks (clock k)" "?u = memory_used_bytes (pages (store k)) div 1024"
    using emits_keeps(2) [OF to3 [unfolded says_def]] emits_keeps(6) [OF to6 [unfolded says_def]]
    by (simp_all add: runtime_api_def api_uptime_ticks_def api_memory_used_bytes_def)
  have "snsx_app_main (runtime_api dev) k = Some (0, k9)"
    by (simp add: snsx_app_main_def 1 2 3 4 5 6 7 8 9)
  moreover have "says (demo_text k) k k9"
    using says_trans [OF says_trans [OF says_trans [OF to6 7(2)] 8(2)] 9(2)]
    by (simp add: demo_text_def t)
  ultimately show ?thesis by blast
qed

section \<open>Applications that only print\<close>

text \<open>
  The contract of a well-behaved application: given the runtime's interface it returns, and
  all it does is print a text that depends on nothing but the timer and the page allocator.
  Launching such an application leaves a kernel that differs only in the application window,
  the screen, the serial line and the exit code.
\<close>

lemma emits_exit_code:
  "emits a b k k' \<Longrightarrow> emits a b (k\<lparr>last_exit_code := c\<rparr>) (k'\<lparr>last_exit_code := c\<rparr>)"
  unfolding emits_def by (cases k) (fastforce simp: set_ports_def put_screen_def)

locale printing_app =
  fixes dev :: device
    and app :: "SnsxAppApi \<Rightarrow> kernel \<Rightarrow> (u32 \<times> kernel) option"
    and words :: "kernel \<Rightarrow> bytes"
    and code :: u32
  assumes returns: "uart_live dev \<Longrightarrow> \<exists>k'. app (runtime_api dev) k = Some (code, k') \<and> says (words k) k k'"
    and words_stable: "clock k' = clock k \<Longrightarrow> pages (store k') = pages (store k) \<Longrightarrow> words k' = words k"
begin

lemma launched:
  assumes live: "uart_live dev" and "runtime_ready k"
    and "appfs_find (text_at name (kram k)) (kvol k) (kram k) = Some e" and "e \<noteq> 0"
    and "img = appfs_data_at e (kvol k) (kram k)" and "img \<noteq> 0"
    and "sz = ucast (ent_size (kram k) e)" and "loads_as (kram k) img sz segs"
    and "names_text name s (kram k)" and progs: "programs (elf_entry (kram k) img) = app"
  shows "\<exists>m k'. agrees (kram k) m \<and> (\<forall>x. window x \<longrightarrow> m x = program_byte (kram k) img segs x) \<and>
    runtime_launch dev programs name k = Some (True, k') \<and>
    emits (launch_screen s @ words k) (launch_log s @ crlf (words k) @ exit_log code)
      ((set_ram m k)\<lparr>last_exit_code := code\<rparr>) k'"
proof -
  obtain m k5 where m: "agrees (kram k) m" "\<And>x. window x \<Longrightarrow> m x = program_byte (kram k) img segs x"
    and em: "emits (launch_screen s) (launch_log s) (set_ram m k) k5"
    and run: "case programs (elf_entry (kram k) img) (runtime_api dev) k5 of
         None \<Rightarrow> runtime_launch dev programs name k = None
       | Some (code, k6) \<Rightarrow> \<exists>k7. runtime_launch dev programs name k = Some (True, k7) \<and>
           emits [] (exit_log code) (k6\<lparr>last_exit_code := code\<rparr>) k7"
    by (rule launch_loaded [OF assms(1-9), where programs = programs]) (rule that)
  obtain k6 where 6: "app (runtime_api dev) k5 = Some (code, k6)" "says (words k5) k5 k6"
    using returns [OF live] by blast
  have words: "words k5 = words k"
    using emits_keeps(2,6) [OF em] by (intro words_stable) simp_all
  with run obtain k10 where "runtime_launch dev programs name k = Some (True, k10)"
    and em10: "emits [] (exit_log code) (k6\<lparr>last_exit_code := code\<rparr>) k10"
    by (auto simp: progs 6(1))
  moreover have "emits (launch_screen s @ words k) (launch_log s @ crlf (words k) @ exit_log code)
      ((set_ram m k)\<lparr>last_exit_code := code\<rparr>) k10"
    using emits_trans [OF emits_exit_code [OF emits_trans [OF em 6(2) [unfolded says_def]]] em10]
    by (simp add: words)
  ultimately show ?thesis using m by blast
qed

end

interpretation demo: printing_app dev snsx_app_main demo_text 0 for dev
  by unfold_locales (rule demo_says, assumption, simp add: demo_text_def)

section \<open>Properties\<close>

text \<open>
  C19 (demo_app_launch): when the catalogue holds the demonstration application under a name,
  launching the name prints, on the terminal and on the serial line, the announcement and the
  application's report with the timer's ticks and the used memory in KiB in decimal, logs exit
  code 0, and keeps it as the last exit code; apart from that only the application window of
  memory is different.
\<close>

theorem demo_app_launch:
  assumes "uart_live dev" and "runtime_ready k"
    and "appfs_find (text_at name (kram k)) (kvol k) (kram k) = Some e" and "e \<noteq> 0"
    and "img = appfs_data_at e (kvol k) (kram k)" and "img \<noteq> 0"
    and "sz = ucast (ent_size (kram k) e)" and "loads_as (kram k) img sz segs"
    and "names_text name s (kram k)" and "programs (elf_entry (kram k) img) = snsx_app_main"
  shows "\<exists>m k'. agrees (kram k) m \<and> (\<forall>x. window x \<longrightarrow> m x = program_byte (kram k) img segs x) \<and>
    runtime_launch dev programs name k = Some (True, k') \<and>
    emits (launch_screen s @ demo_text k) (launch_log s @ crlf (demo_text k) @ exit_log 0)
      ((set_ram m k)\<lparr>last_exit_code := 0\<rparr>) k'"
  by (rule demo.launched [where programs = programs, OF assms])

lemma demo_app_launch_witness:
  "\<exists>m k'. runtime_launch ready_uart (\<lambda>_. snsx_app_main) (Literal (chars ''demo'')) demo_kernel =
      Some (True, k') \<and>
    emits (launch_screen (chars ''demo'') @ demo_text demo_kernel)
      (launch_log (chars ''demo'') @ crlf (demo_text demo_kernel) @ exit_log 0)
      ((set_ram m demo_kernel)\<lparr>last_exit_code := 0\<rparr>) k'"
proof -
  have f: "kram demo_kernel = demo_store" "kvol demo_kernel = demo_volume" "runtime_ready demo_kernel"
    by (simp_all add: demo_kernel_def)
  obtain e d where e: "appfs_find (lit (chars ''demo'')) demo_volume demo_store = Some e" "e \<noteq> 0"
    "ucast (ent_size demo_store e) = (124 :: u64)" "appfs_data_at e demo_volume demo_store = d" "d \<noteq> 0"
    "loads_as demo_store d 124 [demo_segment]" by (rule demo_entry)
  have "\<exists>m k'. agrees (kram demo_kernel) m \<and>
      (\<forall>x. window x \<longrightarrow> m x = program_byte (kram demo_kernel) d [demo_segment] x) \<and>
      runtime_launch ready_uart (\<lambda>_. snsx_app_main) (Literal (chars ''demo'')) demo_kernel = Some (True, k') \<and>
      emits (launch_screen (chars ''demo'') @ demo_text demo_kernel)
        (launch_log (chars ''demo'') @ crlf (demo_text demo_kernel) @ exit_log 0)
        ((set_ram m demo_kernel)\<lparr>last_exit_code := 0\<rparr>) k'"
    by (rule demo_app_launch [OF ready_uart_live f(3), where e = e and sz = 124])
      (use e f demo_name in simp_all)
  then show ?thesis by blast
qed

end
