(* ===== verification/Shell.thy ===== *)
theory Shell
  imports Demo_App
begin

text \<open>
  The command shell, kernel/src/shell.c: the built-in commands, the dispatch of a command
  line, and the loop that reads the keyboard. A command that may not return (an application
  that does not, a serial line never ready) is partial; \<open>reboot\<close> ends in a state the machine
  never leaves. The code at an interrupt handler's address is a parameter, \<open>handlers\<close>: what
  running it does to the kernel, or \<open>None\<close> when it does not come back.
\<close>

section \<open>The built-in commands\<close>

definition show_lines :: "string list \<Rightarrow> kernel \<Rightarrow> kernel" where
  "show_lines ls k = fold (\<lambda>l. put_screen (terminal_writeln (chars l))) ls k"

definition say :: "string \<Rightarrow> kernel \<Rightarrow> kernel" where
  "say s = put_screen (terminal_write (chars s))"

definition show_newline :: "kernel \<Rightarrow> kernel" where
  "show_newline = put_screen (terminal_write_char 10)"

definition show_uint :: "u32 \<Rightarrow> kernel \<Rightarrow> kernel" where
  "show_uint value = put_screen (terminal_write_uint value)"

definition show_uint64 :: "u64 \<Rightarrow> kernel \<Rightarrow> kernel" where
  "show_uint64 value = put_screen (terminal_write_uint64 value)"

definition shell_print_help :: "kernel \<Rightarrow> kernel" where
  "shell_print_help = show_lines
     [''help      Show built-in commands'',
      ''about     Describe SNSX ExOS'',
      ''system    Print boot and kernel facts'',
      ''memory    Show memory manager status'',
      ''storage   Show disk and app volume status'',
      ''apps      List native SNSX app packages'',
      ''launch X  Load and run an ELF app from disk'',
      ''uptime    Show timer ticks since boot'',
      ''services  Show active kernel subsystems'',
      ''learn     Show the education-platform integration vision'',
      ''drivers   Show current and planned hardware support'',
      ''network   Show networking and Wi-Fi roadmap'',
      ''roadmap   Show the next engineering phases'',
      ''clear     Reset the shell area'',
      ''reboot    Restart the machine'',
      ''echo ...  Print text back'']"

definition shell_print_about :: "kernel \<Rightarrow> kernel" where
  "shell_print_about = show_lines
     [''SNSX ExOS is a clean-room operating-system foundation built inside this repo.'',
      ''It boots through a custom sector chain, enters 64-bit long mode, and runs an'',
      ''Aurora-branded terminal shell on top of a custom kernel instead of Linux.'']"

definition shell_print_system :: "BootInfo option \<Rightarrow> kernel \<Rightarrow> kernel" where
  "shell_print_system active_boot_info k =
     (let k1 = show_lines [''Custom BIOS path''] (say ''Boot mode        : '' k);
          k2 = show_lines [''Aurora Core x64 0.1''] (say ''Kernel identity  : '' k1);
          k3 = say ''Mapped memory    : '' k2;
          k4 = (case active_boot_info of
                  Some info \<Rightarrow> show_lines ['' MiB''] (show_uint (mapped_memory_mb info) k3)
                | None \<Rightarrow> show_lines [''unknown''] k3)
      in case active_boot_info of
           Some info \<Rightarrow>
             if magic info = SNSX_BOOTINFO_MAGIC then
               (let k5 = show_newline (put_screen (terminal_write_hex8 (boot_drive info))
                           (say ''Boot drive       : '' k4));
                    k6 = show_newline (show_uint (stage2_sectors info) (say ''Stage2 sectors   : '' k5));
                    k7 = show_newline (show_uint (kernel_sectors info) (say ''Kernel sectors   : '' k6));
                    k8 = show_newline (put_screen (terminal_write_hex32 (boot_flags info))
                           (say ''Boot flags       : '' k7));
                    k9 = show_newline (show_uint (boot_appfs_lba info) (say ''AppFS LBA        : '' k8))
                in show_newline (show_uint (boot_appfs_sectors info) (say ''AppFS sectors    : '' k9)))
             else show_lines [''Boot info        : unavailable''] k4
         | None \<Rightarrow> show_lines [''Boot info        : unavailable''] k4)"

definition show_kib :: "string \<Rightarrow> u64 \<Rightarrow> kernel \<Rightarrow> kernel" where
  "show_kib label value k = show_lines ['' KiB''] (show_uint64 (value div 1024) (say label k))"

definition shell_print_memory :: "kernel \<Rightarrow> kernel option" where
  "shell_print_memory k =
     (let mm = pages (store k);
          k1 = show_kib ''Total memory     : '' (memory_total_bytes mm) k;
          k2 = show_kib ''Used memory      : '' (memory_used_bytes mm) k1;
          k3 = show_kib ''Free memory      : '' (memory_free_bytes mm) k2;
          k4 = show_kib ''Kernel heap      : '' (memory_heap_bytes mm) k3
      in do { free_bytes \<leftarrow> memory_heap_free_bytes (mm, kram k4);
              Some (show_kib ''Heap free        : '' free_bytes k4) })"

definition shell_print_storage :: "kernel \<Rightarrow> kernel" where
  "shell_print_storage k =
     (let k1 = show_lines [''Disk subsystem   : ATA PIO block driver''] k;
          k2 = show_newline (show_uint (runtime_storage_lba k1) (say ''App volume LBA   : '' k1));
          k3 = show_newline (show_uint (runtime_storage_sectors k2) (say ''App volume secs  : '' k2))
      in show_newline (show_uint (runtime_app_count k3) (say ''Catalog entries  : '' k3)))"

partial_function (option) shell_print_apps_from :: "u32 \<Rightarrow> kernel \<Rightarrow> kernel option" where
  "shell_print_apps_from index k =
     (if index < runtime_app_count k then
        do { k1 \<leftarrow> show_text (runtime_app_name index k) (say ''- '' k);
             shell_print_apps_from (index + 1)
               (show_lines ['' bytes)''] (show_uint (runtime_app_size index k1) (say '' ('' k1))) }
      else Some k)"

definition shell_print_apps :: "kernel \<Rightarrow> kernel option" where
  "shell_print_apps k =
     (if \<not> runtime_is_ready k then Some (show_lines [''Native app catalog is not available.''] k)
      else shell_print_apps_from 0 (show_lines [''Installed SNSX applications:''] k))"

definition shell_print_uptime :: "kernel \<Rightarrow> kernel" where
  "shell_print_uptime k =
     (let k1 = show_newline (show_uint64 (pit_ticks (clock k)) (say ''Ticks            : '' k))
      in show_lines ['' Hz''] (show_uint (pit_frequency_hz (clock k1)) (say ''Timer frequency  : '' k1)))"

definition shell_print_services :: "kernel \<Rightarrow> kernel" where
  "shell_print_services = show_lines
     [''Aurora Terminal  : online'',
      ''Memory Manager   : page allocator + heap'',
      ''PIT Timer        : online'',
      ''ATA Storage      : online'',
      ''AppFS Catalog    : online'',
      ''ELF Runtime      : online'',
      ''Input Service    : PS/2 keyboard online'']"

definition shell_print_learn :: "kernel \<Rightarrow> kernel" where
  "shell_print_learn = show_lines
     [''EduVerse Bridge vision:'',
      ''1. Native file and package layer for lessons, notes, and local AI modules.'',
      ''2. Native app runtime for teacher, student, and admin experiences.'',
      ''3. Graphics compositor and audio stack for immersive education tools.'']"

definition shell_print_drivers :: "kernel \<Rightarrow> kernel" where
  "shell_print_drivers = show_lines
     [''Working now:'',
      ''- BIOS disk bootstrap'',
      ''- VGA text console'',
      ''- PS/2 keyboard input'',
      ''- PIT hardware timer'',
      ''- Serial logging on COM1'',
      ''- ATA PIO boot-disk access'',
      ''Planned next:'',
      ''- PCI discovery and storage drivers'',
      ''- USB host stack'',
      ''- VirtIO and e1000 networking'',
      ''- Wi-Fi and Bluetooth controller support'']"

definition shell_print_network :: "kernel \<Rightarrow> kernel" where
  "shell_print_network = show_lines
     [''Networking in a real custom OS takes several layers:'',
      ''- PCI or platform driver discovery'',
      ''- Ethernet or Wi-Fi device drivers'',
      ''- Packet buffers, ARP, IPv4, ICMP, UDP, TCP'',
      ''- DNS, sockets, security, and wireless management'',
      ''That stack is architected as future work, not falsely claimed as complete.'']"

definition shell_print_roadmap :: "kernel \<Rightarrow> kernel" where
  "shell_print_roadmap = show_lines
     [''Phase 1: process model, syscall boundary, and stronger isolation'',
      ''Phase 2: VFS, package evolution, and richer native apps'',
      ''Phase 3: GUI compositor, windowing, input, audio, and theming'',
      ''Phase 4: Ethernet, Wi-Fi, Bluetooth, and internet-facing services'',
      ''Phase 5: port the education platform into native SNSX ExOS applications'']"

section \<open>Running a command\<close>

text \<open>
  \<open>shell_reboot\<close> turns interrupts off, raises interrupt 0x19, whose handler the processor
  finds in the descriptor table, and then halts in a loop.
\<close>

type_synonym handlers = "u64 \<Rightarrow> kernel \<Rightarrow> kernel option"

datatype 'a outcome = Running 'a | Halted kernel

definition interrupt_default_handler :: "kernel \<Rightarrow> kernel" where
  "interrupt_default_handler k = k"

definition interrupts_disable :: "kernel \<Rightarrow> kernel" where
  "interrupts_disable k = k\<lparr>interrupts_on := False\<rparr>"

definition shell_reboot :: "handlers \<Rightarrow> kernel \<Rightarrow> kernel outcome option" where
  "shell_reboot handlers k =
     (let k1 = interrupts_disable k
      in map_option Halted (handlers (gate_target (idt_table k1 ! 0x19)) k1))"

text \<open>One test of the chain in \<open>shell_execute\<close>: run the command if the line is its name.\<close>

definition on_command :: "bytes \<Rightarrow> string \<Rightarrow> kernel outcome option \<Rightarrow> kernel outcome option \<Rightarrow>
    kernel outcome option" where
  "on_command command name act otherwise =
     do { c \<leftarrow> string_compare (lit command) (lit (chars name));
          if c = 0 then act else otherwise }"

definition shell_execute :: "device \<Rightarrow> programs \<Rightarrow> handlers \<Rightarrow> BootInfo option \<Rightarrow> bytes \<Rightarrow> kernel \<Rightarrow>
    kernel outcome option" where
  "shell_execute dev programs handlers active_boot_info command k =
     on_command command ''help'' (Some (Running (shell_print_help k))) (
     on_command command ''about'' (Some (Running (shell_print_about k))) (
     on_command command ''system'' (Some (Running (shell_print_system active_boot_info k))) (
     on_command command ''memory'' (map_option Running (shell_print_memory k)) (
     on_command command ''storage'' (Some (Running (shell_print_storage k))) (
     on_command command ''apps'' (map_option Running (shell_print_apps k)) (
     on_command command ''uptime'' (Some (Running (shell_print_uptime k))) (
     on_command command ''services'' (Some (Running (shell_print_services k))) (
     on_command command ''learn'' (Some (Running (shell_print_learn k))) (
     on_command command ''drivers'' (Some (Running (shell_print_drivers k))) (
     on_command command ''network'' (Some (Running (shell_print_network k))) (
     on_command command ''roadmap'' (Some (Running (shell_print_roadmap k))) (
     on_command command ''clear'' (Some (Running (put_screen terminal_init k))) (
     on_command command ''reboot'' (shell_reboot handlers k) (
     do { launch \<leftarrow> string_starts_with (lit command) (lit (chars ''launch ''));
          if launch then do {
            (launched, k1) \<leftarrow> runtime_launch dev programs (Literal (drop 7 command)) k;
            Some (Running (if launched
              then show_newline (show_uint (runtime_last_exit_code k1) (say ''App exit code    : '' k1))
              else show_lines [''Launch failed. Check the app name with 'apps'.''] k1)) }
          else do {
            echo \<leftarrow> string_starts_with (lit command) (lit (chars ''echo ''));
            if echo then map_option Running (show_line (Literal (drop 5 command)) k)
            else Some (Running
              (show_lines [''Unknown command. Type 'help' for the command list.''] k)) } }))))))))))))))"

section \<open>The input loop\<close>

text \<open>
  The local variables of \<open>shell_run\<close> and the kernel. One turn of the loop: \<open>cpu_halt\<close> waits
  for an interrupt and changes nothing here.
\<close>

record shell =
  input_buffer :: bytes
  input_length :: nat
  machine :: kernel

definition INPUT_BUFFER_SIZE :: nat where "INPUT_BUFFER_SIZE = 128"

text \<open>The string in the buffer, up to its NUL.\<close>

definition buffer_string :: "bytes \<Rightarrow> bytes" where
  "buffer_string buf = takeWhile (\<lambda>c. c \<noteq> 0) buf"

definition shell_enter :: "device \<Rightarrow> programs \<Rightarrow> handlers \<Rightarrow> BootInfo option \<Rightarrow> shell \<Rightarrow>
    shell outcome option" where
  "shell_enter dev programs handlers active_boot_info s =
     (let buf = (input_buffer s)[input_length s := 0];
          k1 = show_newline (machine s);
          finish = (\<lambda>k. \<lparr>input_buffer = buf, input_length = 0, machine = put_screen terminal_prompt k\<rparr>)
      in if input_length s > 0 then do {
           k2 \<leftarrow> log_text dev (Literal (chars ''[SNSX] command: '')) k1;
           k3 \<leftarrow> log_line dev (Literal (buffer_string buf)) k2;
           res \<leftarrow> shell_execute dev programs handlers active_boot_info (buffer_string buf) k3;
           Some (case res of Running k \<Rightarrow> Running (finish k) | Halted k \<Rightarrow> Halted k) }
         else Some (Running (finish k1)))"

definition shell_turn :: "device \<Rightarrow> programs \<Rightarrow> handlers \<Rightarrow> BootInfo option \<Rightarrow> shell \<Rightarrow>
    shell outcome option" where
  "shell_turn dev programs handlers active_boot_info s0 =
     (let (character, keys1) = keyboard_pop (keys (machine s0));
          s = s0\<lparr>machine := (machine s0)\<lparr>keys := keys1\<rparr>\<rparr>
      in if character = 0 then Some (Running s)
         else if character = 8 then
           Some (Running (if input_length s > 0
             then s\<lparr>input_length := input_length s - 1,
                    machine := put_screen terminal_backspace (machine s)\<rparr>
             else s))
         else if character = 10 then shell_enter dev programs handlers active_boot_info s
         else if input_length s + 1 \<ge> INPUT_BUFFER_SIZE then Some (Running s)
         else Some (Running (s\<lparr>input_buffer := (input_buffer s)[input_length s := character],
                input_length := input_length s + 1,
                machine := put_screen (terminal_write_char character) (machine s)\<rparr>)))"

text \<open>The start of \<open>shell_run\<close>, with the uninitialised buffer as a parameter.\<close>

definition shell_start :: "bytes \<Rightarrow> kernel \<Rightarrow> shell" where
  "shell_start buf k =
     \<lparr>input_buffer = buf, input_length = 0,
      machine = put_screen terminal_prompt
        (show_lines [''SNSX ExOS is ready.'', ''Type 'help' to explore the current kernel features.'', ''''] k)\<rparr>"

end
