(* ===== verification/Shell_Commands.thy ===== *)
theory Shell_Commands
  imports Shell
begin

text \<open>
  The commands of the shell (kernel/src/shell.c): which command a line runs, and that every
  command leaves the screen, the keyboard ring and the cursor ready for the next prompt.
\<close>

section \<open>Which command runs\<close>

lemma on_command_eq:
  assumes "is_cstr (lit cmd) cmd" and "0 \<notin> set (chars name)" "length name < 18446744073709551616"
  shows "on_command cmd name act otherwise = (if cmd = chars name then act else otherwise)"
proof -
  have "is_cstr (lit (chars name)) (chars name)" using assms(2,3) by (simp add: is_cstr_lit)
  from string_compare_eq [OF assms(1) this] show ?thesis by (auto simp: on_command_def)
qed

lemma command_names:
  "0 \<notin> set (chars ''help'')" "0 \<notin> set (chars ''about'')" "0 \<notin> set (chars ''system'')"
  "0 \<notin> set (chars ''memory'')" "0 \<notin> set (chars ''storage'')" "0 \<notin> set (chars ''apps'')"
  "0 \<notin> set (chars ''uptime'')" "0 \<notin> set (chars ''services'')" "0 \<notin> set (chars ''learn'')"
  "0 \<notin> set (chars ''drivers'')" "0 \<notin> set (chars ''network'')" "0 \<notin> set (chars ''roadmap'')"
  "0 \<notin> set (chars ''clear'')" "0 \<notin> set (chars ''reboot'')"
  by (simp_all add: chars_def)

text \<open>The commands without arguments, as a table.\<close>

definition builtins :: "handlers \<Rightarrow> BootInfo option \<Rightarrow> (bytes \<times> (kernel \<Rightarrow> kernel outcome option)) list" where
  "builtins handlers info =
     [(chars ''help'', \<lambda>k. Some (Running (shell_print_help k))),
      (chars ''about'', \<lambda>k. Some (Running (shell_print_about k))),
      (chars ''system'', \<lambda>k. Some (Running (shell_print_system info k))),
      (chars ''memory'', \<lambda>k. map_option Running (shell_print_memory k)),
      (chars ''storage'', \<lambda>k. Some (Running (shell_print_storage k))),
      (chars ''apps'', \<lambda>k. map_option Running (shell_print_apps k)),
      (chars ''uptime'', \<lambda>k. Some (Running (shell_print_uptime k))),
      (chars ''services'', \<lambda>k. Some (Running (shell_print_services k))),
      (chars ''learn'', \<lambda>k. Some (Running (shell_print_learn k))),
      (chars ''drivers'', \<lambda>k. Some (Running (shell_print_drivers k))),
      (chars ''network'', \<lambda>k. Some (Running (shell_print_network k))),
      (chars ''roadmap'', \<lambda>k. Some (Running (shell_print_roadmap k))),
      (chars ''clear'', \<lambda>k. Some (Running (put_screen terminal_init k))),
      (chars ''reboot'', shell_reboot handlers)]"

definition launch_command :: "device \<Rightarrow> programs \<Rightarrow> bytes \<Rightarrow> kernel \<Rightarrow> kernel outcome option" where
  "launch_command dev programs name k =
     map_option (\<lambda>(launched, k1). Running (if launched
         then put_screen (terminal_write (chars ''App exit code    : '' @
                dec_numeral (unat (last_exit_code k1)) @ [10])) k1
         else put_screen (terminal_writeln (chars ''Launch failed. Check the app name with 'apps'.'')) k1))
       (runtime_launch dev programs (Literal name) k)"

lemma say_newline_uint:
  "show_newline (show_uint v (say s k)) = put_screen (terminal_write (chars s @ dec_numeral (unat v) @ [10])) k"
  by (simp add: show_newline_def show_uint_def say_def put_screen_twice write_uint_numeral
      terminal_write_append) (simp add: terminal_write_def)

lemma lit_drop_cstr:
  assumes "is_cstr (lit cmd) cmd"
  shows "is_cstr (lit (drop n cmd)) (drop n cmd)"
  using is_cstr_no_nul [OF assms] is_cstr_length [OF assms]
  by (intro is_cstr_lit) (auto dest: in_set_dropD)

lemma command_chain:
  "foldr (\<lambda>(name, act) rest. if cmd = name then act k else rest) table tail =
     (case map_of table cmd of Some act \<Rightarrow> act k | None \<Rightarrow> tail)"
  by (induction table) auto

lemma starts_with_command:
  assumes "is_cstr (lit cmd) cmd" and "0 \<notin> set p" and "length p = n" and "n < 18446744073709551616"
  shows "string_starts_with (lit cmd) (lit p) = Some (take n cmd = p)"
  using string_starts_with_cstr [OF assms(1) is_cstr_lit [of p]] assms by simp

lemma execute_dispatch:
  assumes "0 \<notin> set cmd" and "length cmd < 18446744073709551616"
  shows "shell_execute dev programs handlers info cmd k =
    (case map_of (builtins handlers info) cmd of
       Some act \<Rightarrow> act k
     | None \<Rightarrow>
         if take 7 cmd = chars ''launch '' then launch_command dev programs (drop 7 cmd) k
         else if take 5 cmd = chars ''echo ''
           then Some (Running (put_screen (terminal_write (drop 5 cmd @ [10])) k))
         else Some (Running (put_screen (terminal_write
                (chars ''Unknown command. Type 'help' for the command list.'' @ [10])) k)))"
proof -
  have c: "is_cstr (lit cmd) cmd" using assms by (rule is_cstr_lit)
  have st: "string_starts_with (lit cmd) (lit (chars ''launch '')) = Some (take 7 cmd = chars ''launch '')"
    "string_starts_with (lit cmd) (lit (chars ''echo '')) = Some (take 5 cmd = chars ''echo '')"
    by (rule starts_with_command [OF c]; simp add: chars_def)+
  have echo: "show_line (Literal (drop 5 cmd)) k = Some (put_screen (terminal_write (drop 5 cmd @ [10])) k)"
    using c_text_cstr [OF lit_drop_cstr [OF c, of 5]] by (simp add: show_line_def terminal_writeln_write)
  have l: "Option.bind (runtime_launch dev programs (Literal name) k) (\<lambda>(launched, k1).
       Some (Running (if launched
         then show_newline (show_uint (runtime_last_exit_code k1) (say ''App exit code    : '' k1))
         else show_lines [''Launch failed. Check the app name with 'apps'.''] k1))) =
       launch_command dev programs name k" for name
    by (cases "runtime_launch dev programs (Literal name) k")
      (auto simp: launch_command_def say_newline_uint runtime_last_exit_code_def show_lines_def)
  have unknown: "show_lines [''Unknown command. Type 'help' for the command list.''] k =
      put_screen (terminal_write (chars ''Unknown command. Type 'help' for the command list.'' @ [10])) k"
    by (simp add: show_lines_def terminal_writeln_write)
  note names = on_command_eq [OF c command_names(1)] on_command_eq [OF c command_names(2)]
    on_command_eq [OF c command_names(3)] on_command_eq [OF c command_names(4)]
    on_command_eq [OF c command_names(5)] on_command_eq [OF c command_names(6)]
    on_command_eq [OF c command_names(7)] on_command_eq [OF c command_names(8)]
    on_command_eq [OF c command_names(9)] on_command_eq [OF c command_names(10)]
    on_command_eq [OF c command_names(11)] on_command_eq [OF c command_names(12)]
    on_command_eq [OF c command_names(13)] on_command_eq [OF c command_names(14)]
  show ?thesis
    unfolding shell_execute_def st bind.bind_lunit l echo unknown option.map command_chain [symmetric]
    by (simp add: names builtins_def)
qed
text \<open>
  C15 (shell_execute_dispatch): a command line that is exactly the name of a command runs that
  command; a line that starts with \<open>launch\<close> and a space launches the rest of the line and
  shows its exit code or the failure; one that starts with \<open>echo\<close> and a space prints the rest;
  any other line, a name with different case or trailing blanks included, only prints that it
  is unknown.
\<close>

theorem shell_execute_dispatch:
  assumes "0 \<notin> set cmd" and "length cmd < 18446744073709551616"
  shows "shell_execute dev programs handlers info cmd k =
    (case map_of (builtins handlers info) cmd of
       Some act \<Rightarrow> act k
     | None \<Rightarrow>
         if take 7 cmd = chars ''launch '' then launch_command dev programs (drop 7 cmd) k
         else if take 5 cmd = chars ''echo ''
           then Some (Running (put_screen (terminal_write (drop 5 cmd @ [10])) k))
         else Some (Running (put_screen (terminal_write
                (chars ''Unknown command. Type 'help' for the command list.'' @ [10])) k)))"
  by (rule execute_dispatch [OF assms])

lemma shell_execute_dispatch_witness:
  "shell_execute ready_uart (\<lambda>_ _ _. None) (\<lambda>_ _. None) None (chars ''echo hi'') demo_kernel =
     Some (Running (put_screen (terminal_write (chars ''hi'' @ [10])) demo_kernel))"
  using shell_execute_dispatch [of "chars ''echo hi''" ready_uart "\<lambda>_ _ _. None" "\<lambda>_ _. None" None demo_kernel]
  by (simp add: chars_def builtins_def)

end
