(* ===== verification/Shell_Session.thy ===== *)
theory Shell_Session
  imports Shell_Commands Keyboard_Interleaving
begin

text \<open>
  A session of the shell (the loop of \<open>shell_run\<close> in kernel/src/shell.c) with the timer and
  keyboard interrupts between its turns: the invariant of the session, and what typed keys do.
\<close>

section \<open>What commands keep\<close>

text \<open>
  \<open>steady k\<close>: the cursor and the ring are well-formed and the header of six rows is reserved.
  \<open>fresh k\<close>: besides, the cursor is at the start of a line, where the prompt goes.
\<close>

definition steady :: "kernel \<Rightarrow> bool" where
  "steady k \<longleftrightarrow> term_ok (screen k) \<and> reserved_rows (screen k) = 6 \<and> ring_ok (keys k)"

definition fresh :: "kernel \<Rightarrow> bool" where
  "fresh k \<longleftrightarrow> steady k \<and> terminal_column (screen k) = 0"

lemma fresh_steady: "fresh k \<Longrightarrow> steady k"
  by (simp add: fresh_def)

lemma steady_write: "steady k \<Longrightarrow> steady (put_screen (terminal_write s) k)"
  using write_effect [of "screen k" s] by (simp add: steady_def term_effect_def)

lemma fresh_write_newline:
  assumes "steady k"
  shows "fresh (put_screen (terminal_write (s @ [10])) k)"
proof -
  have "term_ok (terminal_write s (screen k))"
    using write_effect [of "screen k" s] assms by (simp add: steady_def term_effect_def)
  from newline_refines(3) [OF this] steady_write [OF assms, of "s @ [10]"] show ?thesis
    by (simp add: fresh_def terminal_write_def terminal_write_char_def)
qed

lemma steady_writes [simp]:
  "steady k \<Longrightarrow> steady (say s k)" "steady k \<Longrightarrow> steady (show_uint v k)"
  "steady k \<Longrightarrow> steady (show_uint64 w k)" "steady k \<Longrightarrow> steady (put_screen (terminal_write_hex8 b) k)"
  "steady k \<Longrightarrow> steady (put_screen (terminal_write_hex32 v) k)"
  by (simp_all add: say_def show_uint_def show_uint64_def write_uint_numeral write_uint64_numeral
      write_hex8_numeral write_hex32_numeral steady_write)

lemma fresh_newline [simp]: "steady k \<Longrightarrow> fresh (show_newline k)"
proof -
  have "terminal_write [10] = terminal_write_char 10" by (rule ext) (simp add: terminal_write_def)
  then show "steady k \<Longrightarrow> fresh (show_newline k)"
    using fresh_write_newline [of k "[]"] by (simp add: show_newline_def)
qed

lemma fresh_line: "steady k \<Longrightarrow> fresh (put_screen (terminal_writeln s) k)"
  by (simp add: terminal_writeln_write fresh_write_newline)

lemma fresh_show_lines [simp]: "steady k \<Longrightarrow> ls \<noteq> [] \<Longrightarrow> fresh (show_lines ls k)"
proof (induction ls arbitrary: k rule: induct_list012)
  case (3 a b ls)
  have "show_lines (a # b # ls) k = show_lines (b # ls) (put_screen (terminal_writeln (chars a)) k)"
    by (simp add: show_lines_def)
  with 3 show ?case using fresh_steady [OF fresh_line] by simp
qed (simp_all add: show_lines_def fresh_line)

lemma steady_lines [simp]:
  "steady k \<Longrightarrow> steady (show_newline k)" "steady k \<Longrightarrow> ls \<noteq> [] \<Longrightarrow> steady (show_lines ls k)"
  by (rule fresh_steady, simp)+

lemma fresh_show_kib [simp]:
  "steady k \<Longrightarrow> fresh (show_kib label v k)" "steady k \<Longrightarrow> steady (show_kib label v k)"
  by (simp_all add: show_kib_def)

lemma steady_show_text: "show_text t k = Some k' \<Longrightarrow> steady k \<Longrightarrow> steady k'"
  by (auto simp: show_text_def steady_write split: Option.bind_splits)

lemma steady_ports [simp]: "steady (set_ports tr k) = steady k"
  by (simp add: steady_def)

lemma serial_act_steady: "serial_act f k = Some k' \<Longrightarrow> steady k' = steady k"
  by (auto simp: serial_act_def)

lemma log_steady:
  "log_text dev t k = Some k' \<Longrightarrow> steady k' = steady k"
  "log_line dev t k = Some k' \<Longrightarrow> steady k' = steady k"
  by (auto simp: log_text_def log_line_def serial_act_steady split: Option.bind_splits)

lemma fresh_terminal_init: "steady k \<Longrightarrow> fresh (put_screen terminal_init k)"
  by (simp add: steady_def fresh_def terminal_init_def terminal_draw_header_def terminal_clear_def
      Let_def terminal_set_cursor_def terminal_fill_line_eq fill_lines_eq term_ok_def vga_dims)

lemma fresh_prints:
  assumes "steady k"
  shows "fresh (shell_print_help k)" "fresh (shell_print_about k)" "fresh (shell_print_services k)"
    "fresh (shell_print_learn k)" "fresh (shell_print_drivers k)" "fresh (shell_print_network k)"
    "fresh (shell_print_roadmap k)" "fresh (shell_print_storage k)" "fresh (shell_print_uptime k)"
  using assms
  unfolding shell_print_help_def shell_print_about_def shell_print_services_def shell_print_learn_def
    shell_print_drivers_def shell_print_network_def shell_print_roadmap_def shell_print_storage_def
    shell_print_uptime_def Let_def
  by simp_all

lemma fresh_print_system: "steady k \<Longrightarrow> fresh (shell_print_system info k)"
  unfolding shell_print_system_def Let_def by (cases info) simp_all

lemma fresh_print_memory:
  "shell_print_memory k = Some k' \<Longrightarrow> steady k \<Longrightarrow> fresh k'"
  by (auto simp: shell_print_memory_def Let_def split: Option.bind_splits)

lemma fresh_print_apps_from:
  assumes "shell_print_apps_from i k = Some k'" and "fresh k"
  shows "fresh k'"
proof -
  have "fresh k \<longrightarrow> fresh k'"
  proof (rule shell_print_apps_from.raw_induct [where P = "\<lambda>i k k'. fresh k \<longrightarrow> fresh k'", OF _ assms(1)])
    fix f i k k'
    assume IH: "\<And>i k k'. f i k = Some k' \<Longrightarrow> fresh k \<longrightarrow> fresh k'"
      and eq: "(if i < runtime_app_count k then
        do { k1 \<leftarrow> show_text (runtime_app_name i k) (say ''- '' k);
             f (i + 1) (show_lines ['' bytes)''] (show_uint (runtime_app_size i k1) (say '' ('' k1))) }
        else Some k) = Some k'"
    show "fresh k \<longrightarrow> fresh k'"
    proof (cases "i < runtime_app_count k")
      case True
      with eq obtain k1 where k1: "show_text (runtime_app_name i k) (say ''- '' k) = Some k1"
        "f (i + 1) (show_lines ['' bytes)''] (show_uint (runtime_app_size i k1) (say '' ('' k1))) = Some k'"
        by (auto split: Option.bind_splits)
      from IH [OF k1(2)] steady_show_text [OF k1(1)] show ?thesis by (simp add: fresh_steady)
    qed (use eq in simp)
  qed
  with assms(2) show ?thesis by blast
qed

lemma fresh_print_apps: "shell_print_apps k = Some k' \<Longrightarrow> steady k \<Longrightarrow> fresh k'"
  by (auto simp: shell_print_apps_def split: if_splits elim!: fresh_print_apps_from)

text \<open>
  A launch keeps the kernel steady when the application does: it must leave the cursor, the
  header and the ring well-formed, as one that only calls the runtime's interface does.
\<close>

definition polite :: "device \<Rightarrow> programs \<Rightarrow> bool" where
  "polite dev programs \<longleftrightarrow>
     (\<forall>entry k code k'. programs entry (runtime_api dev) k = Some (code, k') \<longrightarrow> steady k \<longrightarrow> steady k')"

lemma steady_show_line: "show_line t k = Some k' \<Longrightarrow> steady k \<Longrightarrow> steady k'"
  by (auto simp: show_line_def fresh_line fresh_steady split: Option.bind_splits)

lemma steady_ram [simp]: "steady (set_ram m k) = steady k"
  by (simp add: steady_def)

lemma steady_exit_code [simp]: "steady (k\<lparr>last_exit_code := c\<rparr>) = steady k"
  by (simp add: steady_def)

lemma steady_launch:
  assumes "polite dev programs" and "runtime_launch dev programs name k = Some (r, k')" and "steady k"
  shows "steady k'"
  using assms(2,3)
  by (auto simp: runtime_launch_def Let_def log_steady serial_act_steady split: if_splits Option.bind_splits prod.splits
      dest!: log_steady serial_act_steady steady_show_text steady_show_line
      assms(1) [unfolded polite_def, rule_format])

lemma fresh_execute:
  assumes "polite dev programs" and "steady k" and "0 \<notin> set cmd" "length cmd < 18446744073709551616"
    and "shell_execute dev programs handlers info cmd k = Some (Running k')"
  shows "fresh k'"
proof (cases "map_of (builtins handlers info) cmd")
  case None
  have launch: "fresh k'" if l: "launch_command dev programs name k = Some (Running k')" for name
  proof -
    from l obtain r k1 where "runtime_launch dev programs (Literal name) k = Some (r, k1)"
      and k': "k' = (if r then put_screen (terminal_write (chars ''App exit code    : '' @
                dec_numeral (unat (last_exit_code k1)) @ [10])) k1
         else put_screen (terminal_writeln (chars ''Launch failed. Check the app name with 'apps'.'')) k1)"
      by (auto simp: launch_command_def)
    then have "steady k1" using steady_launch [OF assms(1)] assms(2) by blast
    then show ?thesis
      using fresh_write_newline [of k1 "chars ''App exit code    : '' @ dec_numeral (unat (last_exit_code k1))"]
      unfolding k' by (simp add: fresh_line)
  qed
  show ?thesis
    using assms(5) None launch fresh_write_newline [OF assms(2)]
    unfolding execute_dispatch [OF assms(3,4)] by (auto split: if_splits)
next
  case (Some act)
  then have "act k = Some (Running k')" "(cmd, act) \<in> set (builtins handlers info)"
    using assms(5) unfolding execute_dispatch [OF assms(3,4)] by (simp_all add: map_of_SomeD)
  then show ?thesis
    using assms(2) fresh_print_memory [of k k'] fresh_print_apps [of k k']
    by (auto simp: builtins_def fresh_prints fresh_print_system fresh_terminal_init shell_reboot_def Let_def)
qed

section \<open>The session\<close>

definition timer_interrupt :: "kernel \<Rightarrow> kernel" where
  "timer_interrupt k =
     (let (p, tr) = pit_irq_handler (clock k, kports k) in set_ports tr (k\<lparr>clock := p\<rparr>))"

definition keyboard_interrupt :: "device \<Rightarrow> kernel \<Rightarrow> kernel" where
  "keyboard_interrupt dev k =
     (let (kb, tr) = keyboard_irq_handler dev (keys k, kports k) in set_ports tr (k\<lparr>keys := kb\<rparr>))"

text \<open>
  A step of the session is a turn of the loop or, while interrupts are on, one of the two
  interrupts. (How the keyboard interrupt interleaves with the accesses of \<open>keyboard_pop\<close>
  inside a turn is the subject of the theory Keyboard_Interleaving.)
\<close>

inductive shell_step :: "device \<Rightarrow> programs \<Rightarrow> handlers \<Rightarrow> BootInfo option \<Rightarrow> shell \<Rightarrow> shell \<Rightarrow> bool"
  for dev programs handlers info where
  turn: "shell_turn dev programs handlers info s = Some (Running s') \<Longrightarrow>
    shell_step dev programs handlers info s s'"
| timer: "interrupts_on (machine s) \<Longrightarrow>
    shell_step dev programs handlers info s (s\<lparr>machine := timer_interrupt (machine s)\<rparr>)"
| key: "interrupts_on (machine s) \<Longrightarrow>
    shell_step dev programs handlers info s (s\<lparr>machine := keyboard_interrupt dev (machine s)\<rparr>)"

inductive_cases shell_stepE: "shell_step dev programs handlers info s s'"

inductive shell_reach :: "device \<Rightarrow> programs \<Rightarrow> handlers \<Rightarrow> BootInfo option \<Rightarrow> shell \<Rightarrow> shell \<Rightarrow> bool"
  for dev programs handlers info where
  here: "shell_reach dev programs handlers info s s"
| step: "shell_reach dev programs handlers info s t \<Longrightarrow> shell_step dev programs handlers info t u \<Longrightarrow>
    shell_reach dev programs handlers info s u"

definition line_of :: "shell \<Rightarrow> bytes" where
  "line_of s = take (input_length s) (input_buffer s)"

definition session_ok :: "shell \<Rightarrow> bool" where
  "session_ok s \<longleftrightarrow> steady (machine s) \<and> length (input_buffer s) = INPUT_BUFFER_SIZE \<and>
     input_length s < INPUT_BUFFER_SIZE \<and> 0 \<notin> set (line_of s) \<and> 10 \<notin> set (line_of s)"

lemma prompt_fields:
  "terminal_row (terminal_prompt t) = terminal_row t"
  "terminal_column (terminal_prompt t) = terminal_column t + 6"
  "reserved_rows (terminal_prompt t) = reserved_rows t"
  "terminal_color (terminal_prompt t) = terminal_color t"
  by (simp_all add: terminal_prompt_def chars_def)

lemma steady_prompt: "fresh k \<Longrightarrow> steady (put_screen terminal_prompt k)"
  by (simp add: fresh_def steady_def term_ok_def prompt_fields vga_dims)

lemma buffer_string_line:
  assumes "0 \<notin> set (line_of s)" and "length (input_buffer s) = INPUT_BUFFER_SIZE"
    and "input_length s < INPUT_BUFFER_SIZE"
  shows "buffer_string ((input_buffer s)[input_length s := 0]) = line_of s"
proof -
  let ?b = "(input_buffer s)[input_length s := 0]" and ?n = "input_length s"
  have "?b = take ?n ?b @ ?b ! ?n # drop (Suc ?n) ?b"
    using assms(2,3) by (intro id_take_nth_drop) simp
  then have b: "?b = line_of s @ 0 # drop (Suc ?n) (input_buffer s)"
    using assms(2,3) by (simp add: line_of_def)
  have "\<forall>c \<in> set (line_of s). c \<noteq> 0" using assms(1) by auto
  then show ?thesis unfolding buffer_string_def b by (simp add: takeWhile_append2)
qed

section \<open>Typing\<close>

text \<open>
  What a key other than Enter does to the line being typed and to the screen: Backspace takes
  the last character away, any other key is appended and echoed while fewer than 127
  characters are there, and ignored after that.
\<close>

fun type_key :: "u8 \<Rightarrow> bytes \<times> terminal \<Rightarrow> bytes \<times> terminal" where
  "type_key c (line, t) =
     (if c = 8 then (if line = [] then (line, t) else (butlast line, terminal_backspace t))
      else if length line \<ge> 127 then (line, t)
      else (line @ [c], terminal_write_char c t))"

lemma length_line_of:
  "session_ok s \<Longrightarrow> length (line_of s) = input_length s"
  by (simp add: session_ok_def line_of_def)

lemma steady_keys: "ring_ok kb \<Longrightarrow> steady k \<Longrightarrow> steady (k\<lparr>keys := kb\<rparr>)"
  by (simp add: steady_def)

lemma steady_backspace: "steady k \<Longrightarrow> steady (put_screen terminal_backspace k)"
  using backspace_refines(2) [of "screen k"] by (simp add: steady_def term_effect_def)

lemma steady_write_char: "steady k \<Longrightarrow> steady (put_screen (terminal_write_char c) k)"
proof -
  have "terminal_write [c] = terminal_write_char c" by (rule ext) (simp add: terminal_write_def)
  then show "steady k \<Longrightarrow> ?thesis" using steady_write [of k "[c]"] by simp
qed

lemma turn_key:
  assumes ok: "session_ok s" and pend: "pending (keys (machine s)) = c # rest" and c: "c \<noteq> 10"
  obtains s' where "shell_turn dev programs handlers info s = Some (Running s')"
    and "(line_of s', screen (machine s')) = type_key c (line_of s, screen (machine s))"
    and "pending (keys (machine s')) = rest" and "session_ok s'"
    and "machine s' = (machine s)\<lparr>screen := screen (machine s'), keys := keys (machine s')\<rparr>"
proof -
  obtain c' kb where pop: "keyboard_pop (keys (machine s)) = (c', kb)" by fastforce
  have kb: "c' = c" "pending kb = rest" using pending_pop [OF pop] pend by simp_all
  have ring: "ring_ok (keys (machine s))" using ok by (simp add: session_ok_def steady_def)
  have rkb: "ring_ok kb" by (rule ring_ok_pop [OF ring pop])
  have c0: "c \<noteq> 0" using ring pend by (auto simp: ring_ok_def)
  define k where "k = (machine s)\<lparr>keys := kb\<rparr>"
  have k: "steady k" "screen k = screen (machine s)" "keys k = kb"
    using ok rkb by (simp_all add: k_def session_ok_def steady_keys)
  have len: "length (line_of s) = input_length s" by (rule length_line_of [OF ok])
  let ?n = "input_length s" and ?b = "input_buffer s"
  have b: "length ?b = 128" "?n < 128" "0 \<notin> set (line_of s)" "10 \<notin> set (line_of s)"
    using ok by (simp_all add: session_ok_def INPUT_BUFFER_SIZE_def)
  consider (erase) "c = 8" "0 < ?n" | (none) "c = 8" "?n = 0" | (full) "c \<noteq> 8" "127 \<le> ?n"
    | (put) "c \<noteq> 8" "?n < 127" by linarith
  then show thesis
  proof cases
    case erase
    have l: "take (?n - 1) ?b = butlast (line_of s)" using erase b by (simp add: line_of_def butlast_take)
    with erase b k len kb pop c0 steady_backspace [OF k(1)] show thesis
      by (intro that [of "s\<lparr>input_length := ?n - 1, machine := put_screen terminal_backspace k\<rparr>"])
        (auto simp: shell_turn_def session_ok_def line_of_def INPUT_BUFFER_SIZE_def
          k_def put_screen_def dest: in_set_butlastD)
  next
    case none
    with b k len kb pop c0 show thesis
      by (intro that [of "s\<lparr>machine := k\<rparr>"])
        (auto simp: shell_turn_def session_ok_def line_of_def INPUT_BUFFER_SIZE_def k_def)
  next
    case full
    with b k len kb pop c0 c show thesis
      by (intro that [of "s\<lparr>machine := k\<rparr>"])
        (auto simp: shell_turn_def session_ok_def line_of_def INPUT_BUFFER_SIZE_def k_def)
  next
    case put
    have l: "take (?n + 1) (?b[?n := c]) = line_of s @ [c]"
      using put b by (simp add: line_of_def take_Suc_conv_app_nth)
    with put b k len kb pop c0 c steady_write_char [OF k(1), of c] show thesis
      by (intro that [of "s\<lparr>input_buffer := ?b[?n := c], input_length := ?n + 1,
            machine := put_screen (terminal_write_char c) k\<rparr>"])
        (auto simp: shell_turn_def session_ok_def line_of_def INPUT_BUFFER_SIZE_def
          k_def put_screen_def)
  qed
qed

text \<open>A number of turns of the loop, stopping when the machine halts.\<close>

fun shell_turns :: "device \<Rightarrow> programs \<Rightarrow> handlers \<Rightarrow> BootInfo option \<Rightarrow> nat \<Rightarrow> shell \<Rightarrow>
    shell outcome option" where
  "shell_turns dev programs handlers info 0 s = Some (Running s)"
| "shell_turns dev programs handlers info (Suc n) s =
     (case shell_turn dev programs handlers info s of
        Some (Running s') \<Rightarrow> shell_turns dev programs handlers info n s'
      | res \<Rightarrow> res)"

lemma turns_append:
  "shell_turns dev programs handlers info m s = Some (Running s') \<Longrightarrow>
     shell_turns dev programs handlers info (m + n) s = shell_turns dev programs handlers info n s'"
  by (induction m arbitrary: s) (auto split: option.splits outcome.splits)

lemma turns_keys:
  assumes "session_ok s" and "pending (keys (machine s)) = cs @ rest" and "10 \<notin> set cs"
  shows "\<exists>s'. shell_turns dev programs handlers info (length cs) s = Some (Running s') \<and>
    (line_of s', screen (machine s')) = fold type_key cs (line_of s, screen (machine s)) \<and>
    pending (keys (machine s')) = rest \<and> session_ok s' \<and>
    machine s' = (machine s)\<lparr>screen := screen (machine s'), keys := keys (machine s')\<rparr>"
  using assms
proof (induction cs arbitrary: s)
  case Nil
  then show ?case by simp
next
  case (Cons c cs)
  then have "pending (keys (machine s)) = c # cs @ rest" "c \<noteq> 10" by auto
  from turn_key [OF Cons.prems(1) this] obtain s1 where
    t: "shell_turn dev programs handlers info s = Some (Running s1)"
    and l: "(line_of s1, screen (machine s1)) = type_key c (line_of s, screen (machine s))"
    and p: "pending (keys (machine s1)) = cs @ rest" and ok: "session_ok s1"
    and m1: "machine s1 = (machine s)\<lparr>screen := screen (machine s1), keys := keys (machine s1)\<rparr>" by blast
  from Cons.IH [OF ok p] Cons.prems(3) obtain s' where
    t': "shell_turns dev programs handlers info (length cs) s1 = Some (Running s')"
    and l': "(line_of s', screen (machine s')) = fold type_key cs (line_of s1, screen (machine s1))"
    and p': "pending (keys (machine s')) = rest" "session_ok s'"
    and m': "machine s' = (machine s1)\<lparr>screen := screen (machine s'), keys := keys (machine s')\<rparr>" by auto
  have "machine s' = (machine s)\<lparr>screen := screen (machine s'), keys := keys (machine s')\<rparr>"
    by (subst m', subst m1) simp
  with t l t' l' p' show ?case by (intro exI [of _ s']) (simp del: type_key.simps)
qed

lemma turn_enter:
  assumes "session_ok s" and "pending (keys (machine s)) = 10 # rest"
  obtains kb where "ring_ok kb" and "pending kb = rest" and
    "shell_turn dev programs handlers info s =
       shell_enter dev programs handlers info (s\<lparr>machine := (machine s)\<lparr>keys := kb\<rparr>\<rparr>)"
proof -
  obtain c kb where pop: "keyboard_pop (keys (machine s)) = (c, kb)" by fastforce
  have "ring_ok (keys (machine s))" using assms(1) by (simp add: session_ok_def steady_def)
  then have "ring_ok kb" using pop by (rule ring_ok_pop)
  moreover have "c = 10" "pending kb = rest" using pending_pop [OF pop] assms(2) by simp_all
  ultimately show thesis using that pop by (simp add: shell_turn_def)
qed

lemma turn_idle:
  assumes "session_ok s" and "pending (keys (machine s)) = []"
  shows "shell_turn dev programs handlers info s = Some (Running s)"
proof -
  obtain c kb where pop: "keyboard_pop (keys (machine s)) = (c, kb)" by fastforce
  have "c = 0" "kb = keys (machine s)" using pending_pop [OF pop] assms(2) by simp_all
  then show ?thesis using pop by (simp add: shell_turn_def)
qed

lemma enter_runs:
  assumes live: "uart_live dev" and ok: "session_ok s" and line: "line_of s \<noteq> []"
  shows "\<exists>k. emits [10] (crlf (chars ''[SNSX] command: '' @ line_of s @ [10])) (machine s) k \<and>
    shell_enter dev programs handlers info s =
      map_option (\<lambda>res. case res of
          Running k' \<Rightarrow> Running \<lparr>input_buffer = (input_buffer s)[input_length s := 0], input_length = 0,
                           machine = put_screen terminal_prompt k'\<rparr>
        | Halted k' \<Rightarrow> Halted k')
      (shell_execute dev programs handlers info (line_of s) k)"
proof -
  have buf: "buffer_string ((input_buffer s)[input_length s := 0]) = line_of s"
    using ok by (intro buffer_string_line) (simp_all add: session_ok_def)
  have n: "0 < input_length s" using line by (auto simp: line_of_def)
  have nl: "emits [10] [] (machine s) (show_newline (machine s))"
  proof -
    have "terminal_write [10] = terminal_write_char 10" by (rule ext) (simp add: terminal_write_def)
    then show ?thesis using emits_screen [of "[10]" "machine s"] by (simp add: show_newline_def)
  qed
  obtain k2 where k2: "log_text dev (Literal (chars ''[SNSX] command: '')) (show_newline (machine s)) = Some k2"
    "emits [] (crlf (chars ''[SNSX] command: '')) (show_newline (machine s)) k2"
    by (rule log_text_emits [OF live, of "Literal (chars ''[SNSX] command: '')" _
          "chars ''[SNSX] command: ''"]) (simp, rule is_cstr_lit; simp add: chars_def)
  have "length (line_of s) < 18446744073709551616"
    using ok length_line_of [OF ok] by (simp add: session_ok_def INPUT_BUFFER_SIZE_def)
  then have "is_cstr (lit (line_of s)) (line_of s)"
    using ok by (intro is_cstr_lit) (simp_all add: session_ok_def)
  then obtain k3 where k3: "log_line dev (Literal (line_of s)) k2 = Some k3"
    "emits [] (crlf (line_of s @ [10])) k2 k3" using log_line_emits [OF live, of "Literal (line_of s)" k2] by auto
  have "emits [10] (crlf (chars ''[SNSX] command: '' @ line_of s @ [10])) (machine s) k3"
    using emits_trans [OF emits_trans [OF nl k2(2)] k3(2)] by (simp add: crlf_append)
  moreover have "shell_enter dev programs handlers info s =
      map_option (\<lambda>res. case res of
          Running k' \<Rightarrow> Running \<lparr>input_buffer = (input_buffer s)[input_length s := 0], input_length = 0,
                           machine = put_screen terminal_prompt k'\<rparr>
        | Halted k' \<Rightarrow> Halted k')
      (shell_execute dev programs handlers info (line_of s) k3)"
    using n k2(1) k3(1)
    by (cases "shell_execute dev programs handlers info (line_of s) k3")
      (simp_all add: shell_enter_def buf Let_def cong: outcome.case_cong)
  ultimately show ?thesis by blast
qed

section \<open>The invariant\<close>

lemma session_ok_entered:
  assumes "polite dev programs" and ok: "session_ok s"
    and ent: "shell_enter dev programs handlers info s = Some (Running s')"
  shows "session_ok s'"
proof -
  let ?buf = "(input_buffer s)[input_length s := 0]"
  have ns: "steady (show_newline (machine s))" using ok by (simp add: session_ok_def)
  have buf: "buffer_string ?buf = line_of s"
    using ok by (intro buffer_string_line) (simp_all add: session_ok_def)
  have ended: "session_ok \<lparr>input_buffer = ?buf, input_length = 0, machine = put_screen terminal_prompt k\<rparr>"
    if "fresh k" for k
    using ok steady_prompt [OF that] by (simp add: session_ok_def line_of_def INPUT_BUFFER_SIZE_def)
  show ?thesis
  proof (cases "0 < input_length s")
    case True
    with ent obtain k2 k3 k where
      k2: "log_text dev (Literal (chars ''[SNSX] command: '')) (show_newline (machine s)) = Some k2"
      and k3: "log_line dev (Literal (line_of s)) k2 = Some k3"
      and ex: "shell_execute dev programs handlers info (line_of s) k3 = Some (Running k)"
      and s': "s' = \<lparr>input_buffer = ?buf, input_length = 0, machine = put_screen terminal_prompt k\<rparr>"
      by (auto simp: shell_enter_def Let_def buf split: Option.bind_splits outcome.splits)
    have "steady k3" using log_steady(1) [OF k2] log_steady(2) [OF k3] ns by simp
    moreover have "0 \<notin> set (line_of s)" "length (line_of s) < 18446744073709551616"
      using ok length_line_of [OF ok] by (simp_all add: session_ok_def INPUT_BUFFER_SIZE_def)
    ultimately have "fresh k" using fresh_execute [OF assms(1) _ _ _ ex] by blast
    then show ?thesis unfolding s' by (rule ended)
  next
    case False
    then have "s' = \<lparr>input_buffer = ?buf, input_length = 0,
        machine = put_screen terminal_prompt (show_newline (machine s))\<rparr>"
      using ent by (auto simp: shell_enter_def Let_def)
    moreover have "fresh (show_newline (machine s))" using ok by (simp add: session_ok_def)
    ultimately show ?thesis using ended by simp
  qed
qed

lemma session_ok_turn:
  assumes "polite dev programs" and ok: "session_ok s"
    and turn: "shell_turn dev programs handlers info s = Some (Running s')"
  shows "session_ok s'"
proof (cases "pending (keys (machine s))")
  case Nil
  with turn_idle [OF ok] turn ok show ?thesis by simp
next
  case (Cons c rest)
  show ?thesis
  proof (cases "c = 10")
    case True
    obtain kb where kb: "ring_ok kb" "shell_turn dev programs handlers info s =
        shell_enter dev programs handlers info (s\<lparr>machine := (machine s)\<lparr>keys := kb\<rparr>\<rparr>)"
      using turn_enter [OF ok] Cons True by metis
    have "session_ok (s\<lparr>machine := (machine s)\<lparr>keys := kb\<rparr>\<rparr>)"
      using ok kb(1) by (simp add: session_ok_def steady_keys line_of_def)
    from session_ok_entered [OF assms(1) this] turn kb(2) show ?thesis by simp
  next
    case False
    from turn_key [OF ok Cons False] turn show ?thesis by (metis option.inject outcome.inject(1))
  qed
qed

lemma steady_timer: "steady k \<Longrightarrow> steady (timer_interrupt k)"
  by (simp add: timer_interrupt_def pit_irq_handler_def steady_def)

lemma steady_keyboard: "steady k \<Longrightarrow> steady (keyboard_interrupt dev k)"
  using handler_pending(2) [of "keys k"]
  by (auto simp: keyboard_interrupt_def keyboard_irq_handler_def steady_def inb_def Let_def
      split: prod.splits) (metis fst_conv)

lemma session_ok_step:
  assumes "polite dev programs" and "session_ok s" and "shell_step dev programs handlers info s s'"
  shows "session_ok s'"
  using assms(3) session_ok_turn [OF assms(1,2)] assms(2)
  by (elim shell_stepE) (auto simp: session_ok_def steady_timer steady_keyboard line_of_def)

lemma session_ok_start:
  assumes "steady k" and "length buf = INPUT_BUFFER_SIZE"
  shows "session_ok (shell_start buf k)"
  using assms steady_prompt [OF fresh_show_lines [of k "[''SNSX ExOS is ready.'',
      ''Type 'help' to explore the current kernel features.'', '''']"]]
  by (simp add: shell_start_def session_ok_def line_of_def INPUT_BUFFER_SIZE_def)

lemma session_ok_reach:
  assumes "polite dev programs" and "shell_reach dev programs handlers info s t" and "session_ok s"
  shows "session_ok t"
  using assms(2,3) by induction (auto intro: session_ok_step [OF assms(1)])

section \<open>Properties\<close>

text \<open>
  C6 (shell_session_invariant): however the keys and the timer interrupt the session, as long
  as the applications are well-behaved, in every state it reaches the index into the input
  buffer is below 128 before a character or the NUL is stored there, the line holds no NUL and
  no line end, the cursor is in bounds below the six header rows, and the keyboard ring is
  well-formed.
\<close>

theorem shell_session_invariant:
  assumes "polite dev programs" and "steady k" and "length buf = INPUT_BUFFER_SIZE"
    and "shell_reach dev programs handlers info (shell_start buf k) s"
  shows "length (input_buffer s) = 128 \<and> input_length s < 128 \<and>
    0 \<notin> set (line_of s) \<and> 10 \<notin> set (line_of s) \<and>
    term_ok (screen (machine s)) \<and> reserved_rows (screen (machine s)) = 6 \<and>
    ring_ok (keys (machine s))"
  using session_ok_reach [OF assms(1,4) session_ok_start [OF assms(2,3)]]
  by (simp add: session_ok_def steady_def INPUT_BUFFER_SIZE_def)

lemma demo_kernel_steady: "steady demo_kernel"
  using blank_terminal_ok
  by (simp add: steady_def demo_kernel_def blank_terminal_def ring_ok_def keyboard_zero_def
      pending_def pending_count_def)

lemma shell_session_invariant_witness:
  "input_length ((shell_start (replicate 128 0) demo_kernel)
      \<lparr>machine := timer_interrupt (machine (shell_start (replicate 128 0) demo_kernel))\<rparr>) < 128"
proof -
  let ?s = "shell_start (replicate 128 0) demo_kernel"
  have "interrupts_on (machine ?s)"
    by (simp add: shell_start_def show_lines_def demo_kernel_def put_screen_def)
  then have "shell_reach ready_uart (\<lambda>_ _ _. None) (\<lambda>_ _. None) None ?s
      (?s\<lparr>machine := timer_interrupt (machine ?s)\<rparr>)"
    by (rule shell_reach.step [OF shell_reach.here shell_step.timer])
  from shell_session_invariant [OF _ demo_kernel_steady _ this] show ?thesis
    by (simp add: polite_def INPUT_BUFFER_SIZE_def)
qed

text \<open>
  C12 (shell_runs_typed_line): the characters typed up to Enter, with Backspace taking back
  the last one and everything after the 127th ignored, are what \<open>shell_execute\<close> gets: exactly
  that line, after it was echoed, ended and logged. A command that returns is followed by the
  prompt with an empty line; one that halts the machine or never returns ends the session.
\<close>

theorem shell_runs_typed_line:
  assumes "uart_live dev" and "session_ok s" and "pending (keys (machine s)) = cs @ 10 # rest"
    and "10 \<notin> set cs" and "fold type_key cs (line_of s, screen (machine s)) = (line, t)"
    and "line \<noteq> []"
  shows "length line \<le> 127 \<and> (\<exists>kb k buf. pending kb = rest \<and>
    emits [10] (crlf (chars ''[SNSX] command: '' @ line @ [10]))
      ((machine s)\<lparr>screen := t, keys := kb\<rparr>) k \<and>
    shell_turns dev programs handlers info (length cs + 1) s =
      map_option (\<lambda>res. case res of
          Running k' \<Rightarrow> Running \<lparr>input_buffer = buf, input_length = 0, machine = put_screen terminal_prompt k'\<rparr>
        | Halted k' \<Rightarrow> Halted k')
      (shell_execute dev programs handlers info line k))"
proof -
  obtain s1 where t: "shell_turns dev programs handlers info (length cs) s = Some (Running s1)"
    and l: "line_of s1 = line" "screen (machine s1) = t"
    and p: "pending (keys (machine s1)) = 10 # rest" and ok: "session_ok s1"
    and m: "machine s1 = (machine s)\<lparr>screen := t, keys := keys (machine s1)\<rparr>"
    using turns_keys [OF assms(2-4)] assms(5) by fastforce
  obtain kb where kb: "ring_ok kb" "pending kb = rest" "shell_turn dev programs handlers info s1 =
      shell_enter dev programs handlers info (s1\<lparr>machine := (machine s1)\<lparr>keys := kb\<rparr>\<rparr>)"
    by (rule turn_enter [OF ok p])
  let ?s2 = "s1\<lparr>machine := (machine s1)\<lparr>keys := kb\<rparr>\<rparr>"
  have ok2: "session_ok ?s2" using ok kb(1) by (simp add: session_ok_def steady_keys line_of_def)
  have l2: "line_of ?s2 = line" using l(1) by (simp add: line_of_def)
  have m2: "machine ?s2 = (machine s)\<lparr>screen := t, keys := kb\<rparr>" by (subst m) simp
  obtain k where k: "emits [10] (crlf (chars ''[SNSX] command: '' @ line @ [10])) (machine ?s2) k"
    "shell_enter dev programs handlers info ?s2 =
      map_option (\<lambda>res. case res of
          Running k' \<Rightarrow> Running \<lparr>input_buffer = (input_buffer ?s2)[input_length ?s2 := 0], input_length = 0,
                           machine = put_screen terminal_prompt k'\<rparr>
        | Halted k' \<Rightarrow> Halted k')
      (shell_execute dev programs handlers info line k)"
    using enter_runs [OF assms(1) ok2, unfolded l2, OF assms(6)] by blast
  have "shell_turns dev programs handlers info (length cs + 1) s =
      shell_enter dev programs handlers info ?s2"
    unfolding turns_append [OF t] by (simp add: kb(3) split: option.split outcome.split)
  moreover have "length line \<le> 127"
    using length_line_of [OF ok] ok l(1) by (simp add: session_ok_def INPUT_BUFFER_SIZE_def)
  ultimately show ?thesis using kb(2) k m2 by auto
qed

lemma shell_runs_typed_line_witness:
  "\<exists>s'. shell_turns ready_uart (\<lambda>_ _ _. None) (\<lambda>_ _. None) None 8
      \<lparr>input_buffer = replicate 128 0, input_length = 0, machine = demo_kernel\<lparr>keys :=
         fold buffer_push (chars ''echo hi'' @ [10]) (keyboard_init keyboard_zero)\<rparr>\<rparr> =
      Some (Running s') \<and> input_length s' = 0"
proof -
  let ?kb = "fold buffer_push (chars ''echo hi'' @ [10]) (keyboard_init keyboard_zero)"
  let ?s = "\<lparr>input_buffer = replicate 128 0, input_length = 0, machine = demo_kernel\<lparr>keys := ?kb\<rparr>\<rparr>"
  have push: "pending (buffer_push c k) = pending k @ [c] \<and> ring_ok (buffer_push c k)"
    if "ring_ok k" "c \<noteq> 0" "length (pending k) < 255" for c k
    using pending_push [OF that(1), of c] ring_ok_push [OF that(1,2)] that(3) by (simp add: length_pending)
  have pushes: "ring_ok k \<Longrightarrow> 0 \<notin> set cs \<Longrightarrow> length (pending k) + length cs < 255 \<Longrightarrow>
      pending (fold buffer_push cs k) = pending k @ cs \<and> ring_ok (fold buffer_push cs k)" for cs k
  proof (induction cs arbitrary: k)
    case (Cons c cs)
    then show ?case using push [of k c] by simp
  qed simp
  have kb: "pending ?kb = chars ''echo hi'' @ [10]" "ring_ok ?kb"
    using pushes [OF ring_ok_init, of "chars ''echo hi'' @ [10]"] by (simp_all add: chars_def)
  have ok: "session_ok ?s"
    using steady_keys [OF kb(2) demo_kernel_steady]
    by (simp add: session_ok_def line_of_def INPUT_BUFFER_SIZE_def)
  have typed: "fst (fold type_key (chars ''echo hi'') (line_of ?s, screen (machine ?s))) = chars ''echo hi''"
    by (simp add: chars_def line_of_def)
  obtain line t where l: "fold type_key (chars ''echo hi'') (line_of ?s, screen (machine ?s)) = (line, t)"
    by fastforce
  then have line: "line = chars ''echo hi''" using typed by simp
  have p: "pending (keys (machine ?s)) = chars ''echo hi'' @ 10 # []" "10 \<notin> set (chars ''echo hi'')"
    "line \<noteq> []" using kb(1) by (simp_all add: line chars_def)
  have run: "shell_execute ready_uart (\<lambda>_ _ _. None) (\<lambda>_ _. None) None line k =
      Some (Running (put_screen (terminal_write (chars ''hi'' @ [10])) k))" for k
    by (subst execute_dispatch) (simp_all add: line chars_def builtins_def)
  have n: "length (chars ''echo hi'') + 1 = 8" by (simp add: chars_def)
  from shell_runs_typed_line [OF ready_uart_live ok p(1,2) l p(3), where programs = "\<lambda>_ _ _. None"
      and handlers = "\<lambda>_ _. None" and info = None, unfolded n run]
  show ?thesis by auto
qed

end
