(* ===== verification/Shell_Catalogue.thy ===== *)
theory Shell_Catalogue
  imports Shell_Session
begin

text \<open>
  Two commands that show how the parts of the kernel meet (kernel/src/shell.c): \<open>apps\<close> on a
  volume made by the packing tool, and \<open>reboot\<close> on the descriptor table of kernel/src/idt.c.
\<close>

section \<open>The list of applications\<close>

definition app_line :: "host \<Rightarrow> bytes \<times> bytes \<Rightarrow> bytes" where
  "app_line h = (\<lambda>(name, path). chars ''- '' @ take 31 name @ chars '' ('' @
     dec_numeral (length (the (read_file h path))) @ chars '' bytes)'' @ [10])"

lemma stored_entry_at:
  assumes "stored h argv img m af" and "i < length (arg_pairs argv)"
  shows "appfs_entry_at (of_nat i) af m = entry_addr (appfs_image af) i"
    and "(of_nat i :: u32) < appfs_entry_count af m"
proof -
  have n: "length (arg_pairs argv) < 4294967296"
  proof -
    from assms(1) obtain es :: "pack_entry list" and ps :: "bytes list" where
      "length es = length (arg_pairs argv)"
      "length img = 24 + 44 * length es + sum_list (map length ps)" by (rule stored_parts)
    then show ?thesis using assms(1) by (simp add: stored_def)
  qed
  then have u: "unat (of_nat i :: u32) = i" "unat (of_nat (length (arg_pairs argv)) :: u32) = length (arg_pairs argv)"
    using assms(2) by (simp_all add: unat_of_nat)
  have ready: "appfs_is_ready af m" using stored_valid(1) [OF assms(1)] by (simp add: appfs_is_ready_def)
  have hd: "appfs_header af = appfs_image af" using assms(1) by (simp add: stored_def)
  show lt: "(of_nat i :: u32) < appfs_entry_count af m"
    using ready hd u assms(2) stored_valid(2) [OF assms(1)]
    by (simp add: appfs_entry_count_def word_less_nat_alt)
  then have "\<not> hdr_entry_count m (appfs_header af) \<le> of_nat i"
    using ready by (simp add: appfs_entry_count_def not_le)
  moreover have "(ucast (of_nat i :: u32) :: u64) = of_nat i" using n assms(2) by (simp add: ucast_index)
  ultimately show "appfs_entry_at (of_nat i) af m = entry_addr (appfs_image af) i"
    using ready by (simp add: appfs_entry_at_def entry_addr_def sizeof_AppFsHeader_def
        sizeof_AppFsEntry_def mult.commute add.assoc)
qed

lemma list_one_app:
  "show_lines ['' bytes)''] (show_uint v (say '' ('' (put_screen (terminal_write s) (say ''- '' k)))) =
     put_screen (terminal_write (chars ''- '' @ s @ chars '' ('' @ dec_numeral (unat v) @ chars '' bytes)'' @ [10])) k"
  by (simp add: show_lines_def show_uint_def say_def put_screen_twice write_uint_numeral
      terminal_write_append terminal_writeln_write)

lemma put_screen_write_append:
  "put_screen (terminal_write (s @ t)) k = put_screen (terminal_write t) (put_screen (terminal_write s) k)"
proof -
  have "terminal_write (s @ t) = (\<lambda>x. terminal_write t (terminal_write s x))"
    by (rule ext) (rule terminal_write_append)
  then show ?thesis by (simp add: put_screen_twice)
qed

lemma print_apps_from_stored:
  assumes "stored h argv img (kram k) (kvol k)" and "runtime_ready k" and "i \<le> length (arg_pairs argv)"
  shows "shell_print_apps_from (of_nat i) k =
    Some (put_screen (terminal_write (concat (map (app_line h) (drop i (arg_pairs argv))))) k)"
  using assms
proof (induction "length (arg_pairs argv) - i" arbitrary: i k)
  case 0
  then have i: "i = length (arg_pairs argv)" by simp
  have "appfs_entry_count (kvol k) (kram k) = of_nat i"
    using stored_valid(1,2) [OF 0(2)] 0(2) i
    by (simp add: appfs_entry_count_def appfs_is_ready_def stored_def)
  then have "shell_print_apps_from (of_nat i) k = Some k"
    using 0(3) by (subst shell_print_apps_from.simps) (simp add: runtime_app_count_def runtime_is_ready_def)
  then show ?case by (simp add: i put_screen_def terminal_write_def)
next
  case (Suc n)
  let ?e = "entry_addr (appfs_image (kvol k)) i" and ?p = "arg_pairs argv ! i"
  have i: "i < length (arg_pairs argv)" using Suc(2) by simp
  obtain content where c: "read_file h (snd ?p) = Some content"
    "unat (ent_size (kram k) ?e) = length content" by (rule stored_data [OF Suc(3) i]) blast
  note ea = stored_entry_at [OF Suc(3) i] and nm = stored_name [OF Suc(3) i]
  have lt: "(of_nat i :: u32) < runtime_app_count k"
    using ea(2) Suc(4) by (simp add: runtime_app_count_def runtime_is_ready_def)
  have shown: "show_text (runtime_app_name (of_nat i) k) (say ''- '' k) =
      Some (put_screen (terminal_write (take 31 (fst ?p))) (say ''- '' k))"
    using ea(1) nm c_text_cstr [OF nm(1)] by (simp add: runtime_app_name_def show_text_def say_def)
  define k' where "k' = put_screen (terminal_write (app_line h ?p)) k"
  have size: "runtime_app_size (of_nat i) (put_screen f (say s k)) = ent_size (kram k) ?e" for f s
    using ea(1) nm(2) by (simp add: runtime_app_size_def say_def)
  have step: "show_lines ['' bytes)''] (show_uint (ent_size (kram k) ?e) (say '' (''
      (put_screen (terminal_write (take 31 (fst ?p))) (say ''- '' k)))) = k'"
    using c by (simp add: list_one_app k'_def app_line_def split_beta)
  have "shell_print_apps_from (of_nat (Suc i)) k' =
      Some (put_screen (terminal_write (concat (map (app_line h) (drop (Suc i) (arg_pairs argv))))) k')"
    using Suc i by (intro Suc(1)) (simp_all add: k'_def)
  then have "shell_print_apps_from (of_nat i) k =
      Some (put_screen (terminal_write (concat (map (app_line h) (drop (Suc i) (arg_pairs argv))))) k')"
    using lt by (subst shell_print_apps_from.simps) (simp add: shown size step add.commute)
  moreover have "drop i (arg_pairs argv) = ?p # drop (Suc i) (arg_pairs argv)"
    using i by (rule Cons_nth_drop_Suc [symmetric])
  ultimately show ?case by (simp add: k'_def put_screen_write_append)
qed

section \<open>Properties\<close>

text \<open>
  C18 (shell_apps_lists_volume): on a ready volume that the packing tool made, \<open>apps\<close> prints
  the heading and one line per packed file, in the order of the tool's arguments: the name cut
  to 31 characters and the size of the file in bytes. It ends, and nothing but the screen
  changes.
\<close>

theorem shell_apps_lists_volume:
  assumes "stored h argv img (kram k) (kvol k)" and "runtime_ready k"
  shows "shell_print_apps k = Some (put_screen (terminal_write
    (chars ''Installed SNSX applications:'' @ [10] @ concat (map (app_line h) (arg_pairs argv)))) k)"
proof -
  let ?k = "put_screen (terminal_write (chars ''Installed SNSX applications:'' @ [10])) k"
  have "shell_print_apps k = shell_print_apps_from 0 ?k"
    using assms(2) by (simp add: shell_print_apps_def runtime_is_ready_def show_lines_def terminal_writeln_write)
  also have "\<dots> = Some (put_screen (terminal_write (concat (map (app_line h) (arg_pairs argv)))) ?k)"
    using print_apps_from_stored [of h argv img ?k 0] assms by simp
  also have "put_screen (terminal_write (concat (map (app_line h) (arg_pairs argv)))) ?k =
      put_screen (terminal_write ((chars ''Installed SNSX applications:'' @ [10]) @
        concat (map (app_line h) (arg_pairs argv)))) k" by (rule put_screen_write_append [symmetric])
  finally show ?thesis by (simp only: append_assoc)
qed

lemma shell_apps_lists_volume_witness:
  "shell_print_apps demo_kernel = Some (put_screen (terminal_write
     (chars ''Installed SNSX applications:'' @ [10] @ chars ''- demo (124 bytes)'' @ [10])) demo_kernel)"
proof -
  have "stored demo_host demo_argv demo_image (kram demo_kernel) (kvol demo_kernel)"
    using demo_stored by (simp add: demo_kernel_def)
  moreover have "runtime_ready demo_kernel" by (simp add: demo_kernel_def)
  ultimately have "shell_print_apps demo_kernel = Some (put_screen (terminal_write
      (chars ''Installed SNSX applications:'' @ [10] @ concat (map (app_line demo_host) (arg_pairs demo_argv))))
      demo_kernel)" by (rule shell_apps_lists_volume)
  moreover have "dec_numeral 124 = chars ''124''" by (simp add: chars_def dec_numeral.simps)
  then have "concat (map (app_line demo_host) (arg_pairs demo_argv)) = chars ''- demo (124 bytes)'' @ [10]"
    by (simp add: demo_pairs app_line_def read_file_def demo_host_def demo_elf_length chars_def)
  ultimately show ?thesis by simp
qed

text \<open>
  C37 (reboot_never_restarts): the \<open>reboot\<close> command raises interrupt 0x19, the BIOS bootstrap
  call of real mode. With the table \<open>idt_init\<close> built, that vector leads to the default stub,
  whose handler does nothing: the command always ends in a machine that is halted with
  interrupts off, and never restarts.
\<close>

theorem reboot_never_restarts:
  assumes "length idt0 = 256" and "idt_init stub t kb a idt0 = (idt, p)" and "idt_table k = idt"
    and "handlers stub = (\<lambda>k. Some (interrupt_default_handler k))"
  shows "shell_execute dev programs handlers info (chars ''reboot'') k =
    Some (Halted (k\<lparr>interrupts_on := False\<rparr>))"
proof -
  have "gate_target (idt ! 0x19) = stub" using idt_gates [OF assms(1,2)] by simp
  then have "shell_reboot handlers k = Some (Halted (k\<lparr>interrupts_on := False\<rparr>))"
    using assms(3,4) by (simp add: shell_reboot_def interrupts_disable_def interrupt_default_handler_def)
  then show ?thesis by (subst execute_dispatch) (simp_all add: chars_def builtins_def)
qed

lemma reboot_never_restarts_witness:
  "shell_execute ready_uart (\<lambda>_ _ _. None) (\<lambda>addr k. if addr = 0x10000 then Some k else None) None
     (chars ''reboot'')
     (demo_kernel\<lparr>idt_table := fst (idt_init 0x10000 0x10100 0x10200 0x20000 idt_zero)\<rparr>) =
   Some (Halted (demo_kernel\<lparr>idt_table := fst (idt_init 0x10000 0x10100 0x10200 0x20000 idt_zero),
     interrupts_on := False\<rparr>))"
proof -
  obtain idt p where r: "idt_init 0x10000 0x10100 0x10200 0x20000 idt_zero = (idt, p)" by fastforce
  have "length idt_zero = 256" by (simp add: idt_zero_def)
  from reboot_never_restarts [OF this r, of "demo_kernel\<lparr>idt_table := idt\<rparr>"
      "\<lambda>addr k. if addr = 0x10000 then Some k else None"]
  show ?thesis by (simp add: r interrupt_default_handler_def)
qed

end
