(* ===== verification/Quiet_Ports.thy ===== *)
theory Quiet_Ports
  imports App_Fs Serial Pit Pic
begin

text \<open>
  Port traffic that sends nothing on the serial line: the disk driver, the interrupt
  controller and the timer (kernel/src/ata.c, pic.c, pit.c). What the boot logs is then only
  what it prints.
\<close>

definition quiet :: "history \<Rightarrow> history \<Rightarrow> bool" where
  "quiet tr tr' \<longleftrightarrow> extends tr tr' \<and> out_bytes COM1_PORT tr' = out_bytes COM1_PORT tr"

lemma quiet_refl [simp]: "quiet tr tr"
  by (simp add: quiet_def)

lemma quiet_trans [trans]: "quiet a b \<Longrightarrow> quiet b c \<Longrightarrow> quiet a c"
  by (auto simp: quiet_def intro: extends_trans)

lemma quiet_append: "out_bytes COM1_PORT ev = [] \<Longrightarrow> quiet tr (tr @ ev)"
  by (simp add: quiet_def extends_def)

lemma quiet_outb [simp]: "p \<noteq> COM1_PORT \<Longrightarrow> quiet tr (outb p v tr)"
  unfolding outb_def by (rule quiet_append) simp

lemma quiet_poll [simp]: "quiet tr (poll_once dev tr)"
  unfolding poll_once_def by (rule quiet_append) simp

lemma quiet_spin_not_busy: "ata_spin_not_busy n dev tr = (ok, tr') \<Longrightarrow> quiet tr tr'"
proof (induction n arbitrary: tr)
  case (Suc n)
  then show ?case using quiet_trans [OF quiet_poll]
    by (auto simp: ata_spin_not_busy_Suc split: if_splits)
qed simp

lemma quiet_spin_for_data: "ata_spin_for_data n dev tr = (ok, tr') \<Longrightarrow> quiet tr tr'"
proof (induction n arbitrary: tr)
  case (Suc n)
  then show ?case using quiet_trans [OF quiet_poll]
    by (auto simp: ata_spin_for_data_Suc split: if_splits)
qed simp

lemma quiet_ata_init:
  assumes "ata_init dev tr = (ok, tr')"
  shows "quiet tr tr'"
proof -
  have "quiet tr (outb ATA_PRIMARY_CTRL 0 tr)" by (simp add: ata_regs COM1_PORT_def)
  also have "quiet (outb ATA_PRIMARY_CTRL 0 tr) tr'"
    using assms by (simp add: ata_init_def ata_wait_not_busy_def quiet_spin_not_busy)
  finally show ?thesis .
qed

lemma quiet_read_words: "fold (ata_read_word dev data) ws (m, tr) = (m', tr') \<Longrightarrow> quiet tr tr'"
proof (induction ws arbitrary: m tr)
  case (Cons w ws)
  obtain m1 tr1 where 1: "ata_read_word dev data w (m, tr) = (m1, tr1)" by fastforce
  then have "quiet tr tr1"
    by (auto simp: ata_read_word_def inw_def Let_def intro!: quiet_append)
  with Cons 1 show ?case by (auto intro: quiet_trans)
qed simp

lemma quiet_read_sectors:
  "ata_read_sectors dev n data (m, tr) = (ok, data', m', tr') \<Longrightarrow> quiet tr tr'"
proof (induction n arbitrary: data m tr)
  case (Suc n)
  obtain ok1 tr1 where w: "ata_wait_for_data dev tr = (ok1, tr1)" by fastforce
  then have q: "quiet tr tr1" by (simp add: ata_wait_for_data_def quiet_spin_for_data)
  obtain m2 tr2 where f: "fold (ata_read_word dev data) [0..<256] (m, tr1) = (m2, tr2)" by fastforce
  from quiet_trans [OF q quiet_read_words [OF f]] have "quiet tr tr2" .
  with Suc q w f show ?case by (auto split: if_splits intro: quiet_trans)
qed simp

lemma quiet_command: "quiet tr (ata_read_command lba chunk tr)"
proof -
  obtain ev where "ata_read_command lba chunk tr = tr @ ev" "out_bytes COM1_PORT ev = []"
    by (simp add: ata_read_command_def outb_def ata_regs COM1_PORT_def Let_def)
  then show ?thesis by (simp add: quiet_append)
qed

lemma quiet_read_loop:
  "ata_read_loop dev lba remaining data (m, tr) = (ok, m', tr') \<Longrightarrow> quiet tr tr'"
proof (induction "unat remaining" arbitrary: lba remaining data m tr rule: less_induct)
  case less
  show ?case
  proof (cases "remaining = 0")
    case True
    with less.prems show ?thesis by (subst (asm) ata_read_loop.simps) simp
  next
    case False
    then have "0 < unat remaining" by (simp add: unat_gt_0)
    then have dec: "unat (remaining - ucast (ata_chunk remaining)) < unat remaining"
      by (simp add: unat_sub_chunk)
    obtain ok1 tr1 where w: "ata_wait_not_busy dev tr = (ok1, tr1)" by fastforce
    then have q: "quiet tr tr1" by (simp add: ata_wait_not_busy_def quiet_spin_not_busy)
    obtain ok2 data2 m2 tr2 where s: "ata_read_sectors dev (unat (ata_chunk remaining)) data
        (m, ata_read_command lba (ata_chunk remaining) tr1) = (ok2, data2, m2, tr2)" by (metis prod.exhaust)
    from quiet_trans [OF q quiet_trans [OF quiet_command quiet_read_sectors [OF s]]] have q2: "quiet tr tr2" .
    have "remaining > 0" using False by (simp add: word_neq_0_conv)
    with less.prems w s have "ata_read_loop dev lba remaining data (m, tr) =
        (if \<not> ok1 then (False, m, tr1) else if \<not> ok2 then (False, m2, tr2)
         else ata_read_loop dev (lba + ucast (ata_chunk remaining))
           (remaining - ucast (ata_chunk remaining)) data2 (m2, tr2))"
      by (subst ata_read_loop.simps) (simp add: Let_def)
    with less.prems q q2 less.hyps [OF dec] show ?thesis
      by (auto split: if_splits intro: quiet_trans)
  qed
qed

lemma quiet_ata_read:
  "ata_read dev ready lba n buffer (m, tr) = (ok, m', tr') \<Longrightarrow> quiet tr tr'"
  by (auto simp: ata_read_def quiet_read_loop split: if_splits)

lemma quiet_appfs_init: "appfs_init dev info s = (ready, s') \<Longrightarrow> quiet (ports s) (ports s')"
  by (auto simp: appfs_init_def Let_def
      dest!: quiet_ata_init quiet_ata_read intro: quiet_trans
      split: option.splits prod.splits if_splits)

lemma quiet_pic:
  "quiet tr (pic_remap dev tr)" "quiet tr (pic_set_masks mm sm tr)"
  by (simp_all add: pic_remap_history pic_set_masks_history remap_writes_def Let_def COM1_PORT_def
      quiet_append)

lemma quiet_pit: "f \<noteq> 0 \<Longrightarrow> pit_init f (p, tr) = (p', tr') \<Longrightarrow> quiet tr tr'"
  by (auto simp: pit_init_result programmed_divisor_def COM1_PORT_def intro!: quiet_append)


section \<open>Port traffic that does not reach the disk\<close>

text \<open>The ports of the interrupt controllers, of the delay write, and of the timer.\<close>

definition chipset_ports :: "u16 set" where
  "chipset_ports = {0x20, 0x21, 0xA0, 0xA1, 0x80, 0x40, 0x43}"

lemma pic_chipset:
  "only_ports chipset_ports tr (pic_remap dev tr)"
  "only_ports chipset_ports tr (pic_set_masks mm sm tr)"
  by (simp_all add: pic_remap_history pic_set_masks_history remap_writes_def Let_def
      only_ports_append chipset_ports_def)

lemma pit_chipset:
  assumes "f \<noteq> 0" and "pit_init f (p, tr) = (p', tr')"
  shows "only_ports chipset_ports tr tr'"
proof -
  have "tr' = tr @ [Out8 0x43 0x36] @ map (Out8 0x40) (programmed_divisor (ucast (PIT_BASE_FREQUENCY div f)))"
    using assms by (simp add: pit_init_result)
  then show ?thesis by (auto simp: only_ports_def chipset_ports_def)
qed

lemma drive_untouched:
  "uart_only tr tr' \<Longrightarrow> drive_after tr' = drive_after tr"
  "only_ports chipset_ports tr tr' \<Longrightarrow> drive_after tr' = drive_after tr"
  by (auto elim!: drive_after_elsewhere simp: uart_ports_def chipset_ports_def ata_ports_def)

end
