(* ===== verification/Kernel_Main.thy ===== *)
theory Kernel_Main
  imports Shell_Catalogue Quiet_Ports
begin

text \<open>
  The entry of the kernel, kernel/src/main.c: the order in which the subsystems are brought
  up. What the linker and the assembly stubs provide (the end of the kernel image, the
  addresses of the table and of the three stubs) are parameters, collected in \<open>linked\<close>.
\<close>

section \<open>kmain\<close>

record linked =
  kernel_end :: u64
  idt_address :: u64
  default_stub :: u64
  timer_stub :: u64
  keyboard_stub :: u64

definition interrupts_enable :: "kernel \<Rightarrow> kernel" where
  "interrupts_enable k = k\<lparr>interrupts_on := True\<rparr>"

definition boot_info_line :: "BootInfo option \<Rightarrow> string" where
  "boot_info_line boot_info =
     (case boot_info of
        Some info \<Rightarrow> if magic info = SNSX_BOOTINFO_MAGIC then ''[SNSX] boot info accepted''
                     else ''[SNSX] boot info missing or invalid''
      | None \<Rightarrow> ''[SNSX] boot info missing or invalid'')"

text \<open>The calls from \<open>memory_init\<close> to \<open>keyboard_init\<close>, which neither print nor fail.\<close>

definition init_devices :: "device \<Rightarrow> linked \<Rightarrow> BootInfo option \<Rightarrow> kernel \<Rightarrow> kernel" where
  "init_devices dev lnk boot_info k =
     (let (mm, m) = memory_init boot_info (kernel_end lnk) (pages (store k), kram k);
          k1 = k\<lparr>store := (store k)\<lparr>pages := mm, ram := m\<rparr>\<rparr>;
          (table, descriptor) = idt_init (default_stub lnk) (timer_stub lnk) (keyboard_stub lnk)
             (idt_address lnk) (idt_table k1);
          k2 = k1\<lparr>idt_table := table\<rparr>;
          k3 = set_ports (pic_remap dev (kports k2)) k2;
          k4 = set_ports (pic_set_masks 0xFC 0xFF (kports k3)) k3;
          (p, tr) = pit_init 100 (clock k4, kports k4);
          k5 = set_ports tr (k4\<lparr>clock := p\<rparr>)
      in k5\<lparr>keys := keyboard_init (keys k5)\<rparr>)"

definition kmain :: "device \<Rightarrow> programs \<Rightarrow> linked \<Rightarrow> BootInfo option \<Rightarrow> bytes \<Rightarrow> kernel \<Rightarrow> shell option" where
  "kmain dev programs lnk boot_info buf k =
     do { let k1 = set_ports (serial_init (kports k)) k;
          k2 \<leftarrow> log_line dev (Literal (chars ''[SNSX] serial online'')) k1;
          let k3 = show_lines [''Aurora Terminal is live.'',
             ''Boot pipeline: stage1 -> stage2 -> Aurora Core -> shell.'', ''''] (put_screen terminal_init k2);
          k4 \<leftarrow> log_line dev (Literal (chars (boot_info_line boot_info))) k3;
          let (ready, k5) = runtime_init dev boot_info (init_devices dev lnk boot_info k4);
          k6 \<leftarrow> log_line dev (Literal (chars (if ready then ''[SNSX] runtime catalog loaded''
                  else ''[SNSX] runtime catalog unavailable''))) k5;
          let k7 = interrupts_enable k6;
          k8 \<leftarrow> log_line dev (Literal (chars ''[SNSX] keyboard, timer, and shell ready'')) k7;
          k9 \<leftarrow> runtime_autorun dev programs k8;
          Some (shell_start buf k9) }"

section \<open>What has happened when the shell takes over\<close>

lemma init_devices_facts:
  assumes "memory_init boot_info (kernel_end lnk) (pages (store k), kram k) = (mm, m)"
    and "idt_init (default_stub lnk) (timer_stub lnk) (keyboard_stub lnk) (idt_address lnk)
      (idt_table k) = (table, descriptor)"
  obtains tr p where "init_devices dev lnk boot_info k =
      k\<lparr>store := (store k)\<lparr>pages := mm, ram := m, ports := tr\<rparr>, idt_table := table,
        clock := p, keys := keyboard_init (keys k)\<rparr>"
    and "pit_frequency_hz p = 100" and "pit_ticks p = pit_ticks (clock k)" and "quiet (kports k) tr"
    and "drive_after tr = drive_after (kports k)"
proof -
  let ?tr1 = "pic_set_masks 0xFC 0xFF (pic_remap dev (kports k))"
  obtain p tr where pit: "pit_init 100 (clock k, ?tr1) = (p, tr)" by fastforce
  have "quiet (kports k) tr"
    by (rule quiet_trans [OF quiet_trans [OF quiet_pic(1) quiet_pic(2)] quiet_pit [OF _ pit]]) simp
  moreover have "only_ports chipset_ports (kports k) tr"
    by (rule only_ports_trans [OF only_ports_trans [OF pic_chipset(1) pic_chipset(2)]
          pit_chipset [OF _ pit]]) simp
  then have "drive_after tr = drive_after (kports k)" by (rule drive_untouched(2))
  moreover have "pit_frequency_hz p = 100" "pit_ticks p = pit_ticks (clock k)"
    using pit by (auto simp: pit_init_result pit_frequency_hz_def pit_ticks_def)
  moreover have "init_devices dev lnk boot_info k =
      k\<lparr>store := (store k)\<lparr>pages := mm, ram := m, ports := tr\<rparr>, idt_table := table,
        clock := p, keys := keyboard_init (keys k)\<rparr>"
    using pit by (simp add: init_devices_def assms set_ports_def)
  ultimately show thesis using that by blast
qed

text \<open>What is on the screen and in the log before the first application is run.\<close>

definition boot_screen :: bytes where
  "boot_screen = chars ''Aurora Terminal is live.'' @ [10] @
     chars ''Boot pipeline: stage1 -> stage2 -> Aurora Core -> shell.'' @ [10, 10]"

definition boot_log :: "BootInfo option \<Rightarrow> bool \<Rightarrow> bytes" where
  "boot_log boot_info ready = crlf (chars ''[SNSX] serial online'' @ [10]) @
     crlf (chars (boot_info_line boot_info) @ [10]) @
     crlf (chars (if ready then ''[SNSX] runtime catalog loaded'' else ''[SNSX] runtime catalog unavailable'') @ [10]) @
     crlf (chars ''[SNSX] keyboard, timer, and shell ready'' @ [10])"

text \<open>A line of the log whose text is a literal of the source.\<close>

lemma log_literal:
  assumes "uart_live dev" and "0 \<notin> set (chars l)" and "length l < 1000"
  obtains k' where "log_line dev (Literal (chars l)) k = Some k'"
    and "emits [] (crlf (chars l @ [10])) k k'"
proof -
  have "is_cstr (text_at (Literal (chars l)) (kram k)) (chars l)"
    using assms(2,3) by (simp add: is_cstr_lit chars_def)
  from log_line_emits [OF assms(1) this] show thesis using that by blast
qed

lemma boot_lines_ok:
  "0 \<notin> set (chars ''[SNSX] serial online'')" "0 \<notin> set (chars (boot_info_line boot_info))"
  "length (boot_info_line boot_info) < 1000"
  "0 \<notin> set (chars ''[SNSX] runtime catalog loaded'')"
  "0 \<notin> set (chars ''[SNSX] runtime catalog unavailable'')"
  "0 \<notin> set (chars ''[SNSX] keyboard, timer, and shell ready'')"
  by (simp_all add: chars_def boot_info_line_def split: option.split)

lemma boot_show:
  "show_lines [''Aurora Terminal is live.'', ''Boot pipeline: stage1 -> stage2 -> Aurora Core -> shell.'', '''']
     k = put_screen (terminal_write boot_screen) k"
  by (simp add: show_lines_def terminal_writeln_write boot_screen_def chars_def
      flip: put_screen_write_append)

text \<open>
  The whole of \<open>kmain\<close> up to the call of \<open>runtime_autorun\<close>, from the results of
  \<open>memory_init\<close>, \<open>idt_init\<close> and \<open>appfs_init\<close>.
\<close>

definition boot_storage :: "kernel \<Rightarrow> memory_state \<Rightarrow> mem \<Rightarrow> history \<Rightarrow> storage" where
  "boot_storage k mm m tr = (store k)\<lparr>pages := mm, ram := m, ports := tr\<rparr>"

lemma kmain_boot:
  assumes live: "uart_live dev"
    and mem: "memory_init boot_info (kernel_end lnk) (pages (store k), kram k) = (mm, m)"
    and idt: "idt_init (default_stub lnk) (timer_stub lnk) (keyboard_stub lnk) (idt_address lnk)
      (idt_table k) = (table, descriptor)"
  obtains tr s ready k8 where "appfs_init dev boot_info (boot_storage k mm m tr) = (ready, s)"
    and "\<And>programs buf. kmain dev programs lnk boot_info buf k =
      do { k9 \<leftarrow> runtime_autorun dev programs k8; Some (shell_start buf k9) }"
    and "screen k8 = terminal_write boot_screen (terminal_init (screen k))"
    and "pit_frequency_hz (clock k8) = 100" and "pit_ticks (clock k8) = pit_ticks (clock k)" and "keys k8 = keyboard_init (keys k)"
    and "kram k8 = ram s" and "kvol k8 = volume s" and "pages (store k8) = pages s"
    and "idt_table k8 = table" and "interrupts_on k8" and "runtime_ready k8 = ready"
    and "last_exit_code k8 = last_exit_code k"
    and "out_bytes COM1_PORT (kports k8) =
      out_bytes COM1_PORT (serial_init (kports k)) @ boot_log boot_info ready"
    and "drive_after tr = drive_after (kports k)"
proof -
  note lits = log_literal [OF live]
  define k1 where "k1 = set_ports (serial_init (kports k)) k"
  obtain k2 where 2: "log_line dev (Literal (chars ''[SNSX] serial online'')) k1 = Some k2"
    "emits [] (crlf (chars ''[SNSX] serial online'' @ [10])) k1 k2"
    by (rule lits [OF boot_lines_ok(1), of k1]) simp_all
  define k3 where "k3 = put_screen (terminal_write boot_screen) (put_screen terminal_init k2)"
  obtain k4 where 4: "log_line dev (Literal (chars (boot_info_line boot_info))) k3 = Some k4"
    "emits [] (crlf (chars (boot_info_line boot_info) @ [10])) k3 k4"
    by (rule lits [OF boot_lines_ok(2,3), of boot_info k3]) simp_all
  note e2 = emits_keeps [OF 2(2)] and e4 = emits_keeps [OF 4(2)]
  have st4: "clock k4 = clock k" "pages (store k4) = pages (store k)" "kram k4 = kram k" "kvol k4 = kvol k"
    "idt_table k4 = idt_table k" "keys k4 = keys k" "last_exit_code k4 = last_exit_code k"
    "driver_ready (store k4) = driver_ready (store k)"
    using e2 e4 2(2) 4(2) by (auto simp: k1_def k3_def emits_def)
  from mem idt have "memory_init boot_info (kernel_end lnk) (pages (store k4), kram k4) = (mm, m)"
    and "idt_init (default_stub lnk) (timer_stub lnk) (keyboard_stub lnk) (idt_address lnk)
      (idt_table k4) = (table, descriptor)" by (simp_all add: st4)
  from init_devices_facts [OF this] obtain tr p where
    dv: "init_devices dev lnk boot_info k4 = k4\<lparr>store := (store k4)\<lparr>pages := mm, ram := m, ports := tr\<rparr>,
        idt_table := table, clock := p, keys := keyboard_init (keys k4)\<rparr>"
      "pit_frequency_hz p = 100" "pit_ticks p = pit_ticks (clock k4)" "quiet (kports k4) tr"
      "drive_after tr = drive_after (kports k4)" by blast
  have drive: "drive_after tr = drive_after (kports k)"
    using dv(5) drive_untouched(1) [OF emits_uart [OF 4(2)]] drive_untouched(1) [OF emits_uart [OF 2(2)]]
      drive_untouched(1) [OF serial_init_uart, of "kports k"]
    by (simp add: k1_def k3_def)
  have store4: "(store k4)\<lparr>pages := mm, ram := m, ports := tr\<rparr> = boot_storage k mm m tr"
    using st4 by (cases "store k4"; cases "store k") (simp add: boot_storage_def)
  obtain ready s where af: "appfs_init dev boot_info (boot_storage k mm m tr) = (ready, s)" by fastforce
  define k5 where "k5 = (init_devices dev lnk boot_info k4)\<lparr>store := s, runtime_ready := ready\<rparr>"
  have run5: "runtime_init dev boot_info (init_devices dev lnk boot_info k4) = (ready, k5)"
    by (simp add: runtime_init_def dv(1) store4 af k5_def)
  let ?line = "if ready then ''[SNSX] runtime catalog loaded'' else ''[SNSX] runtime catalog unavailable''"
  obtain k6 where 6: "log_line dev (Literal (chars ?line)) k5 = Some k6"
    "emits [] (crlf (chars ?line @ [10])) k5 k6"
    by (rule lits [of ?line k5]) (auto simp: boot_lines_ok(4,5))
  obtain k8 where 8: "log_line dev (Literal (chars ''[SNSX] keyboard, timer, and shell ready''))
      (interrupts_enable k6) = Some k8"
    "emits [] (crlf (chars ''[SNSX] keyboard, timer, and shell ready'' @ [10])) (interrupts_enable k6) k8"
    by (rule lits [OF boot_lines_ok(6), of "interrupts_enable k6"]) simp_all
  note e6 = emits_keeps [OF 6(2)] and e8 = emits_keeps [OF 8(2)]
  have "kmain dev programs lnk boot_info buf k =
      do { k9 \<leftarrow> runtime_autorun dev programs k8; Some (shell_start buf k9) }" for programs buf
    unfolding kmain_def
    by (simp add: 2(1) 4(1) 6(1) 8(1) run5 boot_show Let_def flip: k1_def k3_def)
  moreover have "quiet tr (ports s)" using quiet_appfs_init [OF af] by (simp add: boot_storage_def)
  then have "out_bytes COM1_PORT (kports k8) =
      out_bytes COM1_PORT (serial_init (kports k)) @ boot_log boot_info ready"
    using e2 e4 e6 e8 dv(4)
    by (simp add: boot_log_def k1_def k3_def k5_def interrupts_enable_def quiet_def)
  ultimately show thesis
    using that [OF af, of k8] e2 e4 e6 e8 dv st4 drive
    by (simp add: k1_def k3_def k5_def interrupts_enable_def terminal_write_def)
qed

section \<open>A boot without applications\<close>

lemma terminal_init_ok:
  "term_ok (terminal_init t)" "reserved_rows (terminal_init t) = 6"
  by (simp_all add: terminal_init_def terminal_draw_header_def terminal_clear_def
      Let_def terminal_set_cursor_def terminal_fill_line_eq fill_lines_eq term_ok_def vga_dims)

lemma steady_booted:
  assumes "screen k = terminal_write s (terminal_init t)" and "ring_ok (keys k)"
  shows "steady k"
  using assms write_effect [OF terminal_init_ok(1), of t s]
  by (simp add: steady_def term_effect_def terminal_init_ok)

lemma ring_ok_keyboard_init:
  "length (keyboard_buffer kb) = KEYBOARD_BUFFER_SIZE \<Longrightarrow> ring_ok (keyboard_init kb)"
  by (simp add: ring_ok_def) (simp add: keyboard_init_def)

text \<open>The three causes for which there is no volume: nothing from the boot loader, or no disk.\<close>

definition no_volume :: "device \<Rightarrow> BootInfo option \<Rightarrow> bool" where
  "no_volume dev boot_info \<longleftrightarrow>
     (case boot_info of None \<Rightarrow> True | Some info \<Rightarrow> boot_appfs_sectors info = 0) \<or>
     (\<forall>tr. status_busy (dev_in8 dev tr 0x1F7))"

lemma appfs_init_no_volume:
  assumes "no_volume dev boot_info"
  shows "\<not> fst (appfs_init dev boot_info s)"
proof (cases "\<forall>tr. status_busy (dev_in8 dev tr 0x1F7)")
  case True
  then have "ata_init dev tr = (False, poll_history dev 100000 (outb ATA_PRIMARY_CTRL 0 tr))" for tr
    using spin_not_busy_timeout [of 100000 dev "outb ATA_PRIMARY_CTRL 0 tr"]
    by (simp add: ata_init_def ata_wait_not_busy_def poll_status_def)
  then show ?thesis by (simp add: appfs_init_def Let_def split: option.split)
next
  case False
  with assms show ?thesis by (auto simp: no_volume_def appfs_init_def split: option.splits)
qed

text \<open>What \<open>shell_run\<close> prints before its first prompt.\<close>

definition welcome_text :: bytes where
  "welcome_text = chars ''SNSX ExOS is ready.'' @ [10] @
     chars ''Type 'help' to explore the current kernel features.'' @ [10, 10]"

lemma shell_start_machine:
  "machine (shell_start buf k) = put_screen terminal_prompt (put_screen (terminal_write welcome_text) k)"
  by (simp add: shell_start_def show_lines_def terminal_writeln_write welcome_text_def chars_def
      flip: put_screen_write_append)

section \<open>Properties\<close>

text \<open>
  C2 (kmain_reaches_shell): on a machine whose serial port works but which has no application
  volume (no boot information, none announced, or a disk that stays busy), the boot always
  ends in the shell, whatever the state the machine was in: the shell's invariant holds, the
  keyboard queue is empty, interrupts are on, the timer runs at 100 Hz, every interrupt vector
  has its gate, and screen and serial log are exactly the texts of the boot.
\<close>

theorem kmain_reaches_shell:
  assumes live: "uart_live dev" and vol: "no_volume dev boot_info"
    and "length buf = INPUT_BUFFER_SIZE" and "length (idt_table k) = 256"
    and "length (keyboard_buffer (keys k)) = KEYBOARD_BUFFER_SIZE"
  shows "\<exists>s. kmain dev programs lnk boot_info buf k = Some s \<and> session_ok s \<and>
    pending (keys (machine s)) = [] \<and> interrupts_on (machine s) \<and>
    pit_frequency_hz (clock (machine s)) = 100 \<and> \<not> runtime_ready (machine s) \<and>
    (\<forall>v < 256. interrupt_gate (idt_table (machine s) ! v) \<and>
       gate_target (idt_table (machine s) ! v) =
         (if v = 32 then timer_stub lnk else if v = 33 then keyboard_stub lnk else default_stub lnk)) \<and>
    screen (machine s) = terminal_prompt (terminal_write (boot_screen @ welcome_text) (terminal_init (screen k))) \<and>
    out_bytes COM1_PORT (kports (machine s)) = out_bytes COM1_PORT (serial_init (kports k)) @
      boot_log boot_info False @ crlf (chars ''[SNSX] autorun skipped: runtime not ready'' @ [10])"
proof -
  obtain mm m where mem: "memory_init boot_info (kernel_end lnk) (pages (store k), kram k) = (mm, m)"
    by fastforce
  obtain table descriptor where idt: "idt_init (default_stub lnk) (timer_stub lnk) (keyboard_stub lnk)
      (idt_address lnk) (idt_table k) = (table, descriptor)" by fastforce
  from kmain_boot [OF live mem idt] obtain tr s ready k8 where
    af: "appfs_init dev boot_info (boot_storage k mm m tr) = (ready, s)"
    and run: "\<And>programs buf. kmain dev programs lnk boot_info buf k =
      do { k9 \<leftarrow> runtime_autorun dev programs k8; Some (shell_start buf k9) }"
    and k8: "screen k8 = terminal_write boot_screen (terminal_init (screen k))"
      "pit_frequency_hz (clock k8) = 100" "keys k8 = keyboard_init (keys k)" "idt_table k8 = table"
      "interrupts_on k8" "runtime_ready k8 = ready"
      "out_bytes COM1_PORT (kports k8) =
        out_bytes COM1_PORT (serial_init (kports k)) @ boot_log boot_info ready" by metis
  have ready: "\<not> ready" using appfs_init_no_volume [OF vol, of "boot_storage k mm m tr"] af by simp
  obtain k9 where k9: "log_line dev (Literal (chars ''[SNSX] autorun skipped: runtime not ready'')) k8 = Some k9"
    "emits [] (crlf (chars ''[SNSX] autorun skipped: runtime not ready'' @ [10])) k8 k9"
    by (rule log_literal [OF live, of "''[SNSX] autorun skipped: runtime not ready''" k8]) (simp_all add: chars_def)
  note keep = emits_keeps [OF k9(2)]
  have "kmain dev programs lnk boot_info buf k = Some (shell_start buf k9)"
    using ready k8(6) by (simp add: run runtime_autorun_def runtime_is_ready_def k9(1))
  moreover have "session_ok (shell_start buf k9)"
  proof (rule session_ok_start [OF steady_booted assms(3)])
    show "screen k9 = terminal_write boot_screen (terminal_init (screen k))"
      using keep k8(1) by (simp add: terminal_write_def)
    show "ring_ok (keys k9)" using keep k8(3) ring_ok_keyboard_init [OF assms(5)] by simp
  qed
  moreover note idt_gates [OF assms(4) idt]
  ultimately show ?thesis
    using keep k8 ready
    by (intro exI [of _ "shell_start buf k9"]) (simp add: shell_start_machine terminal_write_append terminal_write_def)
qed

text \<open>A machine before the boot, with all variables zero, and addresses of the linked image.\<close>

definition cold_kernel :: kernel where
  "cold_kernel = \<lparr>screen = blank_terminal, clock = pit_start, keys = keyboard_zero, store = example_storage,
     idt_table = idt_zero, interrupts_on = False, runtime_ready = False, last_exit_code = 0\<rparr>"

definition small_linked :: linked where
  "small_linked = \<lparr>kernel_end = 0x120000, idt_address = 0x110000, default_stub = 0x100010,
     timer_stub = 0x100020, keyboard_stub = 0x100030\<rparr>"

lemma kmain_reaches_shell_witness:
  "\<exists>s. kmain ready_uart (\<lambda>_ _ _. None) small_linked None (replicate 128 0) cold_kernel = Some s \<and>
     session_ok s \<and> interrupts_on (machine s)"
proof -
  have "length (idt_table cold_kernel) = 256" "length (keyboard_buffer (keys cold_kernel)) = KEYBOARD_BUFFER_SIZE"
    "no_volume ready_uart None" "length (replicate 128 (0 :: u8)) = INPUT_BUFFER_SIZE"
    by (simp_all add: cold_kernel_def idt_zero_def keyboard_zero_def no_volume_def INPUT_BUFFER_SIZE_def)
  with kmain_reaches_shell [OF ready_uart_live, of None "replicate 128 0" cold_kernel] show ?thesis by blast
qed

end
