(* ===== verification/Autorun.thy ===== *)
theory Autorun
  imports Runtime Stored_Program
begin

text \<open>
  The self-test at boot (\<open>runtime_autorun\<close> of kernel/src/runtime.c) on a volume made by the
  packing tool: it runs the first packed application.
\<close>

section \<open>Steps and the application window\<close>

lemma set_ram_commute:
  "set_ram m (set_ports tr (put_screen f k)) = set_ports tr (put_screen f (set_ram m k))"
  by (cases k) (simp add: set_ports_def put_screen_def set_ram_def)

lemma emits_set_ram: "emits a b k k' \<Longrightarrow> emits a b (set_ram m k) (set_ram m k')"
  unfolding emits_def using set_ram_commute by fastforce

lemma stored_pairs: "stored h argv img m af \<Longrightarrow> 0 < length (arg_pairs argv)"
  by (auto simp: stored_def arg_pairs_def mkappfs_main_def div_greater_zero_iff split: if_splits)

lemma stored_length:
  assumes "stored h argv img m af"
  shows "24 + 44 * length (arg_pairs argv) \<le> length img"
  by (rule stored_parts [OF assms]) simp

lemma stored_count:
  assumes "stored h argv img m af"
  shows "unat (appfs_entry_count af m) = length (arg_pairs argv)"
proof -
  have "length (arg_pairs argv) < 4294967296" "appfs_header af = appfs_image af"
    using stored_length [OF assms] assms by (simp_all add: stored_def)
  then show ?thesis
    using stored_valid [OF assms]
    by (simp add: appfs_entry_count_def appfs_is_ready_def word_le_of_nat_u32)
qed

text \<open>The name of an entry of the table, below the window or above it.\<close>

lemma stored_names_text:
  assumes st: "stored h argv img m af" and i: "i < length (arg_pairs argv)"
    and clear: "image_clear (appfs_image af) (of_nat (length img))"
  shows "names_text (At (entry_addr (appfs_image af) i)) (take 31 (fst (arg_pairs argv ! i))) m"
proof -
  have b: "unat (appfs_image af) + length img < 18446744073709551616"
    using st by (simp add: stored_def)
  have "\<not> window (entry_addr (appfs_image af) i + of_nat j)" if "j \<le> 31" for j
  proof -
    have "24 + 44 * i + j < length img" using that i stored_length [OF st] by simp
    moreover have "entry_addr (appfs_image af) i + of_nat j = appfs_image af + of_nat (24 + 44 * i + j)"
      by (simp add: entry_addr_def)
    moreover have "unat (appfs_image af + of_nat (24 + 44 * i + j)) = unat (appfs_image af) + (24 + 44 * i + j)"
      using b calculation(1) by (intro unat_add_of_nat_u64) simp
    ultimately have "unat (entry_addr (appfs_image af) i + of_nat j) = unat (appfs_image af) + (24 + 44 * i + j)"
      by (simp only:)
    with clear b \<open>24 + 44 * i + j < length img\<close> show ?thesis
      by (auto simp: window_def image_clear_def unat_of_nat_u64_small)
  qed
  with stored_name(1) [OF st i] show ?thesis by simp
qed

section \<open>The self-test\<close>

definition autorun_screen :: "bytes \<Rightarrow> bytes" where
  "autorun_screen name = chars ''Runtime self-test: launching '' @ name @ chars ''.'' @ [10]"

definition autorun_log :: "nat \<Rightarrow> bytes \<Rightarrow> bytes" where
  "autorun_log n name = crlf (chars ''[SNSX] runtime app count: '') @ dec_numeral n @ crlf [10] @
     crlf (chars ''[SNSX] autorun target: '') @ crlf (name @ [10])"

lemma autorun_texts:
  "is_cstr (text_at (Literal (chars ''[SNSX] runtime app count: '')) m) (chars ''[SNSX] runtime app count: '')"
  "is_cstr (text_at (Literal (chars ''[SNSX] autorun target: '')) m) (chars ''[SNSX] autorun target: '')"
  "is_cstr (text_at (Literal (chars ''Runtime self-test: launching '')) m) (chars ''Runtime self-test: launching '')"
  "is_cstr (text_at (Literal (chars ''.'')) m) (chars ''.'')"
  "is_cstr (text_at (Literal [10]) m) [10]" "is_cstr (text_at (Literal []) m) []"
  by (rule is_cstr_Literal; simp add: chars_def)+

lemma autorun_announces:
  assumes live: "uart_live dev" and ready: "runtime_ready k"
    and count: "runtime_app_count k = n" "n \<noteq> 0"
    and name: "runtime_app_name 0 k = At e" and nm: "is_cstr (ptr_at (kram k) e) s"
  obtains k8 where "emits (autorun_screen s) (autorun_log (unat n) s) k k8"
    and "\<And>programs. runtime_autorun dev programs k =
      do { (launched, k9) \<leftarrow> runtime_launch dev programs (At e) k8; show_line (Literal []) k9 }"
proof -
  obtain k1 where 1: "log_text dev (Literal (chars ''[SNSX] runtime app count: '')) k = Some k1"
    "emits [] (crlf (chars ''[SNSX] runtime app count: '')) k k1"
    by (rule log_text_emits [OF live autorun_texts(1)])
  obtain k2 where 2: "serial_act (serial_write_uint64 dev (ucast n)) k1 = Some k2"
    "emits [] (dec_numeral (unat (ucast n :: u64))) k1 k2"
    by (rule emits_serial [OF sends_uint64 [OF live]])
  obtain k3 where 3: "log_text dev (Literal [10]) k2 = Some k3" "emits [] (crlf [10]) k2 k3"
    by (rule log_text_emits [OF live autorun_texts(5)])
  note e13 = emits_trans [OF emits_trans [OF 1(2) 2(2)] 3(2)]
  have name3: "runtime_app_name 0 k3 = At e"
    using name emits_keeps(4,5) [OF e13] by (simp add: runtime_app_name_def)
  obtain k4 where 4: "log_text dev (Literal (chars ''[SNSX] autorun target: '')) k3 = Some k4"
    "emits [] (crlf (chars ''[SNSX] autorun target: '')) k3 k4"
    by (rule log_text_emits [OF live autorun_texts(2)])
  note e14 = emits_trans [OF e13 4(2)]
  have "is_cstr (text_at (At e) (kram k4)) s" using nm emits_keeps(4) [OF e14] by simp
  from log_line_emits [OF live this] obtain k5 where 5: "log_line dev (At e) k4 = Some k5"
    "emits [] (crlf (s @ [10])) k4 k5" .
  obtain k6 where 6: "show_text (Literal (chars ''Runtime self-test: launching '')) k5 = Some k6"
    "emits (chars ''Runtime self-test: launching '') [] k5 k6"
    using show_text_emits [OF autorun_texts(3)] by blast
  note e16 = emits_trans [OF emits_trans [OF e14 5(2)] 6(2)]
  have "is_cstr (text_at (At e) (kram k6)) s" using nm emits_keeps(4) [OF e16] by simp
  from show_text_emits [OF this] obtain k7 where 7: "show_text (At e) k6 = Some k7" "emits s [] k6 k7"
    by blast
  obtain k8 where 8: "show_line (Literal (chars ''.'')) k7 = Some k8" "emits (chars ''.'' @ [10]) [] k7 k8"
    using show_line_emits [OF autorun_texts(4)] by blast
  have "unat (ucast n :: u64) = unat n"
    using unat_u32_bound [of n] by (simp add: unsigned_ucast_eq take_bit_eq_mod)
  with emits_trans [OF emits_trans [OF e16 7(2)] 8(2)]
  have "emits (autorun_screen s) (autorun_log (unat n) s) k k8"
    by (simp add: autorun_screen_def autorun_log_def)
  moreover have "runtime_autorun dev programs k =
      do { (launched, k9) \<leftarrow> runtime_launch dev programs (At e) k8; show_line (Literal []) k9 }" for programs
    using ready count(2)
    by (simp add: runtime_autorun_def runtime_is_ready_def Let_def name3 1(1) 2(1) 3(1) 4(1) 5(1) 6(1) 7(1) 8(1)
        count(1))
  ultimately show thesis using that by blast
qed

lemma autorun_loaded:
  assumes live: "uart_live dev" and ready: "runtime_ready k"
    and st: "stored h argv img (kram k) (kvol k)"
    and rf: "read_file h (snd (arg_pairs argv ! 0)) = Some c" and runs: "runs_as c segs"
    and clear: "image_clear (appfs_image (kvol k)) (of_nat (length img))"
    and s: "s = take 31 (fst (arg_pairs argv ! 0))"
  obtains m k5 where "agrees (kram k) m" and "\<And>x. window x \<Longrightarrow> m x = file_byte c segs x"
    and "emits (autorun_screen s @ launch_screen s)
      (autorun_log (length (arg_pairs argv)) s @ launch_log s) (set_ram m k) k5"
    and "case programs (file_entry c) (runtime_api dev) k5 of
         None \<Rightarrow> runtime_autorun dev programs k = None
       | Some (code, k6) \<Rightarrow> \<exists>k7. runtime_autorun dev programs k = Some k7 \<and>
           emits [10] (exit_log code) (k6\<lparr>last_exit_code := code\<rparr>) k7"
proof -
  let ?e = "entry_addr (appfs_image (kvol k)) 0"
  note i = stored_pairs [OF st]
  have hd: "appfs_header (kvol k) = appfs_image (kvol k)" using st by (simp add: stored_def)
  have valid: "appfs_is_ready (kvol k) (kram k)"
    using stored_valid(1) [OF st] by (simp add: appfs_is_ready_def)
  note cnt = stored_count [OF st]
  have c0: "appfs_entry_count (kvol k) (kram k) \<noteq> 0" using i cnt by (metis less_irrefl unat_0)
  have "runtime_app_name 0 k = At ?e"
    using valid c0 stored_name(2) [OF st i]
    by (simp add: runtime_app_name_def appfs_entry_at_def appfs_entry_count_def entry_addr_def
        sizeof_AppFsHeader_def word_neq_0_conv not_le)
  moreover have "runtime_app_count k = appfs_entry_count (kvol k) (kram k)"
    using ready by (simp add: runtime_app_count_def runtime_is_ready_def)
  moreover note name = stored_name(1) [OF st i, folded s]
  ultimately obtain k8 where em: "emits (autorun_screen s) (autorun_log (length (arg_pairs argv)) s) k k8"
    and auto: "runtime_autorun dev programs k =
      do { (launched, k9) \<leftarrow> runtime_launch dev programs (At ?e) k8; show_line (Literal []) k9 }"
    using autorun_announces [OF live ready _ c0] cnt by metis
  note keep = emits_keeps [OF em]
  have st8: "stored h argv img (kram k8) (kvol k8)" using st keep by simp
  have nt: "names_text (At ?e) s (kram k8)"
    using stored_names_text [OF st i clear] keep s by simp
  obtain d where d: "ucast (ent_size (kram k8) ?e) = (of_nat (length c) :: u64)"
    "appfs_data_at ?e (kvol k8) (kram k8) = d" "d \<noteq> 0" "loads_as (kram k8) d (of_nat (length c)) segs"
    "elf_entry (kram k8) d = file_entry c"
    "\<And>x. program_byte (kram k8) d segs x = file_byte c segs x"
    using stored_program [OF st i rf runs clear] keep by metis
  have find: "appfs_find (text_at (At ?e) (kram k8)) (kvol k8) (kram k8) = Some ?e"
    using stored_find [OF st i, folded s] name keep by simp
  have ready8: "runtime_ready k8" using ready keep by simp
  obtain m k5 where m: "agrees (kram k8) m" "\<And>x. window x \<Longrightarrow> m x = program_byte (kram k8) d segs x"
    and em5: "emits (launch_screen s) (launch_log s) (set_ram m k8) k5"
    and run: "case programs (elf_entry (kram k8) d) (runtime_api dev) k5 of
         None \<Rightarrow> runtime_launch dev programs (At ?e) k8 = None
       | Some (code, k6) \<Rightarrow> \<exists>k7. runtime_launch dev programs (At ?e) k8 = Some (True, k7) \<and>
           emits [] (exit_log code) (k6\<lparr>last_exit_code := code\<rparr>) k7"
    by (rule launch_loaded [OF live ready8 find stored_name(2) [OF st i] d(2) [symmetric] d(3)
          d(1) [symmetric] d(4) nt, where programs = programs]) (rule that)
  have fin: "\<exists>k'. show_line (Literal []) k7 = Some k' \<and> emits [10] b k6 k'"
    if "emits [] b k6 k7" for b k6 k7
    using show_line_emits [OF autorun_texts(6), of k7] emits_trans [OF that, of "[10]" "[]"] by auto
  have "case programs (file_entry c) (runtime_api dev) k5 of
         None \<Rightarrow> runtime_autorun dev programs k = None
       | Some (code, k6) \<Rightarrow> \<exists>k7. runtime_autorun dev programs k = Some k7 \<and>
           emits [10] (exit_log code) (k6\<lparr>last_exit_code := code\<rparr>) k7"
    using run fin unfolding d(5) auto by (force split: option.splits)
  with m em5 d(6) keep(4) emits_trans [OF emits_set_ram [OF em] em5] show thesis
    using that [of m k5] by simp
qed

end
