(* ===== verification/Boot_Volume.thy ===== *)
theory Boot_Volume
  imports Kernel_Main Autorun
begin

text \<open>
  The boot of a machine with an application volume on its disk: \<open>kmain\<close> (kernel/src/main.c)
  from the memory manager over the disk driver and the volume to the first application.
\<close>

section \<open>Pages left for the volume\<close>

text \<open>
  With a kernel that ends below 3 MiB the heap goes between it and the application window, and
  everything above the window is free.
\<close>

lemma boot_pages:
  assumes ke: "unat ke \<le> 0x300000" and init: "memory_init info ke (mm0, m0) = (mm, m)"
    and room: "0 < n" "2048 + n \<le> 256 * pool_mb info"
  shows "free_run mm n 2048" and "alloc_ok mm"
    and "\<And>k r. free_run mm k r \<Longrightarrow> r + k \<le> 1024 \<or> 2048 \<le> r \<or> k = 0"
proof -
  have fp: "first_page ke \<le> 768" using div_le_mono [of "max (unat ke) 0x100000 + 4095" "0x300000 + 4095" 4096] ke
    by (simp add: first_page_def)
  have "unat ke < 2 ^ 63" using ke by simp
  note mp = marked_pages [OF this, of info mm0]
  have res: "heap_init (marked info ke mm0, m0) = (mm, m)" using init by (simp add: memory_init_marked)
  have "alloc_ok mm \<and> page_limit mm = 256 * pool_mb info \<and>
      reserved_pages ke \<inter> {..<page_limit mm} \<subseteq> used_pages mm \<and> used_pages mm \<subseteq> {..<2048}"
    using mp(2) res
  proof (cases rule: heap_init_cases)
    case none
    then show ?thesis using mp fp by (auto simp: reserved_pages_def)
  next
    case (heap r)
    have "r = first_page ke"
      using first_run_above_kernel [OF _ fp _ HOL.refl heap(1,2)] ke room by simp
    then show ?thesis using heap mp fp by (auto simp: reserved_pages_def)
  qed
  then have ok: "alloc_ok mm" "page_limit mm = 256 * pool_mb info" "used_pages mm \<subseteq> {..<2048}"
    and win: "{1024..<2048} \<subseteq> used_pages mm"
    using room by (auto simp: reserved_pages_def)
  show "alloc_ok mm" by (rule ok(1))
  show "free_run mm n 2048"
    unfolding free_run_def
  proof (intro conjI allI impI)
    show "2048 + n \<le> unat (total_page_count mm)" using ok(2) room by (simp add: page_limit_def)
    fix p assume p: "2048 \<le> p \<and> p < 2048 + n"
    then have "p < unat (total_page_count mm)" using ok(2) room by (simp add: page_limit_def)
    moreover have "p \<notin> used_pages mm" using ok(3) p by auto
    ultimately show "\<not> bitmap_test mm p" by (simp add: used_pages_def)
  qed
  fix k r assume "free_run mm k r"
  from free_run_unused [OF this] win have dis: "{1024..<2048} \<inter> {r..<r + k} = {}" by blast
  show "r + k \<le> 1024 \<or> 2048 \<le> r \<or> k = 0"
  proof (rule ccontr)
    assume "\<not> ?thesis"
    then have "max r 1024 \<in> {1024..<2048} \<inter> {r..<r + k}" by auto
    with dis show False by blast
  qed
qed

section \<open>The volume after \<open>appfs_init\<close>\<close>

lemma boot_stored:
  assumes serves: "ata_serves dev disk cap" and rest: "settled (drive_after (ports s0))"
    and ke: "unat ke \<le> 0x300000"
    and mem: "memory_init (Some info) ke (mm0, m0) = (mm, m)"
    and tool: "mkappfs_main h argv = (0, Some img)"
    and names: "\<forall>(name, path) \<in> set (arg_pairs argv). 0 \<notin> set name"
    and dist: "distinct (map (take 31 \<circ> fst) (arg_pairs argv))"
    and disk: "disk_bytes disk (512 * unat (boot_appfs_lba info)) (length img) = img"
    and n: "length img \<le> 512 * unat (boot_appfs_sectors info)" "boot_appfs_sectors info \<noteq> 0"
      "unat (boot_appfs_lba info) + unat (boot_appfs_sectors info) \<le> cap"
    and room: "2048 + (512 * unat (boot_appfs_sectors info) + 4095) div 4096 \<le> 256 * pool_mb (Some info)"
    and s0: "pages s0 = mm"
  obtains s where "appfs_init dev (Some info) s0 = (True, s)"
    and "stored h argv img (ram s) (volume s)"
    and "image_clear (appfs_image (volume s)) (of_nat (length img))"
proof -
  let ?n = "boot_appfs_sectors info"
  let ?k = "(512 * unat ?n + 4095) div 4096"
  have "0 < unat ?n" using n(2) by (simp add: unat_gt_0)
  then have k: "?k \<le> 14336" "0 < ?k"
    using room pool_mb_bounds(2) [of "Some info"] by (simp_all add: div_greater_zero_iff)
  have small: "unat ?n \<le> 114688" "512 * unat ?n \<le> 4096 * ?k"
    using volume_pages_cover [of "unat ?n"] k(1) by linarith+
  have vp: "unat (volume_pages ?n) = ?k" using small by (intro unat_volume_pages) simp
  then have vp0: "volume_pages ?n \<noteq> 0" using k by auto
  note pg = boot_pages [OF ke mem k(2) room]
  from pg(1) have run: "\<exists>r. free_run (pages s0) (unat (volume_pages ?n)) r" by (auto simp: s0 vp)
  have ok: "alloc_ok (pages s0)" using pg(2) s0 by simp
  from appfs_init_loads_pages [OF serves rest ok HOL.refl n(2,3) vp0 run] obtain r s where
    res: "appfs_init dev (Some info) s0 = (appfs_validate (volume s) (ram s), s)"
      "volume s = \<lparr>appfs_image = page_addr r, appfs_header = page_addr r,
        boot_lba = boot_appfs_lba info, boot_sectors = ?n\<rparr>"
      "ram s = write_bytes (ram s0) (page_addr r)
        (disk_bytes disk (512 * unat (boot_appfs_lba info)) (512 * unat ?n))"
    and fr: "free_run mm ?k r" unfolding s0 vp by blast
  have bok: "bitmap_ok mm" "bitmap_test mm 0" using pg(2) by (simp_all add: alloc_ok_def)
  then have r: "r + ?k \<le> SNSX_MAX_PAGES" using fr by (simp add: free_run_def bitmap_ok_def)
  have r0: "r \<noteq> 0"
  proof
    assume "r = 0"
    with fr k(2) bok(2) show False by (auto simp: free_run_def)
  qed
  have ua: "unat (page_addr r) = r * 4096" using r by (simp add: unat_page_addr)
  then have a0: "page_addr r \<noteq> 0" using r0 by auto
  have side: "r + ?k \<le> 1024 \<or> 2048 \<le> r" using pg(3) [OF fr] k(2) by simp
  have len: "length img \<le> 4096 * ?k" using n(1) small(2) by simp
  let ?d = "disk_bytes disk (512 * unat (boot_appfs_lba info)) (512 * unat ?n)"
  have "read_bytes (ram s) (page_addr r) (512 * unat ?n) = ?d"
    using read_write_same [of ?d "ram s0" "page_addr r"] small(1) by (simp add: res(3))
  then have "read_bytes (ram s) (page_addr r) (length img) = take (length img) ?d"
    using read_bytes_sub [of 0 "length img" "512 * unat ?n" "ram s" "page_addr r"] n(1) by simp
  also have "?d = disk_bytes disk (512 * unat (boot_appfs_lba info)) (length img) @
      disk_bytes disk (512 * unat (boot_appfs_lba info) + length img) (512 * unat ?n - length img)"
    unfolding disk_bytes_append [symmetric] using n(1) by simp
  finally have img: "read_bytes (ram s) (page_addr r) (length img) = img" unfolding disk by simp
  have "unat (?n * 512) = 512 * unat ?n" using small(1) by (simp add: unat_word_ariths)
  then have st: "stored h argv img (ram s) (volume s)"
    using tool names dist img a0 ua r len n(1) k(1) by (simp add: stored_def res(2) SNSX_MAX_PAGES_def)
  moreover have "image_clear (appfs_image (volume s)) (of_nat (length img))"
    using side len ua r k(1)
    by (auto simp: image_clear_def res(2) unat_of_nat_u64_small SNSX_MAX_PAGES_def)
  ultimately show thesis using that res(1) stored_valid(1) [OF st] by simp
qed

section \<open>The first application\<close>

lemma kmain_packed:
  assumes live: "uart_live dev" and serves: "ata_serves dev disk cap"
    and rest: "settled (drive_after (kports k))"
    and ke: "unat (kernel_end lnk) \<le> 0x300000"
    and tool: "mkappfs_main h argv = (0, Some img)"
    and names: "\<forall>(name, path) \<in> set (arg_pairs argv). 0 \<notin> set name"
    and dist: "distinct (map (take 31 \<circ> fst) (arg_pairs argv))"
    and disk: "disk_bytes disk (512 * unat (boot_appfs_lba info)) (length img) = img"
    and n: "length img \<le> 512 * unat (boot_appfs_sectors info)" "boot_appfs_sectors info \<noteq> 0"
      "unat (boot_appfs_lba info) + unat (boot_appfs_sectors info) \<le> cap"
    and room: "2048 + (512 * unat (boot_appfs_sectors info) + 4095) div 4096 \<le> 256 * pool_mb (Some info)"
    and app: "read_file h (snd (arg_pairs argv ! 0)) = Some c" "runs_as c segs"
    and name: "name = take 31 (fst (arg_pairs argv ! 0))"
  obtains k8 m k5 where "screen k8 = terminal_write boot_screen (terminal_init (screen k))"
    and "pit_ticks (clock k8) = pit_ticks (clock k)" and "keys k8 = keyboard_init (keys k)"
    and "interrupts_on k8" and "runtime_ready k8"
    and "out_bytes COM1_PORT (kports k8) =
      out_bytes COM1_PORT (serial_init (kports k)) @ boot_log (Some info) True"
    and "\<And>x. window x \<Longrightarrow> m x = file_byte c segs x"
    and "emits (autorun_screen name @ launch_screen name)
      (autorun_log (length (arg_pairs argv)) name @ launch_log name) (set_ram m k8) k5"
    and "case programs (file_entry c) (runtime_api dev) k5 of
       None \<Rightarrow> kmain dev programs lnk (Some info) buf k = None
     | Some (code, k6) \<Rightarrow> \<exists>k7. kmain dev programs lnk (Some info) buf k = Some (shell_start buf k7) \<and>
         emits [10] (exit_log code) (k6\<lparr>last_exit_code := code\<rparr>) k7"
proof -
  obtain mm m where mem: "memory_init (Some info) (kernel_end lnk) (pages (store k), kram k) = (mm, m)"
    by fastforce
  obtain table descriptor where idt: "idt_init (default_stub lnk) (timer_stub lnk) (keyboard_stub lnk)
      (idt_address lnk) (idt_table k) = (table, descriptor)" by fastforce
  from kmain_boot [OF live mem idt] obtain tr s ready k8 where
    af: "appfs_init dev (Some info) (boot_storage k mm m tr) = (ready, s)"
    and run: "\<And>programs buf. kmain dev programs lnk (Some info) buf k =
      do { k9 \<leftarrow> runtime_autorun dev programs k8; Some (shell_start buf k9) }"
    and k8: "screen k8 = terminal_write boot_screen (terminal_init (screen k))" "kram k8 = ram s"
      "kvol k8 = volume s" "interrupts_on k8" "runtime_ready k8 = ready"
      "out_bytes COM1_PORT (kports k8) =
        out_bytes COM1_PORT (serial_init (kports k)) @ boot_log (Some info) ready"
      "pit_ticks (clock k8) = pit_ticks (clock k)" "keys k8 = keyboard_init (keys k)"
    and drive: "drive_after tr = drive_after (kports k)" by metis
  have rest': "settled (drive_after (ports (boot_storage k mm m tr)))"
    using rest drive by (simp add: boot_storage_def)
  have "pages (boot_storage k mm m tr) = mm" by (simp add: boot_storage_def)
  from boot_stored [OF serves rest' ke mem tool names dist disk n room this] obtain s1 where
    s1: "appfs_init dev (Some info) (boot_storage k mm m tr) = (True, s1)"
      "stored h argv img (ram s1) (volume s1)" "image_clear (appfs_image (volume s1)) (of_nat (length img))" .
  then have r: "ready" "stored h argv img (kram k8) (kvol k8)"
    "image_clear (appfs_image (kvol k8)) (of_nat (length img))" using af k8(2,3) by simp_all
  have ready8: "runtime_ready k8" using r(1) k8(5) by simp
  obtain m' k5 where
    m': "\<And>x. window x \<Longrightarrow> m' x = file_byte c segs x"
    and em: "emits (autorun_screen name @ launch_screen name)
      (autorun_log (length (arg_pairs argv)) name @ launch_log name) (set_ram m' k8) k5"
    and res: "case programs (file_entry c) (runtime_api dev) k5 of
         None \<Rightarrow> runtime_autorun dev programs k8 = None
       | Some (code, k6) \<Rightarrow> \<exists>k7. runtime_autorun dev programs k8 = Some k7 \<and>
           emits [10] (exit_log code) (k6\<lparr>last_exit_code := code\<rparr>) k7" by (rule autorun_loaded [OF live ready8 r(2) app r(3) name, where programs = programs]) (rule that)
  have "case programs (file_entry c) (runtime_api dev) k5 of
       None \<Rightarrow> kmain dev programs lnk (Some info) buf k = None
     | Some (code, k6) \<Rightarrow> \<exists>k7. kmain dev programs lnk (Some info) buf k = Some (shell_start buf k7) \<and>
         emits [10] (exit_log code) (k6\<lparr>last_exit_code := code\<rparr>) k7"
    using res by (auto simp: run split: option.splits)
  with m' em k8 r(1) ready8 show thesis using that [of k8 m' k5] by simp
qed

section \<open>An application that only prints\<close>

context printing_app begin

lemma booted:
  assumes live: "uart_live dev" and serves: "ata_serves dev disk cap"
    and rest: "settled (drive_after (kports k))"
    and ke: "unat (kernel_end lnk) \<le> 0x300000"
    and tool: "mkappfs_main h argv = (0, Some img)"
    and names: "\<forall>(name, path) \<in> set (arg_pairs argv). 0 \<notin> set name"
    and dist: "distinct (map (take 31 \<circ> fst) (arg_pairs argv))"
    and disk: "disk_bytes disk (512 * unat (boot_appfs_lba info)) (length img) = img"
    and n: "length img \<le> 512 * unat (boot_appfs_sectors info)" "boot_appfs_sectors info \<noteq> 0"
      "unat (boot_appfs_lba info) + unat (boot_appfs_sectors info) \<le> cap"
    and room: "2048 + (512 * unat (boot_appfs_sectors info) + 4095) div 4096 \<le> 256 * pool_mb (Some info)"
    and elf: "read_file h (snd (arg_pairs argv ! 0)) = Some c" "runs_as c segs"
    and name: "name = take 31 (fst (arg_pairs argv ! 0))"
    and buf: "length buf = INPUT_BUFFER_SIZE"
    and kb: "length (keyboard_buffer (keys k)) = KEYBOARD_BUFFER_SIZE"
    and progs: "programs (file_entry c) = app"
  shows "\<exists>s. kmain dev programs lnk (Some info) buf k = Some s \<and> session_ok s \<and>
    pending (keys (machine s)) = [] \<and> interrupts_on (machine s) \<and> runtime_ready (machine s) \<and>
    pit_ticks (clock (machine s)) = pit_ticks (clock k) \<and>
    runtime_last_exit_code (machine s) = code \<and>
    (\<forall>x. window x \<longrightarrow> kram (machine s) x = file_byte c segs x) \<and>
    screen (machine s) = terminal_prompt (terminal_write (boot_screen @ autorun_screen name @
      launch_screen name @ words (machine s) @ [10] @ welcome_text) (terminal_init (screen k))) \<and>
    out_bytes COM1_PORT (kports (machine s)) = out_bytes COM1_PORT (serial_init (kports k)) @
      boot_log (Some info) True @ autorun_log (length (arg_pairs argv)) name @ launch_log name @
      crlf (words (machine s)) @ exit_log code"
proof -
  obtain k8 m k5 where k8: "screen k8 = terminal_write boot_screen (terminal_init (screen k))"
      "pit_ticks (clock k8) = pit_ticks (clock k)" "keys k8 = keyboard_init (keys k)"
      "interrupts_on k8" "runtime_ready k8"
      "out_bytes COM1_PORT (kports k8) =
        out_bytes COM1_PORT (serial_init (kports k)) @ boot_log (Some info) True"
      "\<And>x. window x \<Longrightarrow> m x = file_byte c segs x"
    and em5: "emits (autorun_screen name @ launch_screen name)
      (autorun_log (length (arg_pairs argv)) name @ launch_log name) (set_ram m k8) k5"
    and res: "case programs (file_entry c) (runtime_api dev) k5 of
       None \<Rightarrow> kmain dev programs lnk (Some info) buf k = None
     | Some (code, k6) \<Rightarrow> \<exists>k7. kmain dev programs lnk (Some info) buf k = Some (shell_start buf k7) \<and>
         emits [10] (exit_log code) (k6\<lparr>last_exit_code := code\<rparr>) k7"
    by (rule kmain_packed [OF live serves rest ke tool names dist disk n room elf name,
          where programs = programs]) (rule that)
  obtain k6 where 6: "app (runtime_api dev) k5 = Some (code, k6)" "says (words k5) k5 k6"
    using returns [OF live] by blast
  with res obtain k7 where k7: "kmain dev programs lnk (Some info) buf k = Some (shell_start buf k7)"
    and em7: "emits [10] (exit_log code) (k6\<lparr>last_exit_code := code\<rparr>) k7"
    by (auto simp: progs)
  have em: "emits (autorun_screen name @ launch_screen name @ words k5 @ [10])
      (autorun_log (length (arg_pairs argv)) name @ launch_log name @ crlf (words k5) @ exit_log code)
      ((set_ram m k8)\<lparr>last_exit_code := code\<rparr>) k7"
    using emits_trans [OF emits_exit_code [OF emits_trans [OF em5 6(2) [unfolded says_def]]] em7] by simp
  note keep = emits_keeps [OF em]
  have scr: "screen k7 = terminal_write (boot_screen @ autorun_screen name @ launch_screen name @
      words k5 @ [10]) (terminal_init (screen k))"
    using keep(1) k8(1) by (simp add: terminal_write_append)
  let ?s = "shell_start buf k7"
  have "session_ok ?s"
    by (rule session_ok_start [OF steady_booted [OF scr] buf])
      (use keep(3) k8(3) ring_ok_keyboard_init [OF kb] in simp)
  moreover have "words (machine ?s) = words k5"
    using keep(2,6) emits_keeps(2,6) [OF em5]
    by (intro words_stable) (simp_all add: shell_start_machine)
  moreover have "terminal_write (10 # welcome_text) t = terminal_write welcome_text (terminal_write [10] t)" for t
    using terminal_write_append [of "[10]" welcome_text t] by simp
  ultimately show ?thesis
    using k7 keep k8 scr
    by (intro exI [of _ ?s]) (simp add: shell_start_machine runtime_last_exit_code_def
        terminal_write_append)
qed

end

section \<open>Properties\<close>


text \<open>The demonstration volume on a disk, at sector 100.\<close>

definition demo_disk :: "nat \<Rightarrow> u8" where
  "demo_disk i = (if 51200 \<le> i \<and> i < 51200 + length demo_image then demo_image ! (i - 51200) else 0)"

lemma ideal_drive_live: "uart_live (ideal_drive disk cap)"
  by (simp add: uart_live_def ideal_drive_def gets_ready.now LINE_STATUS_def)

lemma demo_disk_bytes:
  "disk_bytes demo_disk (512 * unat (boot_appfs_lba example_info)) (length demo_image) = demo_image"
  by (rule nth_equalityI) (simp_all add: disk_bytes_def demo_disk_def example_facts)

lemma example_volume: "boot_appfs_sectors example_info = 3" "pool_mb (Some example_info) = 64"
  by (simp_all add: example_info_def pool_mb_def)

lemma cold_settled: "settled (drive_after (kports cold_kernel))"
  by (simp add: cold_kernel_def example_settled)


end
