(* ===== verification/Spec2Isabelle.thy ===== *)
theory Spec2Isabelle
  imports C_Strings Pic Idt Pit Keyboard_Interleaving Terminal_Console Serial Memory_Init
    Mk_App_Fs Elf_Loader Runtime Demo_App Shell_Catalogue Kernel_Main Boot_Volume
begin

text \<open>
  SNSX ExOS: a verification library of the kernel, its packing tool and its demonstration
  application.

  The program. A BIOS boot loader (assembly, src/boot) enters a 64-bit kernel (\<open>kmain\<close> in
  kernel/src/main.c) with a \<open>BootInfo\<close> structure. The kernel sets up the serial port and
  the screen, the page allocator and heap, the interrupt descriptor table, the interrupt
  controllers, the timer and the keyboard. It reads an application volume from the boot disk
  over ATA PIO into pages of its allocator, validates it and runs the first application in
  it: an ELF64 file whose segments are copied to a fixed window at 4 MiB, called with a table
  of kernel functions. Then the shell reads commands from the keyboard ring that the keyboard
  interrupt fills. A host tool (tools/mkappfs.c) makes the volume.

  Theories and sources, each importing the ones it calls:

    \<^item> Prelude, Phys_Memory: words of the widths of the C types, byte strings, little-endian
      encoding, and memory as a function from 64-bit addresses to bytes.
    \<^item> C_Strings: kernel/src/strings.c. Port_IO: ports.c, and the device parameter.
    \<^item> Number_Format, Terminal, Terminal_Console: terminal.c and the number printing it shares
      with serial.c; the console as a list of lines is the specification. Serial: serial.c.
    \<^item> Page_Allocator, Kernel_Heap, Heap_Contract, Memory_Init: memory.c. Boot_Info:
      include/boot_info.h.
    \<^item> Bounded_Queue, Keyboard, Keyboard_Interleaving: keyboard.c, and \<open>keyboard_pop\<close> cut into
      its memory accesses with the interrupt handler between any two of them.
    \<^item> Pic, Idt, Pit: pic.c, idt.c, pit.c.
    \<^item> Ata: ata.c, against the drive of Ata_Drive. App_Fs: appfs.c. Mk_App_Fs: tools/mkappfs.c. Elf_Loader, Program_Image,
      Stored_Program: the loader part of runtime.c, and what it makes of a file of the volume.
    \<^item> Kernel_State: all static variables as one record. Runtime, Autorun: the rest of
      runtime.c. Demo_App: apps/demo/main.c.
    \<^item> Shell, Shell_Commands, Shell_Session, Shell_Catalogue: shell.c; the turns of its loop,
      interleaved with the two interrupts, are a step relation.
    \<^item> Kernel_Main, Boot_Volume: main.c, and the boot of a machine without and with a volume.
      Quiet_Ports: the drivers that send nothing on the serial line.
    \<^item> Demo_Volume: a concrete executable, packed, for the witnesses.

  How the code is modelled. A static variable is a field of a record, and a function is a HOL
  function that takes and returns the state it uses; \<open>for\<close> loops over fixed ranges are folds.
  Integers keep their width as words wherever they can wrap; indices that the code bounds
  (page numbers, screen rows, ring counts of the specification) are natural numbers. Packed
  structures are read from and written to memory at their offsets at each access of the code,
  so overlap and aliasing are in the model: heap headers, the volume's tables and ELF headers
  are bytes of the memory the loader and the clients write. Port input and output is a
  history of accesses; the hardware is a function from the history to the next answer, hence
  any deterministic device.

  A loop without a bound of its own (a string without a NUL, a serial port never ready, a
  cyclic heap chain, an application that does not return) is a partial function whose value
  \<open>None\<close> is not returning; the properties prove that the code returns under the stated
  conditions, or is \<open>None\<close> exactly with the part that does not return. The polling loops of
  the disk driver have the code's own bound of 100000 polls, and the loops over volume
  entries, sectors and program headers are proved to end. No fuel is added anywhere.

  What the properties show. Each library part has its contract: strings compare in order, the
  page allocator is first fit and hands out disjoint runs, the heap implements a list of
  blocks with first fit and joining of neighbours and keeps live allocations apart, the
  keyboard ring is a queue of 255 characters that loses none under any interleaving, the
  terminal implements a scrolling console and stays in its area, a disk read returns the
  sectors asked for, the tool and the kernel's reader are inverse, the loader puts exactly
  the file's segments into the window. On these rest the properties of the whole: a launch
  runs the program found and reports its code or refuses without effect, the shell keeps its
  invariant under any sequence of turns and interrupts and runs exactly the line typed,
  \<open>kmain\<close> reaches the shell on a machine without a volume, and with one runs its first
  packed application. Properties about missing checks show wrap-around and bounds the code
  does not test: each is a behaviour of the code as written.

  Interfaces are locales: \<open>bounded_queue\<close> (keyboard ring), \<open>page_provider\<close> (page allocator),
  \<open>char_sink\<close> (terminal and serial port), \<open>screen_op\<close> (terminal operations), \<open>printing_app\<close>
  (applications that only use the kernel's table); each is interpreted on the code's model.

  Hypotheses about what is not in the sources: \<open>uart_live\<close> (the transmitter becomes ready
  again), \<open>ata_serves\<close> (theory \<open>Ata_Drive\<close>), \<open>polite\<close> (an application leaves cursor, header
  and ring well-formed). The 8259A and the drive are small automata over the port history that
  follow their documentation. The drive follows the PIO protocol of READ SECTORS with 28-bit
  addresses: registers are accepted only from a host that has read BSY clear, a command only
  with every address register written since the last one, the LBA bit set and device 0
  selected, data is promised only for a sector whose DRQ the host has read with BSY clear, and
  only on the \<open>cap\<close> sectors of the disk; after any other access nothing is promised until a
  software reset. Hypotheses of time: the drive stops being busy,
  and announces a sector, within the driver's 100000 status reads, and a status read already
  reflects the command or the data read before it (the driver does not wait 400 ns). One more
  is needed because the driver tests ERR and DF before it looks at BSY: they read 0 while BSY is
  set. \<open>settled\<close> says that no command is outstanding when the driver starts. \<open>ideal_drive\<close> is a
  drive with all of this that is busy on the first poll of every wait.

  Not modelled: the assembly of the boot loader and of the interrupt stubs, the machine code
  of applications (a function from the entry address and the kernel's table to an exit code
  and the new state), the processor's caches and the exact time of interrupts inside other
  functions than \<open>keyboard_pop\<close> and the turns of the shell, failing writes of the packing tool, and
  the build files, documentation and disk images. \<open>hlt\<close> waits for an interrupt and changes
  nothing.
\<close>

section \<open>The shipped machine\<close>



end
